(* ===== verification/Prelude.thy ===== *)
theory Prelude
  imports Main "HOL-Library.Word" "HOL-Library.Multiset"
begin

text \<open>
  Shared vocabulary of the development.  Machine integers keep the width they have in
  the Rust and C sources; a fallible operation returns \<open>error + 'a\<close>, where \<open>Panic\<close>
  stands for a Rust panic (a failed \<^verbatim>\<open>unwrap\<close>, an index out of range, a failed
  \<^verbatim>\<open>assert!\<close>) and the other constructors for the errors the code reports with
  \<^verbatim>\<open>bail!\<close> or \<^verbatim>\<open>?\<close>.  The lemmas are the generic facts on lists, results and
  native-endian byte encodings that the component theories share.
\<close>

unbundle bit_operations_syntax

section \<open>Types\<close>

type_synonym u8 = "8 word"
type_synonym u16 = "16 word"
type_synonym u32 = "32 word"
type_synonym u64 = "64 word"

datatype error =
    Panic
  | Msg string
  | UnknownField string string
  | UnknownVariant string string
  | ParseFailed string
  | TooManyStates nat
  | InvalidMethod string string
  | AuthFailed
  | Interrupted
  | InvalidArgs error

type_synonym 'a result = "error + 'a"

named_theorems result_simps \<open>unfolding of the result combinators\<close>
named_theorems model_defs \<open>definitions of the model that a proof executes\<close>

section \<open>Results\<close>

definition rbind :: "'a result \<Rightarrow> ('a \<Rightarrow> 'b result) \<Rightarrow> 'b result" where
  "rbind r f = (case r of Inl e \<Rightarrow> Inl e | Inr x \<Rightarrow> f x)"

definition ok_or :: "error \<Rightarrow> 'a option \<Rightarrow> 'a result" where
  "ok_or e x = (case x of None \<Rightarrow> Inl e | Some y \<Rightarrow> Inr y)"

definition is_ok :: "'a result \<Rightarrow> bool" where
  "is_ok r = (case r of Inl _ \<Rightarrow> False | Inr _ \<Rightarrow> True)"

definition map_err :: "(error \<Rightarrow> error) \<Rightarrow> 'a result \<Rightarrow> 'a result" where
  "map_err f r = (case r of Inl e \<Rightarrow> Inl (f e) | Inr x \<Rightarrow> Inr x)"

text \<open>Rust's \<^verbatim>\<open>xs[i]\<close>: a panic out of range.\<close>

definition idx :: "'a list \<Rightarrow> nat \<Rightarrow> 'a result" where
  "idx xs i = (if i < length xs then Inr (xs ! i) else Inl Panic)"

text \<open>Rust's \<^verbatim>\<open>assert!\<close>.\<close>

definition assert_that :: "bool \<Rightarrow> unit result" where
  "assert_that b = (if b then Inr () else Inl Panic)"

fun rmap :: "('a \<Rightarrow> 'b result) \<Rightarrow> 'a list \<Rightarrow> 'b list result" where
  "rmap f [] = Inr []"
| "rmap f (x # xs) = rbind (f x) (\<lambda>y. rbind (rmap f xs) (\<lambda>ys. Inr (y # ys)))"

lemma rbind_Inl [simp]: "rbind (Inl e) f = Inl e"
  by (simp add: rbind_def)

lemma rbind_Inr [simp]: "rbind (Inr x) f = f x"
  by (simp add: rbind_def)

lemma rbind_eq_Inr: "rbind r f = Inr y \<longleftrightarrow> (\<exists>x. r = Inr x \<and> f x = Inr y)"
  by (cases r) auto

lemma ok_or_eq_Inr [simp]: "ok_or e x = Inr y \<longleftrightarrow> x = Some y"
  by (simp add: ok_or_def split: option.split)

lemma ok_or_Some [simp]: "ok_or e (Some y) = Inr y"
  by (simp add: ok_or_def)

lemma ok_or_None [simp]: "ok_or e None = Inl e"
  by (simp add: ok_or_def)

lemma is_ok_simps [simp]: "is_ok (Inr x)" "\<not> is_ok (Inl e)"
  by (simp_all add: is_ok_def)

lemma is_ok_iff: "is_ok r \<longleftrightarrow> (\<exists>x. r = Inr x)"
  by (cases r) auto

lemma map_err_simps [simp]: "map_err f (Inr x) = Inr x" "map_err f (Inl e) = Inl (f e)"
  by (simp_all add: map_err_def)

lemma map_err_eq_Inr [simp]: "map_err f r = Inr x \<longleftrightarrow> r = Inr x"
  by (cases r) auto

lemma idx_eq_Inr [simp]: "idx xs i = Inr x \<longleftrightarrow> i < length xs \<and> xs ! i = x"
  by (auto simp: idx_def)

lemma idx_eq_Inl [simp]: "idx xs i = Inl e \<longleftrightarrow> length xs \<le> i \<and> e = Panic"
  by (auto simp: idx_def)

lemma assert_that_eq_Inr [simp]: "assert_that b = Inr u \<longleftrightarrow> b"
  by (simp add: assert_that_def)

lemma assert_that_True [simp]: "assert_that True = Inr ()"
  by (simp add: assert_that_def)

lemma rmap_eq_Inr: "rmap f xs = Inr ys \<longleftrightarrow> list_all2 (\<lambda>x y. f x = Inr y) xs ys"
  by (induction xs arbitrary: ys) (auto simp: rbind_eq_Inr list_all2_Cons1)

lemma rmap_total:
  "(\<And>x. x \<in> set xs \<Longrightarrow> f x = Inr (g x)) \<Longrightarrow> rmap f xs = Inr (map g xs)"
  by (induction xs) auto

lemmas [result_simps] = rbind_def ok_or_def map_err_def idx_def assert_that_def

section \<open>Lists\<close>

text \<open>Rust's \<^verbatim>\<open>iter().position(p)\<close>.\<close>

fun position :: "('a \<Rightarrow> bool) \<Rightarrow> 'a list \<Rightarrow> nat option" where
  "position p [] = None"
| "position p (x # xs) = (if p x then Some 0 else map_option Suc (position p xs))"

text \<open>Rust's \<^verbatim>\<open>Vec::remove(i)\<close> on an index in range.\<close>

definition remove_at :: "nat \<Rightarrow> 'a list \<Rightarrow> 'a list" where
  "remove_at i xs = take i xs @ drop (Suc i) xs"

lemma position_Some:
  "position p xs = Some i \<longleftrightarrow> i < length xs \<and> p (xs ! i) \<and> (\<forall>j < i. \<not> p (xs ! j))"
proof (induction xs arbitrary: i)
  case (Cons x xs)
  show ?case
    by (cases i) (auto simp: Cons.IH All_less_Suc2)
qed simp

lemma position_None: "position p xs = None \<longleftrightarrow> (\<forall>x \<in> set xs. \<not> p x)"
  by (induction xs) auto

lemma length_remove_at [simp]: "i < length xs \<Longrightarrow> length (remove_at i xs) = length xs - 1"
  by (simp add: remove_at_def)

lemma mset_remove_at: "i < length xs \<Longrightarrow> mset xs = add_mset (xs ! i) (mset (remove_at i xs))"
proof -
  assume "i < length xs"
  then have "xs = take i xs @ xs ! i # drop (Suc i) xs"
    by (rule id_take_nth_drop)
  then have "mset xs = mset (take i xs @ xs ! i # drop (Suc i) xs)"
    by simp
  then show ?thesis
    by (simp add: remove_at_def)
qed

lemma count_filter_remove_at:
  "i < length xs \<Longrightarrow>
    length (filter P xs) = length (filter P (remove_at i xs)) + (if P (xs ! i) then 1 else 0)"
proof -
  assume "i < length xs"
  then have "size (filter_mset P (mset xs)) =
      size (filter_mset P (add_mset (xs ! i) (mset (remove_at i xs))))"
    by (simp add: mset_remove_at)
  then show ?thesis
    by (simp flip: mset_filter)
qed

lemma count_filter_list_update:
  "i < length xs \<Longrightarrow>
    length (filter P (xs[i := y])) + (if P (xs ! i) then 1 else 0) =
    length (filter P xs) + (if P y then 1 else 0)"
proof -
  assume i: "i < length xs"
  then have "size (filter_mset P (mset (xs[i := y]))) + (if P (xs ! i) then 1 else 0) =
      size (filter_mset P (mset xs)) + (if P y then 1 else 0)"
    by (simp add: mset_remove_at [OF i] mset_update)
  then show ?thesis
    by (simp flip: mset_filter)
qed

lemma nth_mid: "k < length ys \<Longrightarrow> (xs @ ys @ zs) ! (length xs + k) = ys ! k"
  by (simp add: nth_append)

section \<open>Machine integers\<close>

lemma unat_u8_lt: "unat (w :: u8) < 256"
  using unsigned_less [of w, where ?'a = nat] by simp

lemma unat_u32_lt: "unat (w :: u32) < 2 ^ 32"
  using unsigned_less [of w, where ?'a = nat] by simp

lemma unat_of_nat_u32: "n < 2 ^ 32 \<Longrightarrow> unat (of_nat n :: u32) = n"
  by (simp add: unat_of_nat take_bit_nat_eq_self)

lemma ucast_u8_u32: "(ucast (x :: u8) :: u32) = of_nat (unat x)"
  by transfer simp

lemma ucast_u16_u32: "(ucast (x :: u16) :: u32) = of_nat (unat x)"
  by transfer simp

lemma unat_of_nat_u16: "n < 2 ^ 16 \<Longrightarrow> unat (of_nat n :: u16) = n"
  by (simp add: unat_of_nat take_bit_nat_eq_self)

section \<open>Native-endian bytes\<close>

text \<open>
  \<^verbatim>\<open>u32::to_ne_bytes\<close> on the little-endian targets of the daemon, and the load of a
  32-bit word that the eBPF program performs on the same bytes.
\<close>

definition to_ne_bytes :: "u32 \<Rightarrow> u8 list" where
  "to_ne_bytes w =
    [ucast w, ucast (drop_bit 8 w), ucast (drop_bit 16 w), ucast (drop_bit 24 w)]"

definition from_ne_bytes :: "u8 \<Rightarrow> u8 \<Rightarrow> u8 \<Rightarrow> u8 \<Rightarrow> u32" where
  "from_ne_bytes b0 b1 b2 b3 =
    ucast b0 OR push_bit 8 (ucast b1) OR push_bit 16 (ucast b2) OR push_bit 24 (ucast b3)"

lemma length_to_ne_bytes [simp]: "length (to_ne_bytes w) = 4"
  by (simp add: to_ne_bytes_def)

lemma from_to_ne_bytes:
  "from_ne_bytes (to_ne_bytes w ! 0) (to_ne_bytes w ! 1) (to_ne_bytes w ! 2) (to_ne_bytes w ! 3) = w"
proof (rule bit_word_eqI)
  fix n assume "n < LENGTH(32)"
  then have "n < 32" by simp
  then consider "n < 8" | "8 \<le> n" "n < 16" | "16 \<le> n" "n < 24" | "24 \<le> n" "n < 32"
    by linarith
  then show "bit (from_ne_bytes (to_ne_bytes w ! 0) (to_ne_bytes w ! 1) (to_ne_bytes w ! 2)
      (to_ne_bytes w ! 3)) n = bit w n"
    by cases
      (auto simp: from_ne_bytes_def to_ne_bytes_def bit_or_iff bit_push_bit_iff
        bit_drop_bit_eq bit_ucast_iff)
qed

text \<open>The bytes of a loop \<^verbatim>\<open>for w in ws { buf.extend(w.to_ne_bytes()) }\<close>.\<close>

definition ne_bytes_of :: "u32 list \<Rightarrow> u8 list" where
  "ne_bytes_of ws = concat (map to_ne_bytes ws)"

lemma ne_bytes_of_Nil [simp]: "ne_bytes_of [] = []"
  by (simp add: ne_bytes_of_def)

lemma ne_bytes_of_Cons: "ne_bytes_of (w # ws) = to_ne_bytes w @ ne_bytes_of ws"
  by (simp add: ne_bytes_of_def)

lemma length_ne_bytes_of [simp]: "length (ne_bytes_of ws) = 4 * length ws"
  by (induction ws) (simp_all add: ne_bytes_of_Cons)

lemma nth_ne_bytes_of:
  "i < length ws \<Longrightarrow> k < 4 \<Longrightarrow> ne_bytes_of ws ! (4 * i + k) = to_ne_bytes (ws ! i) ! k"
proof (induction ws arbitrary: i)
  case (Cons w ws)
  show ?case
  proof (cases i)
    case 0
    with Cons.prems show ?thesis by (simp add: ne_bytes_of_Cons nth_append)
  next
    case (Suc j)
    with Cons.prems have "ne_bytes_of ws ! (4 * j + k) = to_ne_bytes (ws ! j) ! k"
      by (intro Cons.IH) auto
    with Suc show ?thesis by (simp add: ne_bytes_of_Cons nth_append)
  qed
qed simp

end
