(* ===== verification/Rust_Text.thy ===== *)
theory Rust_Text
  imports Prelude
begin

text \<open>
  The text conversions of the Rust standard library that the daemon and the GUI use on
  D-Bus values: \<^verbatim>\<open>Display\<close> and \<^verbatim>\<open>FromStr\<close> of \<^verbatim>\<open>u32\<close>, \<^verbatim>\<open>bool\<close> and
  \<^verbatim>\<open>Ipv4Addr\<close>.  The lemmas are the round trips that the hash-map conversions of
  \<^verbatim>\<open>rebpf/macros.rs\<close> rely on.
\<close>

section \<open>Decimal numbers\<close>

definition digit_char :: "nat \<Rightarrow> char" where
  "digit_char d = char_of (48 + d)"

definition is_digit :: "char \<Rightarrow> bool" where
  "is_digit c \<longleftrightarrow> 48 \<le> (of_char c :: nat) \<and> (of_char c :: nat) \<le> 57"

definition digit_val :: "char \<Rightarrow> nat" where
  "digit_val c = of_char c - 48"

fun show_nat :: "nat \<Rightarrow> string" where
  "show_nat n = (if n < 10 then [digit_char n] else show_nat (n div 10) @ [digit_char (n mod 10)])"

declare show_nat.simps [simp del]

definition digits_val :: "string \<Rightarrow> nat" where
  "digits_val cs = foldl (\<lambda>a c. a * 10 + digit_val c) 0 cs"

text \<open>
  \<^verbatim>\<open>FromStr\<close> of an unsigned integer type whose largest value is \<open>mx\<close>: one leading
  plus sign is allowed, then one digit or more, no overflow.
\<close>

definition parse_uint :: "nat \<Rightarrow> string \<Rightarrow> nat option" where
  "parse_uint mx s =
    (let ds = (case s of c # c' # cs \<Rightarrow> if c = CHR ''+'' then c' # cs else s | _ \<Rightarrow> s)
     in if ds \<noteq> [] \<and> list_all is_digit ds \<and> digits_val ds \<le> mx then Some (digits_val ds) else None)"

definition show_u32 :: "u32 \<Rightarrow> string" where
  "show_u32 w = show_nat (unat w)"

definition parse_u32 :: "string \<Rightarrow> u32 option" where
  "parse_u32 s = map_option of_nat (parse_uint (2 ^ 32 - 1) s)"

definition show_bool :: "bool \<Rightarrow> string" where
  "show_bool b = (if b then ''true'' else ''false'')"

definition parse_bool :: "string \<Rightarrow> bool option" where
  "parse_bool s = (if s = ''true'' then Some True else if s = ''false'' then Some False else None)"

section \<open>IPv4 addresses\<close>

datatype ipv4 = Ipv4 u8 u8 u8 u8

fun octets :: "ipv4 \<Rightarrow> u8 list" where
  "octets (Ipv4 a b c d) = [a, b, c, d]"

definition show_u8 :: "u8 \<Rightarrow> string" where
  "show_u8 w = show_nat (unat w)"

fun show_ipv4 :: "ipv4 \<Rightarrow> string" where
  "show_ipv4 (Ipv4 a b c d) =
    show_u8 a @ ''.'' @ show_u8 b @ ''.'' @ show_u8 c @ ''.'' @ show_u8 d"

text \<open>
  The parser of \<^verbatim>\<open>core::net::parser\<close>: a number has at most three digits, no leading
  zero unless it is the single digit 0, and fits in an octet.
\<close>

definition read_number :: "string \<Rightarrow> (u8 \<times> string) option" where
  "read_number cs =
    (let ds = takeWhile is_digit cs
     in if ds = [] \<or> 3 < length ds \<or> (hd ds = CHR ''0'' \<and> 1 < length ds) \<or> 255 < digits_val ds
        then None else Some (of_nat (digits_val ds), dropWhile is_digit cs))"

definition read_dot :: "string \<Rightarrow> string option" where
  "read_dot cs = (case cs of c # cs' \<Rightarrow> if c = CHR ''.'' then Some cs' else None | [] \<Rightarrow> None)"

definition read_ipv4 :: "string \<Rightarrow> (ipv4 \<times> string) option" where
  "read_ipv4 s =
    Option.bind (read_number s) (\<lambda>(a, s). Option.bind (read_dot s) (\<lambda>s.
    Option.bind (read_number s) (\<lambda>(b, s). Option.bind (read_dot s) (\<lambda>s.
    Option.bind (read_number s) (\<lambda>(c, s). Option.bind (read_dot s) (\<lambda>s.
    Option.bind (read_number s) (\<lambda>(d, s). Some (Ipv4 a b c d, s))))))))"

definition parse_ipv4 :: "string \<Rightarrow> ipv4 option" where
  "parse_ipv4 s =
    (if 15 < length s then None
     else case read_ipv4 s of Some (a, []) \<Rightarrow> Some a | _ \<Rightarrow> None)"

section \<open>Round trips\<close>

lemma of_char_digit_char [simp]: "d < 10 \<Longrightarrow> (of_char (digit_char d) :: nat) = 48 + d"
  by (simp add: digit_char_def)

lemma is_digit_digit_char [simp]: "d < 10 \<Longrightarrow> is_digit (digit_char d)"
  by (simp add: is_digit_def)

lemma digit_val_digit_char [simp]: "d < 10 \<Longrightarrow> digit_val (digit_char d) = d"
  by (simp add: digit_val_def)

lemma show_nat_digits: "list_all is_digit (show_nat n)"
proof (induction n rule: show_nat.induct)
  case (1 n)
  then show ?case by (subst show_nat.simps) simp
qed

lemma show_nat_nonempty [simp]: "show_nat n \<noteq> []"
  by (subst show_nat.simps) simp

lemma digits_val_snoc: "digits_val (cs @ [c]) = digits_val cs * 10 + digit_val c"
  by (simp add: digits_val_def)

lemma digits_val_show_nat [simp]: "digits_val (show_nat n) = n"
proof (induction n rule: show_nat.induct)
  case (1 n)
  show ?case
  proof (cases "n < 10")
    case True
    then show ?thesis by (subst show_nat.simps) (simp add: digits_val_def)
  next
    case False
    with 1 show ?thesis by (subst show_nat.simps) (simp add: digits_val_snoc)
  qed
qed

lemma not_is_digit [simp]: "\<not> is_digit CHR ''+''" "\<not> is_digit CHR ''.''"
  by (simp_all add: is_digit_def)

lemma parse_uint_show_nat: "n \<le> mx \<Longrightarrow> parse_uint mx (show_nat n) = Some n"
proof -
  assume "n \<le> mx"
  have "(case show_nat n of c # c' # cs \<Rightarrow> if c = CHR ''+'' then c' # cs else show_nat n
      | _ \<Rightarrow> show_nat n) = show_nat n"
    using show_nat_digits [of n] by (auto split: list.split)
  with \<open>n \<le> mx\<close> show ?thesis
    by (simp add: parse_uint_def show_nat_digits Let_def)
qed

lemma parse_show_u32 [simp]: "parse_u32 (show_u32 w) = Some w"
proof -
  have "unat w \<le> 2 ^ 32 - 1"
    using unat_u32_lt [of w] by simp
  then show ?thesis
    by (simp add: parse_u32_def show_u32_def parse_uint_show_nat)
qed

lemma parse_show_bool [simp]: "parse_bool (show_bool b) = Some b"
  by (simp add: parse_bool_def show_bool_def)

lemma show_nat_small:
  "n < 10 \<Longrightarrow> show_nat n = [digit_char n]"
  "10 \<le> n \<Longrightarrow> n < 100 \<Longrightarrow> show_nat n = [digit_char (n div 10), digit_char (n mod 10)]"
  "100 \<le> n \<Longrightarrow> n < 1000 \<Longrightarrow>
    show_nat n = [digit_char (n div 100), digit_char (n div 10 mod 10), digit_char (n mod 10)]"
proof -
  show "n < 10 \<Longrightarrow> show_nat n = [digit_char n]"
    by (subst show_nat.simps) simp
  show two: "10 \<le> n \<Longrightarrow> n < 100 \<Longrightarrow> show_nat n = [digit_char (n div 10), digit_char (n mod 10)]" for n
    by (subst show_nat.simps) (simp add: show_nat.simps [of "n div 10"])
  assume n: "100 \<le> n" "n < 1000"
  then have "show_nat n = show_nat (n div 10) @ [digit_char (n mod 10)]"
    by (subst show_nat.simps) simp
  moreover have "show_nat (n div 10) = [digit_char (n div 10 div 10), digit_char (n div 10 mod 10)]"
    using n by (intro two) (auto simp: div_less_iff_less_mult)
  ultimately show "show_nat n = [digit_char (n div 100), digit_char (n div 10 mod 10), digit_char (n mod 10)]"
    by (simp flip: div_mult2_eq)
qed

lemma show_u8_shape:
  "length (show_u8 w) \<le> 3 \<and> (hd (show_u8 w) = CHR ''0'' \<longrightarrow> length (show_u8 w) = 1)"
proof -
  have lt: "unat w < 256"
    using unat_u8_lt [of w] by simp
  have nz: "0 < d \<Longrightarrow> d < 10 \<Longrightarrow> digit_char d \<noteq> CHR ''0''" for d
    using of_char_digit_char [of d] by fastforce
  consider "unat w < 10" | "10 \<le> unat w" "unat w < 100" | "100 \<le> unat w" "unat w < 1000"
    using lt by linarith
  then show ?thesis
    by cases (use nz lt in \<open>auto simp: show_u8_def show_nat_small\<close>)
qed

lemma read_number_show_u8:
  "read_number (show_u8 w @ rest) = Some (w, rest)" if "rest = [] \<or> \<not> is_digit (hd rest)"
proof -
  have all: "\<forall>c \<in> set (show_u8 w). is_digit c"
    using show_nat_digits [of "unat w"] by (simp add: show_u8_def list_all_iff)
  with that have tw: "takeWhile is_digit (show_u8 w @ rest) = show_u8 w"
    and dw: "dropWhile is_digit (show_u8 w @ rest) = rest"
    by (cases rest; simp add: takeWhile_append2 dropWhile_append2)+
  have "digits_val (show_u8 w) = unat w" "show_u8 w \<noteq> []" "unat w \<le> 255"
    using unat_u8_lt [of w] by (simp_all add: show_u8_def)
  with show_u8_shape [of w] show ?thesis
    by (auto simp: read_number_def tw dw Let_def)
qed

lemma parse_show_ipv4 [simp]: "parse_ipv4 (show_ipv4 a) = Some a"
proof (cases a)
  case (Ipv4 w x y z)
  have "length (show_ipv4 a) \<le> 15"
    using show_u8_shape [of w] show_u8_shape [of x] show_u8_shape [of y] show_u8_shape [of z]
    by (simp add: Ipv4)
  moreover have "read_ipv4 (show_ipv4 a) = Some (a, [])"
    using read_number_show_u8 [of "[]" z]
    by (simp add: Ipv4 read_ipv4_def read_dot_def read_number_show_u8)
  ultimately show ?thesis
    by (simp add: parse_ipv4_def)
qed

end
