(* ===== verification/Hashmap.thy ===== *)
theory Hashmap
  imports Rust_Text
begin

text \<open>
  The conversions between D-Bus dictionaries and structs that the macros of
  \<^verbatim>\<open>rebpf/macros.rs\<close> and \<^verbatim>\<open>rebpf-gui/message/macros.rs\<close> generate share one shape:
  a loop over the entries of a \<^verbatim>\<open>HashMap<String, String>\<close> that sets one field per key
  and may stop with an error.  A dictionary is an association list with distinct keys;
  Rust leaves its iteration order unspecified, so the contract below, stated once as a
  locale and interpreted for each struct, shows that the order does not matter.
\<close>

type_synonym hashmap = "(string \<times> string) list"

text \<open>A \<^verbatim>\<open>for\<close> loop over a state whose body may return early with \<^verbatim>\<open>?\<close>.\<close>

fun rfoldl :: "('s \<Rightarrow> 'a \<Rightarrow> 's result) \<Rightarrow> 's \<Rightarrow> 'a list \<Rightarrow> 's result" where
  "rfoldl f s [] = Inr s"
| "rfoldl f s (x # xs) = rbind (f s x) (\<lambda>s'. rfoldl f s' xs)"

lemma rfoldl_append: "rfoldl f s (xs @ ys) = rbind (rfoldl f s xs) (\<lambda>s'. rfoldl f s' ys)"
proof (induction xs arbitrary: s)
  case (Cons x xs)
  then show ?case by (cases "f s x") auto
qed simp

lemma rfoldl_Inr_invariant:
  assumes "rfoldl f s xs = Inr t" and "P s"
    and step: "\<And>s x t. x \<in> set xs \<Longrightarrow> P s \<Longrightarrow> f s x = Inr t \<Longrightarrow> P t"
  shows "P t"
  using assms
proof (induction xs arbitrary: s)
  case (Cons x xs)
  from Cons.prems(1) obtain u where u: "f s x = Inr u" "rfoldl f u xs = Inr t"
    by (auto simp: rbind_eq_Inr)
  show ?case
    by (rule Cons.IH [OF u(2)]) (use Cons.prems u(1) in auto)
qed simp

text \<open>Setting two different keys in either order gives the same struct.\<close>

locale field_table =
  fixes set_field :: "'s \<Rightarrow> string \<times> string \<Rightarrow> 's result"
  assumes commute:
    "k \<noteq> k' \<Longrightarrow> rbind (set_field s (k, v)) (\<lambda>s'. set_field s' (k', v')) = Inr t \<Longrightarrow>
      rbind (set_field s (k', v')) (\<lambda>s'. set_field s' (k, v)) = Inr t"
begin

lemma commute_pair:
  "fst x \<noteq> fst y \<Longrightarrow> rbind (set_field s x) (\<lambda>s'. set_field s' y) = Inr t \<Longrightarrow>
    rbind (set_field s y) (\<lambda>s'. set_field s' x) = Inr t"
  using commute [of "fst x" "fst y" s "snd x" "snd y" t] by simp

lemma move_to_front:
  assumes "fst x \<notin> fst ` set ys" and "rfoldl set_field s (ys @ x # zs) = Inr t"
  shows "rfoldl set_field s (x # ys @ zs) = Inr t"
  using assms
proof (induction ys arbitrary: s)
  case (Cons y ys)
  from Cons.prems(2) obtain u where u: "set_field s y = Inr u"
    and rest: "rfoldl set_field u (ys @ x # zs) = Inr t"
    by (auto simp: rbind_eq_Inr)
  from Cons.prems(1) rest have "rfoldl set_field u (x # ys @ zs) = Inr t"
    by (intro Cons.IH) auto
  then obtain w where w: "set_field u x = Inr w" and tail: "rfoldl set_field w (ys @ zs) = Inr t"
    by (auto simp: rbind_eq_Inr)
  from Cons.prems(1) have "fst y \<noteq> fst x" by auto
  from commute_pair [OF this, of s w] u w
  have "rbind (set_field s x) (\<lambda>s'. set_field s' y) = Inr w" by simp
  with tail show ?case by (auto simp: rbind_eq_Inr)
qed simp

lemma from_iter_order:
  assumes "mset xs = mset ys" and "distinct (map fst xs)" and "rfoldl set_field s xs = Inr t"
  shows "rfoldl set_field s ys = Inr t"
  using assms
proof (induction ys arbitrary: xs s)
  case (Cons y ys)
  from Cons.prems(1) have "y \<in> set xs"
    by (metis list.set_intros(1) set_mset_mset)
  then obtain as bs where xs: "xs = as @ y # bs"
    by (meson split_list)
  with Cons.prems(2) have "fst y \<notin> fst ` set as" by auto
  from move_to_front [OF this] Cons.prems(3) xs
  have "rfoldl set_field s (y # as @ bs) = Inr t" by blast
  then obtain u where u: "set_field s y = Inr u" "rfoldl set_field u (as @ bs) = Inr t"
    by (auto simp: rbind_eq_Inr)
  have "rfoldl set_field u ys = Inr t"
    by (rule Cons.IH [of "as @ bs"]) (use Cons.prems(1,2) xs u in auto)
  with u show ?case by simp
qed simp

end

end
