(* ===== verification/Config_Types.thy ===== *)
theory Config_Types
  imports Hashmap "HOL-Library.Char_ord"
begin

text \<open>
  The configuration data of the daemon (\<^verbatim>\<open>rebpf/lib.rs\<close>): the enums \<^verbatim>\<open>Kind\<close>,
  \<^verbatim>\<open>Method\<close> and \<^verbatim>\<open>Direction\<close>, the structs \<^verbatim>\<open>Match\<close>, \<^verbatim>\<open>Matches\<close>, \<^verbatim>\<open>Config\<close>,
  \<^verbatim>\<open>State\<close> and \<^verbatim>\<open>Route\<close>, and the code that the macros \<^verbatim>\<open>to_from_enum!\<close>,
  \<^verbatim>\<open>to_from_hashmap!\<close> and \<^verbatim>\<open>to_from_hashmap_or_default!\<close> of \<^verbatim>\<open>rebpf/macros.rs\<close>
  generate for them.
\<close>

section \<open>Enums\<close>

datatype Kind = Kind_basename | Kind_path | Kind_ipv4 | Kind_dns

datatype Method =
  Method_full | Method_substring | Method_prefix | Method_suffix | Method_regex | Method_subnet

datatype Direction = Direction_redirect | Direction_bypass

fun kind_display :: "Kind \<Rightarrow> string" where
  "kind_display Kind_basename = ''basename''"
| "kind_display Kind_path = ''path''"
| "kind_display Kind_ipv4 = ''ipv4''"
| "kind_display Kind_dns = ''dns''"

definition kind_from_str :: "string \<Rightarrow> Kind result" where
  "kind_from_str s =
    (if s = ''basename'' then Inr Kind_basename
     else if s = ''path'' then Inr Kind_path
     else if s = ''ipv4'' then Inr Kind_ipv4
     else if s = ''dns'' then Inr Kind_dns
     else Inl (UnknownVariant ''Kind'' s))"

fun method_display :: "Method \<Rightarrow> string" where
  "method_display Method_full = ''full''"
| "method_display Method_substring = ''substring''"
| "method_display Method_prefix = ''prefix''"
| "method_display Method_suffix = ''suffix''"
| "method_display Method_regex = ''regex''"
| "method_display Method_subnet = ''subnet''"

definition method_from_str :: "string \<Rightarrow> Method result" where
  "method_from_str s =
    (if s = ''full'' then Inr Method_full
     else if s = ''substring'' then Inr Method_substring
     else if s = ''prefix'' then Inr Method_prefix
     else if s = ''suffix'' then Inr Method_suffix
     else if s = ''regex'' then Inr Method_regex
     else if s = ''subnet'' then Inr Method_subnet
     else Inl (UnknownVariant ''Method'' s))"

fun direction_display :: "Direction \<Rightarrow> string" where
  "direction_display Direction_redirect = ''redirect''"
| "direction_display Direction_bypass = ''bypass''"

definition direction_from_str :: "string \<Rightarrow> Direction result" where
  "direction_from_str s =
    (if s = ''redirect'' then Inr Direction_redirect
     else if s = ''bypass'' then Inr Direction_bypass
     else Inl (UnknownVariant ''Direction'' s))"

text \<open>\<^verbatim>\<open>Direction\<close> derives \<^verbatim>\<open>Ord\<close>: the variants in the order of their declaration.\<close>

instantiation Direction :: linorder
begin

fun less_eq_Direction :: "Direction \<Rightarrow> Direction \<Rightarrow> bool" where
  "less_eq_Direction Direction_bypass Direction_redirect = False"
| "less_eq_Direction _ _ = True"

definition less_Direction :: "Direction \<Rightarrow> Direction \<Rightarrow> bool" where
  "less_Direction a b \<longleftrightarrow> a = Direction_redirect \<and> b = Direction_bypass"

instance
proof
  fix x y z :: Direction
  show "x < y \<longleftrightarrow> x \<le> y \<and> \<not> y \<le> x"
    by (cases x; cases y) (simp_all add: less_Direction_def)
  show "x \<le> x" by (cases x) simp_all
  show "x \<le> y \<Longrightarrow> y \<le> z \<Longrightarrow> x \<le> z" by (cases x; cases y; cases z) simp_all
  show "x \<le> y \<Longrightarrow> y \<le> x \<Longrightarrow> x = y" by (cases x; cases y) simp_all
  show "x \<le> y \<or> y \<le> x" by (cases x; cases y) simp_all
qed

end

section \<open>Structs\<close>

record Match =
  m_pattern :: string
  m_kind :: Kind
  m_method :: Method
  m_direction :: Direction
  m_uid :: u32

record Matches =
  ms_matches :: "Match list"
  ms_generation :: u64
  ms_dns_count :: "32 word"

record Config =
  c_probe_ipv4_addr :: ipv4
  c_allow_lan :: bool
  c_spoof_dns :: bool
  c_spoof_dns_ipv4 :: ipv4
  c_drop_egress_without_output :: bool
  c_dns_max_ttl_sec :: u32

record State =
  st_enable :: bool
  st_to_dev :: string
  st_config :: Config
  st_matches :: Matches
  st_generation :: u64

text \<open>\<^verbatim>\<open>std::net::IpAddr\<close>, an IPv6 address by its sixteen octets.\<close>

datatype ip_addr = V4 ipv4 | V6 "u8 list"

record Route =
  r_is_up :: bool
  r_ifindex :: u32
  r_ifname :: string
  r_addrs :: "ip_addr list"
  r_gateway :: "ip_addr option"

definition match_default :: Match where
  "match_default = \<lparr>m_pattern = '''', m_kind = Kind_basename, m_method = Method_full,
     m_direction = Direction_redirect, m_uid = 0\<rparr>"

definition matches_default :: Matches where
  "matches_default = \<lparr>ms_matches = [], ms_generation = 0, ms_dns_count = 0\<rparr>"

definition config_default :: Config where
  "config_default = \<lparr>c_probe_ipv4_addr = Ipv4 1 2 3 4, c_allow_lan = True, c_spoof_dns = False,
     c_spoof_dns_ipv4 = Ipv4 8 8 8 8, c_drop_egress_without_output = False,
     c_dns_max_ttl_sec = 3600\<rparr>"

definition state_default :: State where
  "state_default = \<lparr>st_enable = False, st_to_dev = '''', st_config = config_default,
     st_matches = matches_default, st_generation = 0\<rparr>"

definition is_dns :: "Match \<Rightarrow> bool" where
  "is_dns m = (case m_kind m of Kind_dns \<Rightarrow> True | _ \<Rightarrow> False)"

definition is_per_process :: "Match \<Rightarrow> bool" where
  "is_per_process m = (case m_kind m of Kind_basename \<Rightarrow> True | Kind_path \<Rightarrow> True | _ \<Rightarrow> False)"

definition is_eq_to :: "Match \<Rightarrow> Match \<Rightarrow> bool" where
  "is_eq_to l r \<longleftrightarrow> m_kind l = m_kind r \<and> m_pattern l = m_pattern r
     \<and> m_direction l = m_direction r \<and> m_uid l = m_uid r"

section \<open>Dictionaries\<close>

fun match_set_field :: "Match \<Rightarrow> string \<times> string \<Rightarrow> Match result" where
  "match_set_field s (k, v) =
    (if k = ''pattern'' then Inr (s\<lparr>m_pattern := v\<rparr>)
     else if k = ''kind'' then rbind (kind_from_str v) (\<lambda>x. Inr (s\<lparr>m_kind := x\<rparr>))
     else if k = ''method'' then rbind (method_from_str v) (\<lambda>x. Inr (s\<lparr>m_method := x\<rparr>))
     else if k = ''direction'' then rbind (direction_from_str v) (\<lambda>x. Inr (s\<lparr>m_direction := x\<rparr>))
     else if k = ''uid'' then rbind (ok_or (ParseFailed v) (parse_u32 v)) (\<lambda>x. Inr (s\<lparr>m_uid := x\<rparr>))
     else Inl (UnknownField ''Match'' k))"

definition match_from_iter :: "hashmap \<Rightarrow> u32 \<Rightarrow> Match result" where
  "match_from_iter h uid = rfoldl match_set_field (match_default\<lparr>m_uid := uid\<rparr>) h"

definition match_from_hashmap :: "hashmap \<Rightarrow> u32 \<Rightarrow> Match result" where
  "match_from_hashmap h uid = match_from_iter h uid"

definition match_to_hashmap :: "Match \<Rightarrow> hashmap" where
  "match_to_hashmap m =
    (if m_pattern m \<noteq> '''' then [(''pattern'', m_pattern m)] else []) @
    [(''kind'', kind_display (m_kind m)), (''method'', method_display (m_method m)),
     (''direction'', direction_display (m_direction m)), (''uid'', show_u32 (m_uid m))]"

fun config_set_field :: "Config \<Rightarrow> string \<times> string \<Rightarrow> Config result" where
  "config_set_field s (k, v) =
    (if k = ''probe_ipv4_addr'' then
       rbind (ok_or (ParseFailed v) (parse_ipv4 v)) (\<lambda>x. Inr (s\<lparr>c_probe_ipv4_addr := x\<rparr>))
     else if k = ''allow_lan'' then
       rbind (ok_or (ParseFailed v) (parse_bool v)) (\<lambda>x. Inr (s\<lparr>c_allow_lan := x\<rparr>))
     else if k = ''spoof_dns'' then
       rbind (ok_or (ParseFailed v) (parse_bool v)) (\<lambda>x. Inr (s\<lparr>c_spoof_dns := x\<rparr>))
     else if k = ''spoof_dns_ipv4'' then
       rbind (ok_or (ParseFailed v) (parse_ipv4 v)) (\<lambda>x. Inr (s\<lparr>c_spoof_dns_ipv4 := x\<rparr>))
     else if k = ''drop_egress_without_output'' then
       rbind (ok_or (ParseFailed v) (parse_bool v)) (\<lambda>x. Inr (s\<lparr>c_drop_egress_without_output := x\<rparr>))
     else if k = ''dns_max_ttl_sec'' then
       rbind (ok_or (ParseFailed v) (parse_u32 v)) (\<lambda>x. Inr (s\<lparr>c_dns_max_ttl_sec := x\<rparr>))
     else Inl (UnknownField ''Config'' k))"

definition config_from_iter :: "hashmap \<Rightarrow> Config \<Rightarrow> Config result" where
  "config_from_iter h def = rfoldl config_set_field def h"

definition config_from_hashmap :: "hashmap \<Rightarrow> Config \<Rightarrow> Config result" where
  "config_from_hashmap h def = config_from_iter h def"

definition config_to_hashmap :: "Config \<Rightarrow> hashmap" where
  "config_to_hashmap c =
    [(''probe_ipv4_addr'', show_ipv4 (c_probe_ipv4_addr c)),
     (''allow_lan'', show_bool (c_allow_lan c)),
     (''spoof_dns'', show_bool (c_spoof_dns c)),
     (''spoof_dns_ipv4'', show_ipv4 (c_spoof_dns_ipv4 c)),
     (''drop_egress_without_output'', show_bool (c_drop_egress_without_output c)),
     (''dns_max_ttl_sec'', show_u32 (c_dns_max_ttl_sec c))]"

section \<open>Laws of the conversions\<close>

lemma kind_from_display [simp]: "kind_from_str (kind_display k) = Inr k"
  by (cases k) (simp_all add: kind_from_str_def)

lemma method_from_display [simp]: "method_from_str (method_display m) = Inr m"
  by (cases m) (simp_all add: method_from_str_def)

lemma direction_from_display [simp]: "direction_from_str (direction_display d) = Inr d"
  by (cases d) (simp_all add: direction_from_str_def)

interpretation match_fields: field_table match_set_field
  by unfold_locales (auto simp: rbind_eq_Inr split: if_splits)

interpretation config_fields: field_table config_set_field
  by unfold_locales (auto simp: rbind_eq_Inr split: if_splits)

lemma is_eq_to_is_dns: "is_eq_to l r \<Longrightarrow> is_dns l = is_dns r"
  by (simp add: is_eq_to_def is_dns_def)

lemma is_eq_to_is_per_process: "is_eq_to l r \<Longrightarrow> is_per_process l = is_per_process r"
  by (simp add: is_eq_to_def is_per_process_def)

lemma match_to_hashmap_distinct: "distinct (map fst (match_to_hashmap m))"
  by (simp add: match_to_hashmap_def)

lemma config_to_hashmap_distinct: "distinct (map fst (config_to_hashmap c))"
  by (simp add: config_to_hashmap_def)

lemma match_from_to_iter: "match_from_iter (match_to_hashmap m) uid = Inr m"
  by (simp add: match_from_iter_def match_to_hashmap_def match_default_def)

lemma config_from_to_iter: "config_from_iter (config_to_hashmap c) def = Inr c"
  by (simp add: config_from_iter_def config_to_hashmap_def)

end
