(* ===== verification/Dfa.thy ===== *)
theory Dfa
  imports Config_Types
begin

text \<open>
  \<^verbatim>\<open>rebpf/dfa.rs\<close>: the transition table of a compiled regex automaton is extracted
  from the \<^verbatim>\<open>regex_automata\<close> crate and written, with the tables that lead from a final
  state back to the matches of the configuration, into a flat byte arena for the eBPF
  program.  The automaton of the crate is a parameter: the record \<open>dense\<close> holds the
  methods of \<^verbatim>\<open>dense::DFA\<close> that the source calls, and \<open>dense_wf\<close> states what the
  crate documents about them.
\<close>

section \<open>The libraries the source calls\<close>

text \<open>
  One field per method of \<^verbatim>\<open>regex_automata::dfa::dense::DFA\<close>.  State identifiers are
  premultiplied by the stride, as the crate documents; \<open>d_start\<close> takes whether the
  search is anchored, \<open>d_search\<close> is \<^verbatim>\<open>try_search_fwd\<close> on an anchored input and
  returns the identifier of the matching pattern.
\<close>

record dense =
  d_class :: "u8 \<Rightarrow> u8"
  d_eoi :: nat
  d_representatives :: "nat list"
  d_alphabet_len :: nat
  d_stride :: nat
  d_start :: "bool \<Rightarrow> string + nat"
  d_next :: "nat \<Rightarrow> u8 \<Rightarrow> nat"
  d_next_eoi :: "nat \<Rightarrow> nat"
  d_is_dead :: "nat \<Rightarrow> bool"
  d_is_quit :: "nat \<Rightarrow> bool"
  d_is_match :: "nat \<Rightarrow> bool"
  d_match_len :: "nat \<Rightarrow> nat"
  d_match_pattern :: "nat \<Rightarrow> nat \<Rightarrow> nat"
  d_search :: "string \<Rightarrow> string + nat option"

text \<open>
  The library functions: \<^verbatim>\<open>regex_syntax::escape\<close>; the builder of
  \<^verbatim>\<open>regex_automata\<close>, from the direction, the size limit and the patterns;
  \<^verbatim>\<open>netlink_bindings::utils::align\<close>; the parsers of \<^verbatim>\<open>ipnet\<close>, for \<^verbatim>\<open>IpNet\<close>
  and for \<^verbatim>\<open>Ipv4Net\<close> with its \<^verbatim>\<open>network()\<close> and \<^verbatim>\<open>prefix_len()\<close>.
\<close>

record libs =
  l_escape :: "string \<Rightarrow> string"
  l_build_many :: "bool \<Rightarrow> nat \<Rightarrow> string list \<Rightarrow> string + dense"
  l_align :: "u8 list \<Rightarrow> u8 list"
  l_parse_ipnet :: "string \<Rightarrow> string + unit"
  l_parse_ipv4net :: "string \<Rightarrow> string + ipv4 \<times> u8"

section \<open>Constants and data\<close>

definition DEAD :: nat where "DEAD = 0"

definition STATE_SIZE :: nat where "STATE_SIZE = 4"

definition DFA_MAX_SIZE :: nat where "DFA_MAX_SIZE = 1048576"

text \<open>The largest value \<^verbatim>\<open>StateID::new\<close> accepts.\<close>

definition STATE_ID_MAX :: nat where "STATE_ID_MAX = 2147483646"

record DFA =
  dfa_nclasses :: nat
  dfa_eoi_class :: u16
  dfa_ec_table :: "u8 list"
  dfa_ec_reps :: "nat list"
  dfa_ec_classes :: "nat list"
  dfa_stride :: nat
  dfa_trans :: "u32 list"
  dfa_pats :: "u32 list list"
  dfa_fin_min :: u32
  dfa_fin_max :: u32
  dfa_quit :: "u32 list"
  dfa_start :: u32

text \<open>\<^verbatim>\<open>bpf::DFA\<close>, the description handed to the eBPF program.\<close>

record bpf_DFA =
  b_dfa_off :: u32
  b_start :: u32
  b_eoi :: u16
  b_fin_min :: u32
  b_fin_max :: u32
  b_match_slices_off :: u32
  b_redirect_table_off :: u32
  b_uid_table_off :: u32
  b_match_id_table_off :: u32

section \<open>Building and extracting\<close>

definition build_dfa :: "libs \<Rightarrow> string list \<Rightarrow> bool \<Rightarrow> dense result" where
  "build_dfa lib pats reverse =
    (case l_build_many lib reverse DFA_MAX_SIZE pats of Inl e \<Rightarrow> Inl (Msg e) | Inr d \<Rightarrow> Inr d)"

text \<open>The vectors that the extraction loop fills.\<close>

record extract_acc =
  x_trans :: "nat list"
  x_dead :: "nat list"
  x_quit :: "nat list"
  x_fin :: "nat list"
  x_pats :: "u32 list list"

definition extract_acc_empty :: extract_acc where
  "extract_acc_empty = \<lparr>x_trans = [], x_dead = [], x_quit = [], x_fin = [], x_pats = []\<rparr>"

definition state_patterns :: "dense \<Rightarrow> nat \<Rightarrow> u32 list" where
  "state_patterns d s = map (\<lambda>i. of_nat (d_match_pattern d s i)) [0..<d_match_len d s]"

definition extract_step :: "dense \<Rightarrow> nat \<Rightarrow> extract_acc \<Rightarrow> extract_acc" where
  "extract_step d this a =
    \<lparr>x_trans = x_trans a @ [d_next d this 0],
     x_dead = x_dead a @ (if d_is_dead d this then [this] else []),
     x_quit = x_quit a @ (if d_is_quit d this then [this] else []),
     x_fin = x_fin a @ (if d_is_match d this then [this] else []),
     x_pats = x_pats a @
       (if d_is_match d this then [state_patterns d this]
        else if x_pats a \<noteq> [] then [[]] else [])\<rparr>"

text \<open>
  The \<^verbatim>\<open>while\<close> loop over the slots of the table; \<open>mx\<close> is the largest state seen.
  It ends because \<^verbatim>\<open>StateID::new(i).unwrap()\<close> panics on a large index.
\<close>

function extract_loop :: "dense \<Rightarrow> nat \<Rightarrow> nat \<Rightarrow> extract_acc \<Rightarrow> extract_acc result" where
  "extract_loop d i mx a =
    (if i < mx + d_stride d then
       if STATE_ID_MAX < i then Inl Panic
       else extract_loop d (Suc i) (max (d_next d i 0) mx) (extract_step d i a)
     else Inr a)"
  by pat_completeness auto
termination
  by (relation "measure (\<lambda>(d, i, mx, a). Suc STATE_ID_MAX - i)") auto

declare extract_loop.simps [simp del]

text \<open>The vector is cut after its last entry that is not empty.\<close>

definition trim_pats :: "u32 list list \<Rightarrow> u32 list list" where
  "trim_pats pats = take (length pats - length (takeWhile (\<lambda>p. p = []) (rev pats))) pats"

definition extract_classes :: "dense \<Rightarrow> nat list" where
  "extract_classes d = remdups (d_eoi d # map (\<lambda>i. unat (d_class d (of_nat i))) [0..<256])"

definition extract_ec_table :: "dense \<Rightarrow> u8 list" where
  "extract_ec_table d = map (\<lambda>i. d_class d (of_nat i)) [0..<256]"

definition extract_finish :: "dense \<Rightarrow> nat \<Rightarrow> extract_acc \<Rightarrow> DFA result" where
  "extract_finish d start a =
    (if DFA_MAX_SIZE < length (x_trans a) * STATE_SIZE then Inl (TooManyStates (length (x_trans a)))
     else if x_fin a = [] then Inl (Msg ''Expected at least 1 final state.'')
     else
       let fin = map of_nat (x_fin a) :: u32 list; fin_min = Min (set fin); fin_max = Max (set fin)
       in rbind (assert_that (list_all (\<lambda>i. i \<le> STATE_ID_MAX \<and> d_is_match d i)
                   [unat fin_min..<Suc (unat fin_max)])) (\<lambda>_.
          rbind (assert_that (list_all (\<lambda>i. i < length (x_trans a) \<and> x_trans a ! i = 0)
                   [0..<d_stride d])) (\<lambda>_.
          rbind (assert_that (x_dead a = [DEAD])) (\<lambda>_.
          Inr \<lparr>dfa_nclasses = d_alphabet_len d, dfa_eoi_class = of_nat (d_eoi d),
               dfa_ec_table = extract_ec_table d,
               dfa_ec_reps = d_representatives d, dfa_ec_classes = extract_classes d,
               dfa_stride = d_stride d, dfa_trans = map of_nat (x_trans a),
               dfa_pats = trim_pats (x_pats a), dfa_fin_min = fin_min, dfa_fin_max = fin_max,
               dfa_quit = map of_nat (x_quit a), dfa_start = of_nat start\<rparr>))))"

definition dfa_extract :: "dense \<Rightarrow> bool \<Rightarrow> DFA result" where
  "dfa_extract d anchored =
    (case d_start d anchored of
       Inl e \<Rightarrow> Inl (Msg e)
     | Inr start \<Rightarrow> rbind (extract_loop d 0 start extract_acc_empty) (extract_finish d start))"

definition extract_dfa :: "libs \<Rightarrow> string list \<Rightarrow> DFA result" where
  "extract_dfa lib pats = rbind (build_dfa lib pats True) (\<lambda>d. dfa_extract d True)"

section \<open>Encoding into the arena\<close>

text \<open>
  The slices written to the arena and the three tables they point into, while the loop
  over the pattern lists runs.
\<close>

record tables =
  t_slices :: "u8 list"
  t_redirect :: "u8 list"
  t_uid :: "u32 list"
  t_match_id :: "u32 list"

definition tables_empty :: tables where
  "tables_empty = \<lparr>t_slices = [], t_redirect = [], t_uid = [], t_match_id = []\<rparr>"

fun redirect_byte :: "Direction \<Rightarrow> u8" where
  "redirect_byte Direction_bypass = 0"
| "redirect_byte Direction_redirect = 1"

definition push_pat :: "nat list \<Rightarrow> Matches \<Rightarrow> tables \<Rightarrow> u32 \<Rightarrow> tables result" where
  "push_pat pat_id_map ms t pat_id =
    rbind (idx pat_id_map (unat pat_id)) (\<lambda>m_id.
    rbind (idx (ms_matches ms) m_id) (\<lambda>m.
    Inr (t\<lparr>t_redirect := t_redirect t @ [redirect_byte (m_direction m)],
           t_uid := t_uid t @ [m_uid m],
           t_match_id := t_match_id t @ [of_nat m_id]\<rparr>)))"

definition push_slice :: "nat list \<Rightarrow> Matches \<Rightarrow> tables \<Rightarrow> u32 list \<Rightarrow> tables result" where
  "push_slice pat_id_map ms t pats =
    rbind (assert_that (length (t_uid t) = length (t_match_id t))) (\<lambda>_.
    rbind (rfoldl (push_pat pat_id_map ms) t pats) (\<lambda>t'.
    Inr (t'\<lparr>t_slices := t_slices t' @ to_ne_bytes (of_nat (length (t_uid t)))
                                   @ to_ne_bytes (of_nat (length pats))\<rparr>)))"

definition encode_tables :: "nat list \<Rightarrow> Matches \<Rightarrow> u32 list list \<Rightarrow> tables result" where
  "encode_tables pat_id_map ms pats = rfoldl (push_slice pat_id_map ms) tables_empty pats"

definition encode_dfa ::
  "libs \<Rightarrow> string list \<Rightarrow> u8 list \<Rightarrow> nat list \<Rightarrow> Matches \<Rightarrow> (u8 list \<times> bpf_DFA) result" where
  "encode_dfa lib pats arena pat_id_map ms =
    rbind (extract_dfa lib pats) (\<lambda>dfa.
    let arena = l_align lib arena; dfa_off = of_nat (length arena)
    in rbind (assert_that (length (dfa_ec_table dfa) = 256)) (\<lambda>_.
       let arena = l_align lib (arena @ dfa_ec_table dfa @ ne_bytes_of (dfa_trans dfa));
           match_slices_off = of_nat (length arena)
       in rbind (encode_tables pat_id_map ms (dfa_pats dfa)) (\<lambda>t.
          let arena = arena @ t_slices t; redirect_table_off = of_nat (length arena);
              arena = arena @ t_redirect t; uid_table_off = of_nat (length arena);
              arena = arena @ ne_bytes_of (t_uid t); match_id_table_off = of_nat (length arena);
              arena = arena @ ne_bytes_of (t_match_id t)
          in Inr (arena,
               \<lparr>b_dfa_off = dfa_off, b_start = dfa_start dfa, b_eoi = dfa_eoi_class dfa,
                b_fin_min = dfa_fin_min dfa, b_fin_max = dfa_fin_max dfa,
                b_match_slices_off = match_slices_off, b_redirect_table_off = redirect_table_off,
                b_uid_table_off = uid_table_off, b_match_id_table_off = match_id_table_off\<rparr>))))"

section \<open>What the crate documents\<close>

text \<open>
  The transition of state \<open>s\<close> on byte \<open>b\<close> is the slot \<open>s + class b\<close> of the table and
  its end-of-input transition the slot \<open>s + eoi\<close>, both within the stride; byte 0 is in
  class 0; state 0 is the dead state, with no way out and no match; a match state has at
  least one pattern.
\<close>

definition dense_wf :: "dense \<Rightarrow> bool" where
  "dense_wf d \<longleftrightarrow>
    d_class d 0 = 0 \<and>
    (\<forall>b. unat (d_class d b) < d_stride d) \<and> d_eoi d < d_stride d \<and> d_eoi d < 2 ^ 16 \<and>
    (\<forall>s b. d_next d s b = d_next d (s + unat (d_class d b)) 0) \<and>
    (\<forall>s. d_next_eoi d s = d_next d (s + d_eoi d) 0) \<and>
    (\<forall>s. d_is_dead d s \<longleftrightarrow> s = 0) \<and> (\<forall>b. d_next d 0 b = 0) \<and> d_next_eoi d 0 = 0 \<and>
    \<not> d_is_match d 0 \<and> (\<forall>s. d_is_match d s \<longrightarrow> 0 < d_match_len d s)"

lemma dense_wfD:
  assumes "dense_wf d"
  shows "d_class d 0 = 0" and "unat (d_class d b) < d_stride d" and "d_eoi d < d_stride d"
    and "d_eoi d < 2 ^ 16" and "d_next d s b = d_next d (s + unat (d_class d b)) 0"
    and "d_next_eoi d s = d_next d (s + d_eoi d) 0" and "d_is_dead d s \<longleftrightarrow> s = 0"
    and "d_next d 0 b = 0" and "d_next_eoi d 0 = 0" and "\<not> d_is_match d 0"
    and "d_is_match d s \<Longrightarrow> 0 < d_match_len d s"
  using assms unfolding dense_wf_def by blast+

text \<open>\<^verbatim>\<open>align\<close> appends padding up to a multiple of four bytes.\<close>

definition align_wf :: "(u8 list \<Rightarrow> u8 list) \<Rightarrow> bool" where
  "align_wf align \<longleftrightarrow> (\<forall>a. 4 dvd length (align a) \<and> length (align a) < length a + 4
     \<and> take (length a) (align a) = a)"

section \<open>Extraction\<close>

text \<open>What the loop has collected after the slots below \<open>n\<close>.\<close>

definition slot_patterns :: "dense \<Rightarrow> nat \<Rightarrow> u32 list" where
  "slot_patterns d i = (if d_is_match d i then state_patterns d i else [])"

definition acc_upto :: "dense \<Rightarrow> nat \<Rightarrow> extract_acc" where
  "acc_upto d n =
    \<lparr>x_trans = map (\<lambda>i. d_next d i 0) [0..<n],
     x_dead = filter (d_is_dead d) [0..<n],
     x_quit = filter (d_is_quit d) [0..<n],
     x_fin = filter (d_is_match d) [0..<n],
     x_pats = map (slot_patterns d) (dropWhile (\<lambda>i. \<not> d_is_match d i) [0..<n])\<rparr>"

lemma acc_upto_0: "acc_upto d 0 = extract_acc_empty"
  by (simp add: acc_upto_def extract_acc_empty_def)

lemma dropWhile_snoc:
  "dropWhile P (xs @ [x]) =
    (if dropWhile P xs = [] then if P x then [] else [x] else dropWhile P xs @ [x])"
  by (induction xs) auto

lemma extract_step_upto: "extract_step d n (acc_upto d n) = acc_upto d (Suc n)"
  by (simp add: extract_step_def acc_upto_def dropWhile_snoc slot_patterns_def)

lemma extract_loop_spec:
  assumes "extract_loop d i mx a = Inr r" and "a = acc_upto d i" and "i \<le> Suc STATE_ID_MAX"
    and "\<forall>j < i. d_next d j 0 \<le> mx"
  shows "\<exists>N mx'. r = acc_upto d N \<and> mx \<le> mx' \<and> (\<forall>j < N. d_next d j 0 \<le> mx')
    \<and> mx' + d_stride d \<le> N \<and> N \<le> Suc STATE_ID_MAX"
  using assms
proof (induction d i mx a rule: extract_loop.induct)
  case (1 d i mx a)
  show ?case
  proof (cases "i < mx + d_stride d")
    case True
    with "1.prems"(1) have small: "i \<le> STATE_ID_MAX"
      and rest: "extract_loop d (Suc i) (max (d_next d i 0) mx) (extract_step d i a) = Inr r"
      by (auto simp: extract_loop.simps [of d i] split: if_splits)
    have "\<exists>N mx'. r = acc_upto d N \<and> max (d_next d i 0) mx \<le> mx' \<and> (\<forall>j < N. d_next d j 0 \<le> mx')
        \<and> mx' + d_stride d \<le> N \<and> N \<le> Suc STATE_ID_MAX"
    proof (rule "1.IH" [OF True _ rest])
      show "extract_step d i a = acc_upto d (Suc i)"
        by (simp add: "1.prems"(2) extract_step_upto)
      show "\<forall>j < Suc i. d_next d j 0 \<le> max (d_next d i 0) mx"
        using "1.prems"(4) by (auto simp: less_Suc_eq max_def intro: order_trans)
    qed (use small in auto)
    then show ?thesis by auto
  next
    case False
    with "1.prems"(1) have "r = a" by (simp add: extract_loop.simps [of d i])
    with False "1.prems" show ?thesis by (intro exI [of _ i] exI [of _ mx]) auto
  qed
qed

text \<open>With a closed table of \<open>n\<close> slots the loop reads at most those and does not panic.\<close>

lemma extract_loop_total:
  assumes "mx + d_stride d \<le> n" and "\<forall>i < n. d_next d i 0 + d_stride d \<le> n"
    and "n \<le> Suc STATE_ID_MAX"
  shows "\<exists>r. extract_loop d i mx a = Inr r"
  using assms
proof (induction d i mx a rule: extract_loop.induct)
  case (1 d i mx a)
  show ?case
  proof (cases "i < mx + d_stride d")
    case True
    with "1.prems" have i: "i < n" "\<not> STATE_ID_MAX < i" by auto
    with True "1.prems" have "\<exists>r. extract_loop d (Suc i) (max (d_next d i 0) mx) (extract_step d i a) = Inr r"
      by (intro "1.IH") (auto simp: max_def)
    with True i show ?thesis by (simp add: extract_loop.simps [of d i])
  next
    case False
    then show ?thesis by (simp add: extract_loop.simps [of d i])
  qed
qed

lemma trim_pats_append:
  assumes "xs \<noteq> []" and "last xs \<noteq> []" and "\<forall>y \<in> set ys. y = []"
  shows "trim_pats (xs @ ys) = xs"
proof -
  have "takeWhile (\<lambda>p. p = []) (rev ys @ rev xs) = rev ys @ takeWhile (\<lambda>p. p = []) (rev xs)"
    using assms(3) by (intro takeWhile_append2) auto
  moreover have "takeWhile (\<lambda>p. p = []) (rev xs) = []"
    using assms(1,2) by (cases xs rule: rev_cases) auto
  ultimately show ?thesis by (simp add: trim_pats_def)
qed

lemma unat_image_of_nat:
  assumes "\<forall>x \<in> S. x < 2 ^ 32"
  shows "unat ` (of_nat ` S :: u32 set) = S"
  using assms by (force simp: image_iff unat_of_nat_u32)

lemma unat_Min_of_nat:
  assumes "finite S" and "S \<noteq> {}" and "\<forall>x \<in> S. x < 2 ^ 32"
  shows "unat (Min (of_nat ` S :: u32 set)) = Min S"
proof -
  have "mono (unat :: u32 \<Rightarrow> nat)" by (simp add: mono_def word_le_nat_alt)
  then have "unat (Min (of_nat ` S :: u32 set)) = Min (unat ` (of_nat ` S :: u32 set))"
    using assms by (intro mono_Min_commute) auto
  with assms show ?thesis by (simp add: unat_image_of_nat)
qed

lemma unat_Max_of_nat:
  assumes "finite S" and "S \<noteq> {}" and "\<forall>x \<in> S. x < 2 ^ 32"
  shows "unat (Max (of_nat ` S :: u32 set)) = Max S"
proof -
  have "mono (unat :: u32 \<Rightarrow> nat)" by (simp add: mono_def word_le_nat_alt)
  then have "unat (Max (of_nat ` S :: u32 set)) = Max (unat ` (of_nat ` S :: u32 set))"
    using assms by (intro mono_Max_commute) auto
  with assms show ?thesis by (simp add: unat_image_of_nat)
qed

text \<open>
  The specification of a successful extraction from start state \<open>s0\<close> over \<open>N\<close> slots:
  the table is closed, every entry is the crate's transition, the final states are exactly
  the match states, and the pattern lists are theirs in order.
\<close>

definition extracted :: "dense \<Rightarrow> nat \<Rightarrow> nat \<Rightarrow> DFA \<Rightarrow> bool" where
  "extracted d s0 N dfa \<longleftrightarrow>
    s0 + d_stride d \<le> N \<and> (\<forall>i < N. d_next d i 0 + d_stride d \<le> N) \<and> 4 * N \<le> DFA_MAX_SIZE \<and>
    dfa_trans dfa = map (\<lambda>i. of_nat (d_next d i 0)) [0..<N] \<and>
    dfa_ec_table dfa = extract_ec_table d \<and>
    dfa_start dfa = of_nat s0 \<and> dfa_eoi_class dfa = of_nat (d_eoi d) \<and>
    unat (dfa_fin_min dfa) \<le> unat (dfa_fin_max dfa) \<and> unat (dfa_fin_max dfa) < N \<and>
    (\<forall>s < N. d_is_match d s \<longleftrightarrow> unat (dfa_fin_min dfa) \<le> s \<and> s \<le> unat (dfa_fin_max dfa)) \<and>
    dfa_pats dfa = map (state_patterns d) [unat (dfa_fin_min dfa)..<Suc (unat (dfa_fin_max dfa))]"

lemma dropWhile_upt:
  assumes "a \<le> n" and "\<forall>i < a. P i" and "a < n \<Longrightarrow> \<not> P a"
  shows "dropWhile P [0..<n] = [a..<n]"
proof -
  have "[0..<n] = [0..<a] @ [a..<n]"
    using assms(1) by (metis le0 upt_add_eq_append le_add_diff_inverse)
  moreover have "dropWhile P [a..<n] = [a..<n]"
    using assms by (cases "a < n") (auto simp: upt_conv_Cons)
  ultimately show ?thesis
    using dropWhile_append2 [of "[0..<a]" P "[a..<n]"] assms(2) by simp
qed

lemma trim_slot_patterns:
  assumes wf: "dense_wf d" and ab: "a \<le> b" "b < N"
    and match: "\<forall>s < N. d_is_match d s \<longleftrightarrow> a \<le> s \<and> s \<le> b"
  shows "trim_pats (map (slot_patterns d) [a..<N]) = map (state_patterns d) [a..<Suc b]"
proof -
  have "[a..<N] = [a..<Suc b] @ [Suc b..<N]"
    using ab by (metis Suc_leI le_SucI le_add_diff_inverse upt_add_eq_append)
  then have split: "map (slot_patterns d) [a..<N] =
      map (state_patterns d) [a..<Suc b] @ map (slot_patterns d) [Suc b..<N]"
    using ab match by (auto simp: slot_patterns_def)
  have "last (map (state_patterns d) [a..<Suc b]) = state_patterns d b"
    using ab by simp
  moreover have "0 < d_match_len d b"
    using wf match ab by (auto simp: dense_wf_def)
  ultimately show ?thesis
    unfolding split using ab match
    by (intro trim_pats_append) (auto simp: slot_patterns_def state_patterns_def)
qed

lemma extract_finish_Inr:
  assumes "extract_finish d s0 a = Inr dfa"
  defines "fin \<equiv> of_nat ` set (x_fin a) :: u32 set"
  shows "4 * length (x_trans a) \<le> DFA_MAX_SIZE" and "x_fin a \<noteq> []"
    and "list_all (\<lambda>i. i \<le> STATE_ID_MAX \<and> d_is_match d i) [unat (Min fin)..<Suc (unat (Max fin))]"
    and "dfa_trans dfa = map of_nat (x_trans a)" "dfa_ec_table dfa = extract_ec_table d"
      "dfa_start dfa = of_nat s0" "dfa_eoi_class dfa = of_nat (d_eoi d)"
      "dfa_fin_min dfa = Min fin" "dfa_fin_max dfa = Max fin" "dfa_pats dfa = trim_pats (x_pats a)"
proof -
  from assms(1) have *: "\<not> DFA_MAX_SIZE < length (x_trans a) * STATE_SIZE \<and> x_fin a \<noteq> [] \<and>
    list_all (\<lambda>i. i \<le> STATE_ID_MAX \<and> d_is_match d i) [unat (Min fin)..<Suc (unat (Max fin))] \<and>
    dfa_trans dfa = map of_nat (x_trans a) \<and> dfa_ec_table dfa = extract_ec_table d \<and>
    dfa_start dfa = of_nat s0 \<and> dfa_eoi_class dfa = of_nat (d_eoi d) \<and>
    dfa_fin_min dfa = Min fin \<and> dfa_fin_max dfa = Max fin \<and> dfa_pats dfa = trim_pats (x_pats a)"
    unfolding extract_finish_def Let_def set_map fin_def
    by (simp del: upt_Suc add: rbind_eq_Inr split: if_split_asm) (elim conjE, hypsubst, simp)
  then show "4 * length (x_trans a) \<le> DFA_MAX_SIZE" by (simp add: STATE_SIZE_def)
  from * show "x_fin a \<noteq> []"
    and "list_all (\<lambda>i. i \<le> STATE_ID_MAX \<and> d_is_match d i) [unat (Min fin)..<Suc (unat (Max fin))]"
    and "dfa_trans dfa = map of_nat (x_trans a)" "dfa_ec_table dfa = extract_ec_table d"
      "dfa_start dfa = of_nat s0" "dfa_eoi_class dfa = of_nat (d_eoi d)"
      "dfa_fin_min dfa = Min fin" "dfa_fin_max dfa = Max fin" "dfa_pats dfa = trim_pats (x_pats a)"
    by blast+
qed

lemma extract_finish_spec:
  assumes wf: "dense_wf d" and ok: "extract_finish d s0 (acc_upto d N) = Inr dfa"
    and closed: "s0 + d_stride d \<le> N" "\<forall>i < N. d_next d i 0 + d_stride d \<le> N"
  shows "extracted d s0 N dfa"
proof -
  define F where "F = {i. i < N \<and> d_is_match d i}"
  note fin = extract_finish_Inr [OF ok]
  have set_fin: "set (x_fin (acc_upto d N)) = F"
    by (auto simp: acc_upto_def F_def)
  have size: "4 * N \<le> DFA_MAX_SIZE"
    using fin(1) by (simp add: acc_upto_def)
  then have "finite F" "\<forall>x \<in> F. x < 2 ^ 32"
    by (auto simp: F_def DFA_MAX_SIZE_def)
  moreover have "F \<noteq> {}"
    using fin(2) by (metis set_fin set_empty)
  ultimately have F: "finite F" "F \<noteq> {}" "\<forall>x \<in> F. x < 2 ^ 32"
    by blast+
  note mm = unat_Min_of_nat [OF F] unat_Max_of_nat [OF F]
  have all: "\<forall>i. Min F \<le> i \<and> i \<le> Max F \<longrightarrow> d_is_match d i"
    using fin(3) unfolding set_fin mm list_all_iff by (simp del: upt_Suc)
  have Max_lt: "Max F < N" and Min_Max: "Min F \<le> Max F"
    using Max_in [OF F(1,2)] Min_le [OF F(1) Max_in [OF F(1,2)]] by (auto simp: F_def)
  have match: "\<forall>s < N. d_is_match d s \<longleftrightarrow> Min F \<le> s \<and> s \<le> Max F"
  proof (intro allI impI iffI)
    fix s assume "s < N" "d_is_match d s"
    then have "s \<in> F" by (simp add: F_def)
    with F(1) show "Min F \<le> s \<and> s \<le> Max F" by simp
  qed (use all in blast)
  have "dropWhile (\<lambda>i. \<not> d_is_match d i) [0..<N] = [Min F..<N]"
    by (rule dropWhile_upt) (use match Max_lt Min_Max in auto)
  then have "dfa_pats dfa = map (state_patterns d) [Min F..<Suc (Max F)]"
    using trim_slot_patterns [OF wf Min_Max Max_lt match] fin(10) by (simp add: acc_upto_def)
  moreover have "dfa_trans dfa = map (\<lambda>i. of_nat (d_next d i 0)) [0..<N]"
    using fin(4) by (simp add: acc_upto_def o_def)
  ultimately show ?thesis
    unfolding extracted_def
    using closed size match Max_lt Min_Max fin(5-9) by (simp only: mm set_fin)
qed

lemma dfa_extract_spec:
  assumes "dense_wf d" and "dfa_extract d anchored = Inr dfa"
  shows "\<exists>s0 N. d_start d anchored = Inr s0 \<and> extracted d s0 N dfa"
proof -
  from assms(2) obtain s0 a where s0: "d_start d anchored = Inr s0"
    and loop: "extract_loop d 0 s0 (acc_upto d 0) = Inr a" and fin: "extract_finish d s0 a = Inr dfa"
    by (auto simp: dfa_extract_def rbind_eq_Inr acc_upto_0 split: sum.splits)
  from extract_loop_spec [OF loop refl]
  obtain N mx where "a = acc_upto d N" "s0 \<le> mx" "\<forall>j < N. d_next d j 0 \<le> mx" "mx + d_stride d \<le> N"
    by auto
  with extract_finish_spec [OF assms(1), of s0 N dfa] fin s0 show ?thesis
    by fastforce
qed

section \<open>The layout of the arena\<close>

text \<open>
  The words of the slice table: for each pattern list, where its entries start in the
  three tables and how many there are.
\<close>

fun slice_words :: "nat \<Rightarrow> u32 list list \<Rightarrow> u32 list" where
  "slice_words n [] = []"
| "slice_words n (ps # pss) = of_nat n # of_nat (length ps) # slice_words (n + length ps) pss"

definition pat_ok :: "nat list \<Rightarrow> Matches \<Rightarrow> u32 \<Rightarrow> bool" where
  "pat_ok pim ms p \<longleftrightarrow> unat p < length pim \<and> pim ! unat p < length (ms_matches ms)"

definition pat_match :: "nat list \<Rightarrow> Matches \<Rightarrow> u32 \<Rightarrow> Match" where
  "pat_match pim ms p = ms_matches ms ! (pim ! unat p)"

lemma length_slice_words [simp]: "length (slice_words n pss) = 2 * length pss"
  by (induction pss arbitrary: n) auto

lemma nth_slice_words:
  "k < length pss \<Longrightarrow>
    slice_words n pss ! (2 * k) = of_nat (n + length (concat (take k pss))) \<and>
    slice_words n pss ! (2 * k + 1) = of_nat (length (pss ! k))"
proof (induction pss arbitrary: n k)
  case (Cons ps pss)
  show ?case
  proof (cases k)
    case (Suc j)
    with Cons.prems Cons.IH [of j "n + length ps"] show ?thesis by (simp add: add.assoc)
  qed simp
qed simp

lemma push_pats_eq:
  "rfoldl (push_pat pim ms) t ps = Inr t' \<longleftrightarrow>
    list_all (pat_ok pim ms) ps \<and>
    t' = t\<lparr>t_redirect := t_redirect t @ map (\<lambda>p. redirect_byte (m_direction (pat_match pim ms p))) ps,
           t_uid := t_uid t @ map (\<lambda>p. m_uid (pat_match pim ms p)) ps,
           t_match_id := t_match_id t @ map (\<lambda>p. of_nat (pim ! unat p)) ps\<rparr>"
  by (induction ps arbitrary: t)
    (auto simp: push_pat_def rbind_eq_Inr pat_ok_def pat_match_def)

definition tables_of :: "nat list \<Rightarrow> Matches \<Rightarrow> nat \<Rightarrow> u32 list list \<Rightarrow> tables \<Rightarrow> tables" where
  "tables_of pim ms n pss t =
    \<lparr>t_slices = t_slices t @ ne_bytes_of (slice_words n pss),
     t_redirect = t_redirect t @ map (\<lambda>p. redirect_byte (m_direction (pat_match pim ms p))) (concat pss),
     t_uid = t_uid t @ map (\<lambda>p. m_uid (pat_match pim ms p)) (concat pss),
     t_match_id = t_match_id t @ map (\<lambda>p. of_nat (pim ! unat p)) (concat pss)\<rparr>"

lemma push_slices_eq:
  "length (t_uid t) = n \<Longrightarrow> length (t_match_id t) = n \<Longrightarrow>
    rfoldl (push_slice pim ms) t pss = Inr t' \<longleftrightarrow>
    list_all (pat_ok pim ms) (concat pss) \<and> t' = tables_of pim ms n pss t"
proof (induction pss arbitrary: t n)
  case (Cons ps pss)
  define u where "u = tables_of pim ms n [ps] t"
  have step: "push_slice pim ms t ps = Inr v \<longleftrightarrow> list_all (pat_ok pim ms) ps \<and> v = u" for v
    using Cons.prems by (auto simp: push_slice_def rbind_eq_Inr push_pats_eq u_def tables_of_def ne_bytes_of_Cons)
  have len: "length (t_uid u) = n + length ps" "length (t_match_id u) = n + length ps"
    using Cons.prems by (simp_all add: u_def tables_of_def)
  have "tables_of pim ms (n + length ps) pss u = tables_of pim ms n (ps # pss) t"
    by (simp add: u_def tables_of_def ne_bytes_of_Cons)
  then show ?case
    by (auto simp: rbind_eq_Inr step Cons.IH [OF len])
qed (auto simp: tables_of_def)

lemma encode_tables_eq:
  "encode_tables pim ms pss = Inr t \<longleftrightarrow>
    list_all (pat_ok pim ms) (concat pss) \<and> t = tables_of pim ms 0 pss tables_empty"
  unfolding encode_tables_def by (rule push_slices_eq) (simp_all add: tables_empty_def)

lemma align_split:
  assumes "align_wf align"
  shows "\<exists>p. align a = a @ p \<and> length p < 4 \<and> 4 dvd length (align a)"
proof (intro exI conjI)
  from assms have a: "take (length a) (align a) = a" "length (align a) < length a + 4"
    "4 dvd length (align a)"
    by (simp_all add: align_wf_def)
  then show "align a = a @ drop (length a) (align a)"
    using append_take_drop_id [of "length a" "align a"] by simp
  from a show "length (drop (length a) (align a)) < 4" "4 dvd length (align a)"
    by simp_all
qed

lemma length_extract_ec_table [simp]: "length (extract_ec_table d) = 256"
  by (simp add: extract_ec_table_def)

text \<open>The arena that a successful \<open>encode_dfa\<close> leaves, and where each part starts.\<close>

lemma encode_dfa_layout:
  assumes "encode_dfa lib pats arena0 pim ms = Inr (arena, b)" and al: "align_wf (l_align lib)"
  obtains dfa pre pad where "extract_dfa lib pats = Inr dfa"
    and "list_all (pat_ok pim ms) (concat (dfa_pats dfa))"
    and "length (dfa_ec_table dfa) = 256"
    and "arena0 = take (length arena0) pre" and "length pre < length arena0 + 4" and "length pad < 4"
    and "arena = pre @ dfa_ec_table dfa @ ne_bytes_of (dfa_trans dfa) @ pad @
      ne_bytes_of (slice_words 0 (dfa_pats dfa)) @
      map (\<lambda>p. redirect_byte (m_direction (pat_match pim ms p))) (concat (dfa_pats dfa)) @
      ne_bytes_of (map (\<lambda>p. m_uid (pat_match pim ms p)) (concat (dfa_pats dfa))) @
      ne_bytes_of (map (\<lambda>p. of_nat (pim ! unat p)) (concat (dfa_pats dfa)))"
    and "b = (let o1 = length pre; o2 = o1 + 256 + 4 * length (dfa_trans dfa) + length pad;
                  o3 = o2 + 8 * length (dfa_pats dfa); o4 = o3 + length (concat (dfa_pats dfa));
                  o5 = o4 + 4 * length (concat (dfa_pats dfa))
              in \<lparr>b_dfa_off = of_nat o1, b_start = dfa_start dfa, b_eoi = dfa_eoi_class dfa,
                 b_fin_min = dfa_fin_min dfa, b_fin_max = dfa_fin_max dfa,
                 b_match_slices_off = of_nat o2, b_redirect_table_off = of_nat o3,
                 b_uid_table_off = of_nat o4, b_match_id_table_off = of_nat o5\<rparr>)"
proof -
  from assms(1) obtain dfa t where dfa: "extract_dfa lib pats = Inr dfa"
    and ec: "length (dfa_ec_table dfa) = 256"
    and t: "encode_tables pim ms (dfa_pats dfa) = Inr t"
    by (auto simp: encode_dfa_def rbind_eq_Inr Let_def)
  obtain p where p: "l_align lib arena0 = arena0 @ p" "length p < 4"
    using align_split [OF al] by blast
  let ?body = "(arena0 @ p) @ dfa_ec_table dfa @ ne_bytes_of (dfa_trans dfa)"
  obtain pad where pad: "l_align lib ?body = ?body @ pad" "length pad < 4"
    using align_split [OF al] by blast
  note t' = t [unfolded encode_tables_eq]
  show thesis
    by (rule that [OF dfa _ ec, of "arena0 @ p" pad])
      (use assms(1) p pad ec t' in \<open>simp_all add: encode_dfa_def dfa t Let_def tables_of_def
        tables_empty_def add.assoc del: length_concat\<close>)
qed

text \<open>Encoding succeeds when every pattern leads to a match; the size of what it writes.\<close>

lemma encode_dfa_ok:
  assumes "extract_dfa lib pats = Inr dfa" and "list_all (pat_ok pim ms) (concat (dfa_pats dfa))"
    and "dfa_ec_table dfa = extract_ec_table d" and "align_wf (l_align lib)"
  obtains arena b where "encode_dfa lib pats [] pim ms = Inr (arena, b)"
    and "length arena \<le> 262 + 4 * length (dfa_trans dfa) + 8 * length (dfa_pats dfa) + 9 * length (concat (dfa_pats dfa))"
    and "b_fin_min b = dfa_fin_min dfa" "b_fin_max b = dfa_fin_max dfa" "b_start b = dfa_start dfa"
proof -
  have "encode_tables pim ms (dfa_pats dfa) = Inr (tables_of pim ms 0 (dfa_pats dfa) tables_empty)"
    using assms(2) by (simp add: encode_tables_eq)
  then have "\<exists>arena b. encode_dfa lib pats [] pim ms = Inr (arena, b)"
    using assms(3) by (simp add: encode_dfa_def assms(1) Let_def)
  then obtain arena b where enc: "encode_dfa lib pats [] pim ms = Inr (arena, b)" by blast
  then show thesis
  proof (rule that)
    show "length arena \<le> 262 + 4 * length (dfa_trans dfa) + 8 * length (dfa_pats dfa) + 9 * length (concat (dfa_pats dfa))"
      using assms(1) by (rule_tac encode_dfa_layout [OF enc assms(4)]) (simp del: length_concat)
    show "b_fin_min b = dfa_fin_min dfa" "b_fin_max b = dfa_fin_max dfa" "b_start b = dfa_start dfa"
      using assms(1) by (rule_tac encode_dfa_layout [OF enc assms(4)], simp add: Let_def)+
  qed
qed

section \<open>No panic\<close>

text \<open>
  The crate's layout, for a table of \<open>n\<close> slots: it is closed under transitions, the row of
  the dead state is dead, the match states are contiguous, the identifiers fit.
\<close>

definition dense_layout :: "dense \<Rightarrow> nat \<Rightarrow> bool" where
  "dense_layout d n \<longleftrightarrow>
    (\<forall>anchored s0. d_start d anchored = Inr s0 \<longrightarrow> s0 + d_stride d \<le> n) \<and>
    (\<forall>i < n. d_next d i 0 + d_stride d \<le> n) \<and> n \<le> Suc STATE_ID_MAX \<and>
    (\<forall>i < d_stride d. d_next d i 0 = 0) \<and>
    (\<forall>a b s. d_is_match d a \<and> d_is_match d b \<and> a \<le> s \<and> s \<le> b \<longrightarrow> d_is_match d s)"

definition patterns_wf :: "dense \<Rightarrow> nat \<Rightarrow> bool" where
  "patterns_wf d n \<longleftrightarrow>
    (\<forall>s i. d_is_match d s \<and> i < d_match_len d s \<longrightarrow> d_match_pattern d s i < n) \<and>
    (\<forall>x p. d_search d x = Inr (Some p) \<longrightarrow> p < n)"

text \<open>What the code relies on of the builder and of \<^verbatim>\<open>align\<close>.\<close>

definition build_wf :: "libs \<Rightarrow> bool" where
  "build_wf lib \<longleftrightarrow> align_wf (l_align lib) \<and>
    (\<forall>reverse pats d. l_build_many lib reverse DFA_MAX_SIZE pats = Inr d \<longrightarrow>
      dense_wf d \<and> (\<exists>n. dense_layout d n) \<and> patterns_wf d (length pats))"

lemma extract_finish_no_panic:
  assumes wf: "dense_wf d" and lay: "dense_layout d n" and N: "d_stride d \<le> N" "N \<le> Suc STATE_ID_MAX"
  shows "extract_finish d s0 (acc_upto d N) \<noteq> Inl Panic"
proof (cases "DFA_MAX_SIZE < N * STATE_SIZE \<or> filter (d_is_match d) [0..<N] = []")
  case True
  then show ?thesis by (auto simp: extract_finish_def acc_upto_def)
next
  case False
  define F where "F = {i. i < N \<and> d_is_match d i}"
  have fin: "set (x_fin (acc_upto d N)) = F" by (auto simp: acc_upto_def F_def)
  have F: "finite F" "F \<noteq> {}" "\<forall>x \<in> F. x < 2 ^ 32"
    using False by (auto simp: F_def DFA_MAX_SIZE_def STATE_SIZE_def filter_empty_conv)
  note mm = unat_Min_of_nat [OF F] unat_Max_of_nat [OF F]
  have ends: "d_is_match d (Min F)" "d_is_match d (Max F)" "Max F < N"
    using Min_in [OF F(1,2)] Max_in [OF F(1,2)] by (simp_all add: F_def)
  have "\<forall>a b s. d_is_match d a \<and> d_is_match d b \<and> a \<le> s \<and> s \<le> b \<longrightarrow> d_is_match d s"
    using lay unfolding dense_layout_def by blast
  then have rng: "i \<le> STATE_ID_MAX \<and> d_is_match d i" if "Min F \<le> i" "i \<le> Max F" for i
    using that ends N(2) by (meson Suc_leI le_trans less_Suc_eq_le not_less_eq_eq order_le_less_trans)
  have dead: "filter (d_is_dead d) [0..<N] = [0]"
  proof -
    have "0 < N" using N(1) dense_wfD(3) [OF wf] by simp
    then have "[0..<N] = 0 # [1..<N]" by (simp add: upt_conv_Cons)
    then show ?thesis by (simp add: dense_wfD(7) [OF wf] filter_empty_conv)
  qed
  have "list_all (\<lambda>i. i \<le> STATE_ID_MAX \<and> d_is_match d i)
      [unat (Min (of_nat ` F :: u32 set))..<Suc (unat (Max (of_nat ` F :: u32 set)))]"
    using rng unfolding mm list_all_iff by (simp add: less_Suc_eq_le del: upt_Suc)
  moreover have "list_all (\<lambda>i. i < N \<and> map (\<lambda>i. d_next d i 0) [0..<N] ! i = 0) [0..<d_stride d]"
    using lay N by (auto simp: list_all_iff dense_layout_def)
  ultimately show ?thesis
    using False dead fin
    by (simp add: extract_finish_def Let_def acc_upto_def DEAD_def F_def del: upt_Suc)
qed

lemma dfa_extract_no_panic:
  assumes wf: "dense_wf d" and lay: "dense_layout d n"
  shows "dfa_extract d anchored \<noteq> Inl Panic"
proof (cases "d_start d anchored")
  case (Inr s0)
  from lay Inr have "\<exists>r. extract_loop d 0 s0 (acc_upto d 0) = Inr r"
    by (intro extract_loop_total [of _ _ n]) (auto simp: dense_layout_def)
  then obtain r where loop: "extract_loop d 0 s0 (acc_upto d 0) = Inr r" by blast
  from extract_loop_spec [OF loop refl] obtain N mx
    where "r = acc_upto d N" "mx + d_stride d \<le> N" "N \<le> Suc STATE_ID_MAX" by auto
  with loop Inr extract_finish_no_panic [OF wf lay, of N s0] show ?thesis
    by (simp add: dfa_extract_def acc_upto_0)
qed (simp add: dfa_extract_def)

lemma extracted_patterns:
  assumes ex: "extracted d s0 N dfa" and p: "patterns_wf d n" and "x \<in> set (concat (dfa_pats dfa))"
  shows "unat x < n"
proof -
  from assms(3) ex obtain s i where "s \<le> unat (dfa_fin_max dfa)" "unat (dfa_fin_min dfa) \<le> s"
    "i < d_match_len d s" and x: "x = of_nat (d_match_pattern d s i)"
    by (auto simp: extracted_def state_patterns_def less_Suc_eq_le simp del: upt_Suc)
  moreover from this ex have "d_is_match d s" by (auto simp: extracted_def)
  ultimately have "d_match_pattern d s i < n" using p by (auto simp: patterns_wf_def)
  then show ?thesis
    by (simp add: x unat_of_nat take_bit_nat_eq_self_iff le_less_trans [OF take_bit_nat_less_eq_self])
qed

lemma encode_dfa_no_panic:
  assumes wf: "build_wf lib" and pim: "length pim = length pats" "\<forall>i \<in> set pim. i < length (ms_matches ms)"
  shows "encode_dfa lib pats arena pim ms \<noteq> Inl Panic"
proof (cases "l_build_many lib True DFA_MAX_SIZE pats")
  case (Inl e)
  then show ?thesis by (simp add: encode_dfa_def extract_dfa_def build_dfa_def)
next
  case (Inr d)
  with wf obtain n where d: "dense_wf d" "dense_layout d n" "patterns_wf d (length pats)"
    unfolding build_wf_def by blast
  have ext: "extract_dfa lib pats = dfa_extract d True"
    by (simp add: extract_dfa_def build_dfa_def Inr)
  show ?thesis
  proof (cases "dfa_extract d True")
    case (Inl e)
    with dfa_extract_no_panic [OF d(1,2)] show ?thesis by (auto simp: encode_dfa_def ext)
  next
    case (Inr dfa)
    with dfa_extract_spec [OF d(1)] obtain s0 N where ex: "extracted d s0 N dfa" by blast
    have "\<forall>x \<in> set (concat (dfa_pats dfa)). pat_ok pim ms x"
      using extracted_patterns [OF ex d(3)] pim by (auto simp: pat_ok_def simp del: set_concat)
    then have "encode_tables pim ms (dfa_pats dfa) = Inr (tables_of pim ms 0 (dfa_pats dfa) tables_empty)"
      by (simp add: encode_tables_eq list_all_iff)
    moreover have "length (dfa_ec_table dfa) = 256" using ex by (simp add: extracted_def)
    ultimately show ?thesis by (simp add: encode_dfa_def ext Inr Let_def)
  qed
qed

end
