(* ===== verification/Bpf.thy ===== *)
theory Bpf
  imports Dfa
begin

text \<open>
  The eBPF side of the automaton (\<^verbatim>\<open>rebpf/bpf-dfa.c\<close>, \<^verbatim>\<open>rebpf/bpf.c\<close>,
  \<^verbatim>\<open>rebpf/bpf-load.c\<close>): the loader copies the arena of \<open>encode_dfa\<close> to the start of the
  shared memory, and the program runs the automaton backwards over the path of a task's
  executable and looks the matches of the final state up.  The lemmas show that the
  program reads from the arena what \<open>encode_dfa\<close> put there, so that it accepts a path
  exactly when the automaton of the crate does.
\<close>

section \<open>Reading the arena\<close>

text \<open>The arena memory from \<^verbatim>\<open>BASE\<close> on, by offset.\<close>

type_synonym mem = "nat \<Rightarrow> u8"

definition ARENA_SIZE :: nat where "ARENA_SIZE = 2097152"

definition NAME_MAX :: nat where "NAME_MAX = 255"

definition PATH_MAX :: nat where "PATH_MAX = 4096"

text \<open>The \<^verbatim>\<open>memcpy\<close> of \<^verbatim>\<open>bpf_reload_config\<close>.\<close>

definition load_arena :: "u8 list \<Rightarrow> mem \<Rightarrow> mem" where
  "load_arena buf mem = (\<lambda>a. if a < length buf then buf ! a else mem a)"

definition read_u32 :: "mem \<Rightarrow> nat \<Rightarrow> u32" where
  "read_u32 mem a = from_ne_bytes (mem a) (mem (a + 1)) (mem (a + 2)) (mem (a + 3))"

definition table_at :: "mem \<Rightarrow> bpf_DFA \<Rightarrow> u8 \<Rightarrow> u8" where
  "table_at mem dfa c = mem (unat (b_dfa_off dfa) + unat c)"

definition states_at :: "mem \<Rightarrow> bpf_DFA \<Rightarrow> u32 \<Rightarrow> u32" where
  "states_at mem dfa i = read_u32 mem (unat (b_dfa_off dfa) + 256 + 4 * unat i)"

section \<open>Running the automaton\<close>

text \<open>The loop of \<^verbatim>\<open>match_regex_rev\<close>, over the input from its last byte to its first.\<close>

fun rev_loop :: "mem \<Rightarrow> bpf_DFA \<Rightarrow> u32 \<Rightarrow> u8 list \<Rightarrow> u32" where
  "rev_loop mem dfa this [] = this"
| "rev_loop mem dfa this (c # cs) =
    (if this = 0 then this
     else rev_loop mem dfa (states_at mem dfa (this + ucast (table_at mem dfa c))) cs)"

definition match_regex_rev :: "mem \<Rightarrow> u8 list \<Rightarrow> bpf_DFA \<Rightarrow> bool \<times> bpf_DFA" where
  "match_regex_rev mem input dfa =
    (if NAME_MAX + 1 < length input then (False, dfa)
     else let this = rev_loop mem dfa (b_start dfa) (rev input)
          in (this \<noteq> 0, dfa\<lparr>b_start := this\<rparr>))"

definition match_regex_rev_fin :: "mem \<Rightarrow> bpf_DFA \<Rightarrow> bool \<times> bpf_DFA" where
  "match_regex_rev_fin mem dfa =
    (let this = b_start dfa
     in if this = 0 then (False, dfa)
        else let this = states_at mem dfa (this + ucast (b_eoi dfa))
             in (b_fin_min dfa \<le> this \<and> this \<le> b_fin_max dfa, dfa\<lparr>b_start := this\<rparr>))"

definition SLASH :: u8 where "SLASH = 47"

text \<open>
  The walk from the file's own directory entry to the root.  The list holds the names
  from the file upwards; where it ends, the entry has no other parent.
\<close>

fun path_loop :: "mem \<Rightarrow> nat \<Rightarrow> u8 list list \<Rightarrow> bpf_DFA \<Rightarrow> bool \<times> bpf_DFA" where
  "path_loop mem 0 dents dfa = (True, dfa)"
| "path_loop mem (Suc n) [] dfa = (True, dfa)"
| "path_loop mem (Suc n) (name # pars) dfa =
    (if name = [SLASH] then (True, dfa)
     else case match_regex_rev mem name dfa of
       (False, dfa) \<Rightarrow> (False, dfa)
     | (True, dfa) \<Rightarrow>
         (case match_regex_rev mem [SLASH] dfa of
            (False, dfa) \<Rightarrow> (False, dfa)
          | (True, dfa) \<Rightarrow> path_loop mem n pars dfa))"

definition match_regex_rev_path :: "mem \<Rightarrow> u8 list list \<Rightarrow> bpf_DFA \<Rightarrow> bool \<times> bpf_DFA" where
  "match_regex_rev_path mem dents dfa =
    (case path_loop mem PATH_MAX dents dfa of
       (False, dfa) \<Rightarrow> (False, dfa)
     | (True, dfa) \<Rightarrow> match_regex_rev_fin mem dfa)"

section \<open>The verdict for a task\<close>

record match_res =
  mr_redirect :: u32
  mr_table_off :: u32
  mr_table_len :: u32

record match_ctx =
  mc_uid :: u32
  mc_dfa :: bpf_DFA
  mc_res :: match_res

definition match_ctx_init :: "u32 \<Rightarrow> bpf_DFA \<Rightarrow> match_ctx" where
  "match_ctx_init uid dfa =
    \<lparr>mc_uid = uid, mc_dfa = dfa, mc_res = \<lparr>mr_redirect = 0, mr_table_off = 0, mr_table_len = 0\<rparr>\<rparr>"

definition uid_table_at :: "mem \<Rightarrow> bpf_DFA \<Rightarrow> u32 \<Rightarrow> u32" where
  "uid_table_at mem dfa i = read_u32 mem (unat (b_uid_table_off dfa) + 4 * unat i)"

definition match_id_at :: "mem \<Rightarrow> bpf_DFA \<Rightarrow> u32 \<Rightarrow> u32" where
  "match_id_at mem dfa i = read_u32 mem (unat (b_match_id_table_off dfa) + 4 * unat i)"

definition slices_at :: "mem \<Rightarrow> bpf_DFA \<Rightarrow> u32 \<Rightarrow> u32" where
  "slices_at mem dfa i = read_u32 mem (unat (b_match_slices_off dfa) + 4 * unat i)"

definition redirect_table_at :: "mem \<Rightarrow> bpf_DFA \<Rightarrow> u32 \<Rightarrow> u8" where
  "redirect_table_at mem dfa i = mem (unat (b_redirect_table_off dfa) + unat i)"

text \<open>
  \<^verbatim>\<open>needs_mark_uncached\<close>: \<open>exe\<close> is the path of \<^verbatim>\<open>task->mm->exe_file\<close>, if there is one.
  The result is the C return value (-1, 0 or 1) and the updated context.
\<close>

definition needs_mark_uncached :: "mem \<Rightarrow> u8 list list option \<Rightarrow> match_ctx \<Rightarrow> int \<times> match_ctx" where
  "needs_mark_uncached mem exe m =
    (case exe of None \<Rightarrow> (-1, m)
     | Some dents \<Rightarrow>
       (case match_regex_rev_path mem dents (mc_dfa m) of
          (False, dfa) \<Rightarrow> (-1, m\<lparr>mc_dfa := dfa\<rparr>)
        | (True, dfa) \<Rightarrow>
          let m = m\<lparr>mc_dfa := dfa\<rparr>; this = b_start dfa
          in if this < b_fin_min dfa \<or> b_fin_max dfa < this then (-1, m)
             else let off = this - b_fin_min dfa;
                      table_off = slices_at mem dfa (off * 2);
                      table_len = slices_at mem dfa (off * 2 + 1);
                      m = m\<lparr>mc_res := \<lparr>mr_redirect = ucast (redirect_table_at mem dfa off),
                                       mr_table_off = table_off, mr_table_len = table_len\<rparr>\<rparr>
                  in if list_ex (\<lambda>i. let uid = uid_table_at mem dfa (table_off + of_nat i)
                                     in uid = 0 \<or> uid = mc_uid m) [0..<unat table_len]
                     then (uint (mr_redirect (mc_res m)), m) else (-1, m)))"

section \<open>Specification\<close>

text \<open>The crate's own reading of a reverse automaton on a path.\<close>

definition dense_run :: "dense \<Rightarrow> nat \<Rightarrow> u8 list \<Rightarrow> nat" where
  "dense_run d s bs = foldl (d_next d) s bs"

definition dense_final :: "dense \<Rightarrow> nat \<Rightarrow> u8 list \<Rightarrow> nat" where
  "dense_final d s path = d_next_eoi d (dense_run d s (rev path))"

text \<open>The absolute path that a chain of directory entries spells.\<close>

definition full_path :: "u8 list list \<Rightarrow> u8 list" where
  "full_path dents = concat (map (\<lambda>n. SLASH # n) (rev (takeWhile (\<lambda>n. n \<noteq> [SLASH]) dents)))"

section \<open>The arena holds the automaton\<close>

lemma load_arena_nth:
  "arena = xs @ ys @ zs \<Longrightarrow> k < length ys \<Longrightarrow> load_arena arena mem (length xs + k) = ys ! k"
  by (simp add: load_arena_def nth_append)

lemma load_arena_u32:
  assumes arena: "arena = xs @ ne_bytes_of ws @ zs" and i: "i < length ws"
  shows "read_u32 (load_arena arena mem) (length xs + 4 * i) = ws ! i"
proof -
  have byte: "load_arena arena mem (length xs + 4 * i + k) = to_ne_bytes (ws ! i) ! k" if "k < 4" for k
    using load_arena_nth [OF arena, of "4 * i + k" mem] i that
    by (simp add: add.assoc nth_ne_bytes_of)
  show ?thesis
    using byte [of 0] byte [of 1] byte [of 2] byte [of 3] from_to_ne_bytes [of "ws ! i"]
    by (simp add: read_u32_def)
qed

text \<open>
  What the program relies on: \<open>N\<close> slots of a closed table, read through the class map,
  and bounds that keep the 32-bit arithmetic exact.
\<close>

definition holds_automaton :: "mem \<Rightarrow> bpf_DFA \<Rightarrow> dense \<Rightarrow> nat \<Rightarrow> bool" where
  "holds_automaton mem b d N \<longleftrightarrow>
    (\<forall>c. table_at mem b c = d_class d c) \<and>
    (\<forall>i < N. states_at mem b (of_nat i) = of_nat (d_next d i 0)) \<and>
    (\<forall>i < N. d_next d i 0 + d_stride d \<le> N) \<and> 4 * N \<le> DFA_MAX_SIZE \<and>
    b_eoi b = of_nat (d_eoi d) \<and>
    (\<forall>s < N. d_is_match d s \<longleftrightarrow> unat (b_fin_min b) \<le> s \<and> s \<le> unat (b_fin_max b))"

lemma holds_automaton_start [simp]:
  "holds_automaton mem (b\<lparr>b_start := s\<rparr>) d N = holds_automaton mem b d N"
  by (simp add: holds_automaton_def table_at_def states_at_def)

lemma states_at_step:
  assumes h: "holds_automaton mem b d N" and s: "s + d_stride d \<le> N" and k: "k < d_stride d"
  shows "states_at mem b (of_nat s + of_nat k) = of_nat (d_next d (s + k) 0)"
    and "d_next d (s + k) 0 + d_stride d \<le> N"
  using assms by (auto simp: holds_automaton_def simp flip: of_nat_add)

lemma of_nat_u32_eq_0: "n \<le> 2 ^ 20 \<Longrightarrow> (of_nat n :: u32) = 0 \<longleftrightarrow> n = 0"
  using unat_of_nat_u32 [of n] by (auto simp flip: unat_eq_zero)

lemma dense_run_dead: "dense_wf d \<Longrightarrow> dense_run d 0 bs = 0"
  by (induction bs) (simp_all add: dense_run_def dense_wfD(8))

lemma dense_run_append: "dense_run d s (xs @ ys) = dense_run d (dense_run d s xs) ys"
  by (simp add: dense_run_def)

lemma rev_loop_run:
  assumes wf: "dense_wf d" and h: "holds_automaton mem b d N" and s: "s + d_stride d \<le> N"
  shows "rev_loop mem b (of_nat s) cs = of_nat (dense_run d s cs)
    \<and> dense_run d s cs + d_stride d \<le> N"
  using s
proof (induction cs arbitrary: s)
  case Nil
  then show ?case by (simp add: dense_run_def)
next
  case (Cons c cs)
  have N: "N \<le> 2 ^ 20" using h by (simp add: holds_automaton_def DFA_MAX_SIZE_def)
  show ?case
  proof (cases "s = 0")
    case True
    with Cons.prems wf show ?thesis by (simp add: dense_run_dead)
  next
    case False
    with Cons.prems N have nz: "(of_nat s :: u32) \<noteq> 0" by (simp add: of_nat_u32_eq_0)
    have cls: "unat (d_class d c) < d_stride d" and nx: "d_next d s c = d_next d (s + unat (d_class d c)) 0"
      using dense_wfD(2,5) [OF wf] by blast+
    have uc: "(ucast (d_class d c) :: u32) = of_nat (unat (d_class d c))"
      by (rule ucast_u8_u32)
    have "table_at mem b c = d_class d c"
      using h unfolding holds_automaton_def by blast
    then have "states_at mem b (of_nat s + ucast (table_at mem b c)) = of_nat (d_next d s c)"
      using states_at_step(1) [OF h Cons.prems cls] by (simp only: nx uc)
    moreover have "d_next d s c + d_stride d \<le> N"
      using states_at_step(2) [OF h Cons.prems cls] by (simp only: nx)
    ultimately show ?thesis
      using Cons.IH [of "d_next d s c"] nz by (simp add: dense_run_def)
  qed
qed

lemma match_regex_rev_run:
  assumes wf: "dense_wf d" and h: "holds_automaton mem b d N" and s: "s + d_stride d \<le> N"
    and st: "b_start b = of_nat s" and len: "length input \<le> NAME_MAX + 1"
  shows "match_regex_rev mem input b =
    (dense_run d s (rev input) \<noteq> 0, b\<lparr>b_start := of_nat (dense_run d s (rev input))\<rparr>)"
    and "dense_run d s (rev input) + d_stride d \<le> N"
proof -
  note run = rev_loop_run [OF wf h s, of "rev input"]
  have "N \<le> 2 ^ 20" using h by (simp add: holds_automaton_def DFA_MAX_SIZE_def)
  with run have "(of_nat (dense_run d s (rev input)) :: u32) = 0 \<longleftrightarrow> dense_run d s (rev input) = 0"
    by (intro of_nat_u32_eq_0) auto
  with run len st show "match_regex_rev mem input b =
    (dense_run d s (rev input) \<noteq> 0, b\<lparr>b_start := of_nat (dense_run d s (rev input))\<rparr>)"
    by (simp add: match_regex_rev_def Let_def)
  show "dense_run d s (rev input) + d_stride d \<le> N" using run by blast
qed

text \<open>The bytes in the order the walk consumes them.\<close>

definition walk_bytes :: "u8 list list \<Rightarrow> u8 list" where
  "walk_bytes dents = concat (map (\<lambda>n. rev n @ [SLASH]) (takeWhile (\<lambda>n. n \<noteq> [SLASH]) dents))"

lemma rev_full_path: "rev (full_path dents) = walk_bytes dents"
  by (simp add: full_path_def walk_bytes_def rev_concat rev_map o_def)

lemma walk_bytes_Cons:
  "walk_bytes (n # dents) = (if n = [SLASH] then [] else rev n @ SLASH # walk_bytes dents)"
  by (simp add: walk_bytes_def)

text \<open>
  Either the walk reaches the state of the automaton, or it stops early because the
  automaton is dead.
\<close>

lemma path_loop_run:
  assumes wf: "dense_wf d" and h: "holds_automaton mem b d N" and s: "s + d_stride d \<le> N"
    and st: "b_start b = of_nat s" and names: "\<forall>n \<in> set dents. length n \<le> NAME_MAX + 1"
    and depth: "length dents \<le> n"
  shows "(path_loop mem n dents b = (True, b\<lparr>b_start := of_nat (dense_run d s (walk_bytes dents))\<rparr>)
      \<and> dense_run d s (walk_bytes dents) + d_stride d \<le> N)
    \<or> (fst (path_loop mem n dents b) = False \<and> dense_run d s (walk_bytes dents) = 0)"
  using h s st names depth
proof (induction dents arbitrary: n b s)
  case Nil
  then show ?case by (cases n) (simp_all add: walk_bytes_def dense_run_def)
next
  case (Cons name dents)
  then obtain m where n: "n = Suc m" by (cases n) auto
  show ?case
  proof (cases "name = [SLASH]")
    case True
    with Cons.prems n show ?thesis by (simp add: walk_bytes_Cons dense_run_def)
  next
    case False
    define s1 where "s1 = dense_run d s (rev name)"
    define s2 where "s2 = dense_run d s1 [SLASH]"
    have tot: "dense_run d s (walk_bytes (name # dents)) = dense_run d s2 (walk_bytes dents)"
      using False by (simp add: walk_bytes_Cons s1_def s2_def dense_run_def)
    have len: "length name \<le> NAME_MAX + 1" "length [SLASH] \<le> NAME_MAX + 1"
      using Cons.prems(4) by (simp_all add: NAME_MAX_def)
    note r1 = match_regex_rev_run [OF wf Cons.prems(1-3) len(1), folded s1_def]
    note r2 = match_regex_rev_run [OF wf _ r1(2) _ len(2), of mem "b\<lparr>b_start := of_nat s1\<rparr>", folded s2_def]
    consider "s1 = 0" | "s1 \<noteq> 0" "s2 = 0" | "s1 \<noteq> 0" "s2 \<noteq> 0" by blast
    then show ?thesis
    proof cases
      case 1
      then have "s2 = 0" by (simp add: s2_def dense_run_dead [OF wf])
      with 1 False n r1(1) show ?thesis by (simp add: tot dense_run_dead [OF wf])
    next
      case 2
      with False n r1(1) r2(1) Cons.prems(1) show ?thesis
        by (simp add: s2_def [symmetric] tot dense_run_dead [OF wf])
    next
      case 3
      have "path_loop mem n (name # dents) b = path_loop mem m dents (b\<lparr>b_start := of_nat s2\<rparr>)"
        using 3 False n r1(1) r2(1) Cons.prems(1) by (simp add: s2_def [symmetric])
      moreover have "s2 + d_stride d \<le> N"
        using r2(2) Cons.prems(1) by (simp add: s2_def [symmetric])
      ultimately show ?thesis
        using Cons.IH [of "b\<lparr>b_start := of_nat s2\<rparr>" s2 m] Cons.prems n by (simp add: tot)
    qed
  qed
qed

lemma match_regex_rev_path_run:
  assumes wf: "dense_wf d" and h: "holds_automaton mem b d N" and s: "s + d_stride d \<le> N"
    and st: "b_start b = of_nat s" and names: "\<forall>n \<in> set dents. length n \<le> NAME_MAX + 1"
    and depth: "length dents \<le> PATH_MAX"
  defines "f \<equiv> dense_final d s (full_path dents)"
  shows "fst (match_regex_rev_path mem dents b) \<longleftrightarrow> d_is_match d f"
    and "d_is_match d f \<Longrightarrow> match_regex_rev_path mem dents b = (True, b\<lparr>b_start := of_nat f\<rparr>)"
    and "f < N"
proof -
  define r where "r = dense_run d s (walk_bytes dents)"
  have f: "f = d_next_eoi d r" by (simp add: f_def dense_final_def rev_full_path r_def)
  have N: "N \<le> 2 ^ 20" using h by (simp add: holds_automaton_def DFA_MAX_SIZE_def)
  have stride: "0 < d_stride d" using dense_wfD(3) [OF wf] by simp
  from path_loop_run [OF wf h s st names depth, folded r_def]
  have cases: "(path_loop mem PATH_MAX dents b = (True, b\<lparr>b_start := of_nat r\<rparr>) \<and> r + d_stride d \<le> N)
      \<or> (fst (path_loop mem PATH_MAX dents b) = False \<and> r = 0)" .
  have dead: "f = 0 \<and> \<not> d_is_match d f" if "r = 0"
    using that f dense_wfD(9,10) [OF wf] by simp
  have rN: "r + d_stride d \<le> N" using cases s by auto
  have eoi: "unat (of_nat (d_eoi d) :: u16) = d_eoi d"
    using dense_wfD(4) [OF wf] by (rule unat_of_nat_u16)
  have f': "f = d_next d (r + d_eoi d) 0" using f dense_wfD(6) [OF wf] by simp
  note step = states_at_step [OF h rN dense_wfD(3) [OF wf], folded f']
  show fN: "f < N" using step(2) stride by linarith
  have fin: "b_fin_min b \<le> of_nat f \<and> of_nat f \<le> b_fin_max b \<longleftrightarrow> d_is_match d f"
    using h fN N by (simp add: holds_automaton_def word_le_nat_alt unat_of_nat_u32)
  have be: "b_eoi b = of_nat (d_eoi d)" using h by (simp add: holds_automaton_def)
  have alive: "match_regex_rev_path mem dents b = (d_is_match d f, b\<lparr>b_start := of_nat f\<rparr>)" if "r \<noteq> 0"
  proof -
    have "(of_nat r :: u32) \<noteq> 0" using that rN N by (simp add: of_nat_u32_eq_0)
    moreover have "states_at mem (b\<lparr>b_start := of_nat r\<rparr>) (of_nat r + of_nat (d_eoi d)) = of_nat f"
      using step(1) by (simp add: states_at_def)
    ultimately show ?thesis
      using cases that fin
      by (simp add: match_regex_rev_path_def match_regex_rev_fin_def Let_def be ucast_u16_u32 eoi)
  qed
  have stop: "fst (match_regex_rev_path mem dents b) = False" if "r = 0"
    using cases that by (cases "path_loop mem PATH_MAX dents b")
      (auto simp: match_regex_rev_path_def match_regex_rev_fin_def split: bool.splits)
  show "fst (match_regex_rev_path mem dents b) \<longleftrightarrow> d_is_match d f"
    using alive dead stop by (cases "r = 0") auto
  show "d_is_match d f \<Longrightarrow> match_regex_rev_path mem dents b = (True, b\<lparr>b_start := of_nat f\<rparr>)"
    using alive dead by (cases "r = 0") auto
qed

text \<open>The arena that \<open>encode_dfa\<close> wrote holds the automaton it was built from.\<close>

lemma extract_ec_table_nth: "extract_ec_table d ! unat c = d_class d c"
  using unat_u8_lt [of c] by (simp add: extract_ec_table_def)

lemma encode_dfa_dense:
  assumes "encode_dfa lib pats arena0 pim ms = Inr (arena, b)" "align_wf (l_align lib)"
    and "l_build_many lib True DFA_MAX_SIZE pats = Inr d" and "dense_wf d"
  obtains dfa s0 N where "d_start d True = Inr s0" and "extracted d s0 N dfa"
    and "extract_dfa lib pats = Inr dfa"
proof -
  obtain dfa where "extract_dfa lib pats = Inr dfa"
    using encode_dfa_layout [OF assms(1,2)] by blast
  moreover from this have "dfa_extract d True = Inr dfa"
    using assms(3) by (simp add: extract_dfa_def build_dfa_def)
  ultimately show thesis
    using dfa_extract_spec [OF assms(4)] that by blast
qed

text \<open>
  The tables of the arena, as the final states \<open>lo..hi\<close> of the automaton use them.
\<close>

definition final_patterns :: "dense \<Rightarrow> nat \<Rightarrow> nat \<Rightarrow> u32 list list" where
  "final_patterns d lo hi = map (state_patterns d) [lo..<Suc hi]"

definition holds_tables :: "mem \<Rightarrow> bpf_DFA \<Rightarrow> u32 list list \<Rightarrow> nat list \<Rightarrow> Matches \<Rightarrow> bool" where
  "holds_tables mem b pss pim ms \<longleftrightarrow>
    4 * length (concat pss) < 2 ^ 22 \<and> 8 * length pss < 2 ^ 22 \<and>
    (\<forall>i < 2 * length pss. slices_at mem b (of_nat i) = slice_words 0 pss ! i) \<and>
    (\<forall>i < length (concat pss).
       redirect_table_at mem b (of_nat i) = redirect_byte (m_direction (pat_match pim ms (concat pss ! i))) \<and>
       uid_table_at mem b (of_nat i) = m_uid (pat_match pim ms (concat pss ! i)) \<and>
       match_id_at mem b (of_nat i) = of_nat (pim ! unat (concat pss ! i)))"

lemma arena_reads:
  fixes mem :: mem
  assumes arena: "arena = pre @ ec @ ne_bytes_of tr @ pad @ ne_bytes_of sl @ red @ ne_bytes_of uid @ ne_bytes_of mid"
    and size: "length arena \<le> ARENA_SIZE" and ec: "length ec = 256"
    and b: "unat (b_dfa_off b) = length pre"
      "unat (b_match_slices_off b) = length (pre @ ec @ ne_bytes_of tr @ pad)"
      "unat (b_redirect_table_off b) = length (pre @ ec @ ne_bytes_of tr @ pad @ ne_bytes_of sl)"
      "unat (b_uid_table_off b) = length (pre @ ec @ ne_bytes_of tr @ pad @ ne_bytes_of sl @ red)"
      "unat (b_match_id_table_off b) = length (pre @ ec @ ne_bytes_of tr @ pad @ ne_bytes_of sl @ red @ ne_bytes_of uid)"
  defines "M \<equiv> load_arena arena mem"
  shows "table_at M b c = ec ! unat c"
    and "i < length tr \<Longrightarrow> states_at M b (of_nat i) = tr ! i"
    and "i < length sl \<Longrightarrow> slices_at M b (of_nat i) = sl ! i"
    and "i < length red \<Longrightarrow> redirect_table_at M b (of_nat i) = red ! i"
    and "i < length uid \<Longrightarrow> uid_table_at M b (of_nat i) = uid ! i"
    and "i < length mid \<Longrightarrow> match_id_at M b (of_nat i) = mid ! i"
proof -
  have small: "unat (of_nat k :: u32) = k" if "k \<le> length arena" for k
    using that size by (intro unat_of_nat_u32) (simp add: ARENA_SIZE_def)
  show "table_at M b c = ec ! unat c"
    using load_arena_nth [of arena pre ec _ "unat c" mem, OF arena] unat_u8_lt [of c] ec
    by (simp add: table_at_def M_def b(1) small arena)
  show "states_at M b (of_nat i) = tr ! i" if "i < length tr"
    using load_arena_u32 [of arena "pre @ ec" tr _ i mem] that ec
    by (simp add: states_at_def M_def b(1) small arena)
  show "slices_at M b (of_nat i) = sl ! i" if "i < length sl"
    using load_arena_u32 [of arena "pre @ ec @ ne_bytes_of tr @ pad" sl _ i mem] that
    by (simp only: slices_at_def M_def b(2)) (simp add: small arena)
  show "redirect_table_at M b (of_nat i) = red ! i" if "i < length red"
    using load_arena_nth [of arena "pre @ ec @ ne_bytes_of tr @ pad @ ne_bytes_of sl" red _ i mem] that
    by (simp only: redirect_table_at_def M_def b(3)) (simp add: small arena)
  show "uid_table_at M b (of_nat i) = uid ! i" if "i < length uid"
    using load_arena_u32 [of arena "pre @ ec @ ne_bytes_of tr @ pad @ ne_bytes_of sl @ red" uid _ i mem] that
    by (simp only: uid_table_at_def M_def b(4)) (simp add: small arena)
  show "match_id_at M b (of_nat i) = mid ! i" if "i < length mid"
    using load_arena_u32 [of arena "pre @ ec @ ne_bytes_of tr @ pad @ ne_bytes_of sl @ red @ ne_bytes_of uid" mid "[]" i mem] that
    by (simp only: match_id_at_def M_def b(5)) (simp add: small arena)
qed

text \<open>What the arena holds, and where.\<close>

lemma encode_dfa_places:
  assumes enc: "encode_dfa lib pats arena0 pim ms = Inr (arena, b)" and al: "align_wf (l_align lib)"
    and build: "l_build_many lib True DFA_MAX_SIZE pats = Inr d" and wf: "dense_wf d"
    and size: "length arena \<le> ARENA_SIZE"
  obtains s0 N where "d_start d True = Inr s0" and "b_start b = of_nat s0" and "s0 + d_stride d \<le> N"
    and "holds_automaton (load_arena arena mem) b d N"
    and "unat (b_fin_min b) \<le> unat (b_fin_max b)" and "unat (b_fin_max b) < N"
    and "holds_tables (load_arena arena mem) b
           (final_patterns d (unat (b_fin_min b)) (unat (b_fin_max b))) pim ms"
    and "unat (b_dfa_off b) + 256 + 4 * N \<le> unat (b_match_slices_off b)"
    and "unat (b_redirect_table_off b) = unat (b_match_slices_off b) + 8 * (Suc (unat (b_fin_max b)) - unat (b_fin_min b))"
    and "unat (b_uid_table_off b) = unat (b_redirect_table_off b)
      + length (concat (final_patterns d (unat (b_fin_min b)) (unat (b_fin_max b))))"
    and "unat (b_match_id_table_off b) = unat (b_uid_table_off b)
      + 4 * length (concat (final_patterns d (unat (b_fin_min b)) (unat (b_fin_max b))))"
    and "length arena = unat (b_match_id_table_off b) + 4 * length (concat (final_patterns d (unat (b_fin_min b)) (unat (b_fin_max b))))"
proof -
  obtain dfa s0 N where s0: "d_start d True = Inr s0" and ex: "extracted d s0 N dfa"
    and dfa: "extract_dfa lib pats = Inr dfa"
    using encode_dfa_dense [OF enc al build wf] by blast
  obtain pre pad where ec: "length (dfa_ec_table dfa) = 256"
    and arena: "arena = pre @ dfa_ec_table dfa @ ne_bytes_of (dfa_trans dfa) @ pad @
      ne_bytes_of (slice_words 0 (dfa_pats dfa)) @
      map (\<lambda>p. redirect_byte (m_direction (pat_match pim ms p))) (concat (dfa_pats dfa)) @
      ne_bytes_of (map (\<lambda>p. m_uid (pat_match pim ms p)) (concat (dfa_pats dfa))) @
      ne_bytes_of (map (\<lambda>p. of_nat (pim ! unat p)) (concat (dfa_pats dfa)))"
    and b: "b = (let o1 = length pre; o2 = o1 + 256 + 4 * length (dfa_trans dfa) + length pad;
                  o3 = o2 + 8 * length (dfa_pats dfa); o4 = o3 + length (concat (dfa_pats dfa));
                  o5 = o4 + 4 * length (concat (dfa_pats dfa))
              in \<lparr>b_dfa_off = of_nat o1, b_start = dfa_start dfa, b_eoi = dfa_eoi_class dfa,
                 b_fin_min = dfa_fin_min dfa, b_fin_max = dfa_fin_max dfa,
                 b_match_slices_off = of_nat o2, b_redirect_table_off = of_nat o3,
                 b_uid_table_off = of_nat o4, b_match_id_table_off = of_nat o5\<rparr>)"
    using encode_dfa_layout [OF enc al] dfa by (metis sum.inject(2))
  let ?cat = "concat (dfa_pats dfa)"
  have fields: "b_start b = dfa_start dfa" "b_eoi b = dfa_eoi_class dfa"
    "b_fin_min b = dfa_fin_min dfa" "b_fin_max b = dfa_fin_max dfa"
    by (simp_all add: b Let_def)
  have pats: "dfa_pats dfa = final_patterns d (unat (b_fin_min b)) (unat (b_fin_max b))"
    using ex by (simp add: fields extracted_def final_patterns_def del: upt_Suc)
  have small: "unat (of_nat k :: u32) = k" if "k \<le> length arena" for k
    using that size by (intro unat_of_nat_u32) (simp add: ARENA_SIZE_def)
  have offs: "unat (b_dfa_off b) = length pre"
    "unat (b_match_slices_off b) = length pre + 256 + 4 * length (dfa_trans dfa) + length pad"
    "unat (b_redirect_table_off b) = length pre + 256 + 4 * length (dfa_trans dfa) + length pad +
       8 * length (dfa_pats dfa)"
    "unat (b_uid_table_off b) = length pre + 256 + 4 * length (dfa_trans dfa) + length pad +
       8 * length (dfa_pats dfa) + length ?cat"
    "unat (b_match_id_table_off b) = length pre + 256 + 4 * length (dfa_trans dfa) + length pad +
       8 * length (dfa_pats dfa) + length ?cat + 4 * length ?cat"
    unfolding b Let_def bpf_DFA.select_convs
    by (rule small, simp add: arena ec del: length_concat)+
  note reads = arena_reads [OF arena size ec, where b = b and mem = mem]
  have "table_at (load_arena arena mem) b c = extract_ec_table d ! unat c" for c
    using reads(1) offs ex by (simp add: ec extracted_def del: length_concat)
  moreover have "\<forall>i < N. states_at (load_arena arena mem) b (of_nat i) = of_nat (d_next d i 0)"
    using reads(2) offs ex by (simp add: ec extracted_def del: length_concat)
  ultimately have "holds_automaton (load_arena arena mem) b d N"
    using ex unfolding holds_automaton_def extracted_def extract_ec_table_nth by (simp add: fields)
  moreover have "holds_tables (load_arena arena mem) b (dfa_pats dfa) pim ms"
    unfolding holds_tables_def
    using reads(3-6) offs ec size by (simp add: arena ARENA_SIZE_def del: length_concat)
  moreover have "b_start b = of_nat s0" "s0 + d_stride d \<le> N"
    "unat (b_fin_min b) \<le> unat (b_fin_max b)" "unat (b_fin_max b) < N"
    using ex unfolding fields extracted_def by blast+
  moreover have "unat (b_dfa_off b) + 256 + 4 * N \<le> unat (b_match_slices_off b)"
    using ex by (simp add: offs extracted_def del: length_concat)
  moreover have "length (dfa_pats dfa) = Suc (unat (b_fin_max b)) - unat (b_fin_min b)"
    by (simp add: pats final_patterns_def del: upt_Suc)
  moreover have "length arena = unat (b_match_id_table_off b) + 4 * length ?cat"
    unfolding offs by (simp add: arena ec del: length_concat)
  ultimately show thesis
    using that [OF s0] offs unfolding pats by (simp del: length_concat)
qed

lemma encode_dfa_holds:
  assumes enc: "encode_dfa lib pats arena0 pim ms = Inr (arena, b)" and al: "align_wf (l_align lib)"
    and build: "l_build_many lib True DFA_MAX_SIZE pats = Inr d" and wf: "dense_wf d"
    and size: "length arena \<le> ARENA_SIZE"
  obtains s0 N where "d_start d True = Inr s0" and "b_start b = of_nat s0" and "s0 + d_stride d \<le> N"
    and "holds_automaton (load_arena arena mem) b d N"
    and "unat (b_fin_min b) \<le> unat (b_fin_max b)" and "unat (b_fin_max b) < N"
    and "holds_tables (load_arena arena mem) b
           (final_patterns d (unat (b_fin_min b)) (unat (b_fin_max b))) pim ms"
proof -
  show thesis
    by (rule encode_dfa_places [OF assms, of mem]) (rule that)
qed

text \<open>Every pattern that the tables name stands for a match of the list.\<close>

lemma encode_dfa_pats_ok:
  assumes enc: "encode_dfa lib pats arena0 pim ms = Inr (arena, b)" and al: "align_wf (l_align lib)"
    and build: "l_build_many lib True DFA_MAX_SIZE pats = Inr d" and wf: "dense_wf d"
  shows "list_all (pat_ok pim ms) (concat (final_patterns d (unat (b_fin_min b)) (unat (b_fin_max b))))"
proof -
  obtain dfa s0 N where ex: "extracted d s0 N dfa" and dfa: "extract_dfa lib pats = Inr dfa"
    using encode_dfa_dense [OF enc al build wf] by blast
  have ok: "list_all (pat_ok pim ms) (concat (dfa_pats dfa))"
    and fields: "b_fin_min b = dfa_fin_min dfa" "b_fin_max b = dfa_fin_max dfa"
    by (rule encode_dfa_layout [OF enc al], simp add: dfa Let_def)+
  have "dfa_pats dfa = final_patterns d (unat (b_fin_min b)) (unat (b_fin_max b))"
    using ex by (simp add: fields extracted_def final_patterns_def del: upt_Suc)
  with ok show ?thesis by simp
qed

text \<open>The verdict, from the patterns of the final state.\<close>

definition uid_applies :: "u32 \<Rightarrow> Match \<Rightarrow> bool" where
  "uid_applies uid m \<longleftrightarrow> m_uid m = 0 \<or> m_uid m = uid"

lemma nth_concat_take:
  "k < length pss \<Longrightarrow> i < length (pss ! k) \<Longrightarrow>
    concat pss ! (length (concat (take k pss)) + i) = pss ! k ! i
    \<and> length (concat (take k pss)) + i < length (concat pss)"
proof (induction pss arbitrary: k)
  case (Cons ps pss)
  then show ?case by (cases k) (auto simp: nth_append simp del: length_concat)
qed simp

lemma le_length_concat: "\<forall>ps \<in> set pss. ps \<noteq> [] \<Longrightarrow> length pss \<le> length (concat pss)"
proof (induction pss)
  case (Cons ps pss)
  then have "0 < length ps" by simp
  with Cons show ?case by (simp del: length_concat length_greater_0_conv)
qed simp

lemma nth_concat_singletons:
  "\<forall>ps \<in> set pss. length ps = 1 \<Longrightarrow> k < length pss \<Longrightarrow> concat pss ! k = hd (pss ! k)"
proof (induction pss arbitrary: k)
  case (Cons ps pss)
  then obtain p where "ps = [p]" by (auto simp: length_Suc_conv)
  with Cons show ?case by (cases k) auto
qed simp

lemma holds_tables_slice:
  assumes t: "holds_tables mem b pss pim ms" and k: "k < length pss"
  defines "o1 \<equiv> length (concat (take k pss))"
  shows "slices_at mem b (of_nat k * 2) = of_nat o1"
    and "slices_at mem b (of_nat k * 2 + 1) = of_nat (length (pss ! k))"
    and "i < length (pss ! k) \<Longrightarrow> uid_table_at mem b (of_nat o1 + of_nat i) = m_uid (pat_match pim ms (pss ! k ! i))"
    and "i < length (pss ! k) \<Longrightarrow> match_id_at mem b (of_nat o1 + of_nat i) = of_nat (pim ! unat (pss ! k ! i))"
    and "length (pss ! k) < 2 ^ 20"
proof -
  have sl: "\<forall>i < 2 * length pss. slices_at mem b (of_nat i) = slice_words 0 pss ! i"
    and tab: "\<forall>i < length (concat pss). uid_table_at mem b (of_nat i) = m_uid (pat_match pim ms (concat pss ! i))
      \<and> match_id_at mem b (of_nat i) = of_nat (pim ! unat (concat pss ! i))"
    and len: "4 * length (concat pss) < 2 ^ 22"
    using t unfolding holds_tables_def by blast+
  have "slices_at mem b (of_nat (2 * k)) = of_nat o1"
    using sl [rule_format, of "2 * k"] k nth_slice_words [OF k, of 0] by (simp add: o1_def)
  then show "slices_at mem b (of_nat k * 2) = of_nat o1" by (simp add: mult.commute)
  have "slices_at mem b (of_nat (2 * k + 1)) = of_nat (length (pss ! k))"
    using sl [rule_format, of "2 * k + 1"] k nth_slice_words [OF k, of 0] by simp
  then show "slices_at mem b (of_nat k * 2 + 1) = of_nat (length (pss ! k))"
    by (simp add: mult.commute add.commute)
  note cat = nth_concat_take [OF k, folded o1_def]
  show "uid_table_at mem b (of_nat o1 + of_nat i) = m_uid (pat_match pim ms (pss ! k ! i))"
    "match_id_at mem b (of_nat o1 + of_nat i) = of_nat (pim ! unat (pss ! k ! i))"
    if "i < length (pss ! k)"
    using tab cat [OF that] by (simp_all flip: of_nat_add)
  have "length (pss ! k) \<le> length (concat pss)"
    using cat [of "length (pss ! k) - 1"] by (cases "pss ! k = []") (auto simp del: length_concat)
  with len show "length (pss ! k) < 2 ^ 20" by (simp del: length_concat)
qed

lemma final_patterns_nonempty:
  assumes wf: "dense_wf d" and h: "holds_automaton mem b d N" and hi: "unat (b_fin_max b) < N"
  shows "\<forall>ps \<in> set (final_patterns d (unat (b_fin_min b)) (unat (b_fin_max b))). ps \<noteq> []"
proof
  fix ps assume "ps \<in> set (final_patterns d (unat (b_fin_min b)) (unat (b_fin_max b)))"
  then obtain s where "unat (b_fin_min b) \<le> s" "s \<le> unat (b_fin_max b)" "ps = state_patterns d s"
    by (auto simp: final_patterns_def)
  moreover from this h hi have "d_is_match d s" by (simp add: holds_automaton_def)
  ultimately show "ps \<noteq> []" using dense_wfD(11) [OF wf, of s] by (simp add: state_patterns_def)
qed

lemma slice_uids:
  assumes t: "holds_tables mem b pss pim ms" and k: "k < length pss"
  shows "list_ex (\<lambda>i. let u = uid_table_at mem b (of_nat (length (concat (take k pss))) + of_nat i)
                      in u = 0 \<or> u = uid) [0..<length (pss ! k)]
    \<longleftrightarrow> (\<exists>p \<in> set (pss ! k). uid_applies uid (pat_match pim ms p))"
  using holds_tables_slice(3) [OF t k]
  by (auto simp: list_ex_iff uid_applies_def Let_def in_set_conv_nth Bex_def simp del: length_concat)

lemma needs_mark_uncached_run:
  assumes wf: "dense_wf d" and h: "holds_automaton mem b d N" and s: "s + d_stride d \<le> N"
    and st: "b_start b = of_nat s" and names: "\<forall>n \<in> set dents. length n \<le> NAME_MAX + 1"
    and depth: "length dents \<le> PATH_MAX" and top: "unat (b_fin_max b) < N"
    and t: "holds_tables mem b pss pim ms"
    and pss: "pss = final_patterns d (unat (b_fin_min b)) (unat (b_fin_max b))"
  defines "f \<equiv> dense_final d s (full_path dents)"
  assumes acc: "d_is_match d f"
  defines "k \<equiv> f - unat (b_fin_min b)"
  shows "needs_mark_uncached mem (Some dents) (match_ctx_init uid b) =
    (if \<exists>p \<in> set (state_patterns d f). uid_applies uid (pat_match pim ms p)
       then uint (redirect_byte (m_direction (pat_match pim ms (concat pss ! k)))) else -1,
     \<lparr>mc_uid = uid, mc_dfa = b\<lparr>b_start := of_nat f\<rparr>,
      mc_res = \<lparr>mr_redirect = ucast (redirect_byte (m_direction (pat_match pim ms (concat pss ! k)))),
                mr_table_off = of_nat (length (concat (take k pss))),
                mr_table_len = of_nat (length (state_patterns d f))\<rparr>\<rparr>)"
proof -
  note path = match_regex_rev_path_run [OF wf h s st names depth, folded f_def]
  have N: "N \<le> 2 ^ 20" using h by (simp add: holds_automaton_def DFA_MAX_SIZE_def)
  have lo: "unat (b_fin_min b) \<le> f" and hi: "f \<le> unat (b_fin_max b)"
    using h acc path(3) unfolding holds_automaton_def by blast+
  have k: "k < length pss" and pk: "pss ! k = state_patterns d f"
    using lo hi by (simp_all add: pss final_patterns_def k_def del: upt_Suc)
  have "k < length (concat pss)"
    using le_length_concat [of pss] final_patterns_nonempty [OF wf h top] k unfolding pss by simp
  then have red: "redirect_table_at mem b (of_nat k) = redirect_byte (m_direction (pat_match pim ms (concat pss ! k)))"
    using t unfolding holds_tables_def by blast
  have uf: "unat (of_nat f :: u32) = f" using path(3) N by (intro unat_of_nat_u32) simp
  have off: "of_nat f - b_fin_min b = of_nat k"
    using lo by (simp add: k_def of_nat_diff)
  note sl = holds_tables_slice [OF t k, unfolded pk]
  have len: "unat (of_nat (length (state_patterns d f)) :: u32) = length (state_patterns d f)"
    using sl(5) by (intro unat_of_nat_u32) simp
  have rng: "\<not> (of_nat f < b_fin_min b \<or> b_fin_max b < of_nat f)"
    using lo hi by (simp add: word_less_nat_alt uf)
  let ?b = "b\<lparr>b_start := of_nat f\<rparr>"
  have upd: "slices_at mem ?b i = slices_at mem b i" "redirect_table_at mem ?b i = redirect_table_at mem b i"
    "uid_table_at mem ?b i = uid_table_at mem b i" for i
    by (simp_all add: slices_at_def redirect_table_at_def uid_table_at_def)
  have red_uint: "uint (ucast (redirect_byte x) :: u32) = uint (redirect_byte x)" for x
    by (cases x) simp_all
  show ?thesis
    using path(2) [OF acc] slice_uids [OF t k, of uid, unfolded pk] rng
    by (simp add: needs_mark_uncached_def match_ctx_init_def Let_def upd off sl red red_uint len
        del: length_concat)
qed

end
