(* ===== verification/Automata.thy ===== *)
theory Automata
  imports Bpf
begin

text \<open>
  Concrete instances of the parameters of \<open>Dfa\<close>: automata given by their transition table,
  which satisfy what the crate documents, and a \<open>libs\<close> built on them.  The witnesses
  evaluate the model on these.
\<close>

definition table_nth :: "nat list \<Rightarrow> nat \<Rightarrow> nat" where
  "table_nth t i = (if i < length t then t ! i else 0)"

text \<open>
  The states \<open>lo..hi\<close> match, state \<open>s\<close> the patterns \<open>pats ! ((s - lo) div stride)\<close>.
\<close>

definition table_dense ::
  "(u8 \<Rightarrow> u8) \<Rightarrow> nat \<Rightarrow> nat \<Rightarrow> nat list \<Rightarrow> nat \<Rightarrow> nat \<Rightarrow> nat list list \<Rightarrow> (string \<Rightarrow> nat option) \<Rightarrow> dense" where
  "table_dense cls stride start t lo hi pats search =
    \<lparr>d_class = cls, d_eoi = stride - 1, d_representatives = [], d_alphabet_len = stride, d_stride = stride,
     d_start = (\<lambda>anchored. Inr start),
     d_next = (\<lambda>s b. table_nth t (s + unat (cls b))), d_next_eoi = (\<lambda>s. table_nth t (s + (stride - 1))),
     d_is_dead = (\<lambda>s. s = 0), d_is_quit = (\<lambda>s. False), d_is_match = (\<lambda>s. lo \<le> s \<and> s \<le> hi),
     d_match_len = (\<lambda>s. length (pats ! ((s - lo) div stride))),
     d_match_pattern = (\<lambda>s i. pats ! ((s - lo) div stride) ! i),
     d_search = (\<lambda>s. Inr (search s))\<rparr>"

lemma table_dense_wf:
  assumes cls: "cls 0 = 0" "\<forall>b. unat (cls b) < stride - 1" and stride: "stride \<le> 257"
    and dead: "\<forall>i < stride. table_nth t i = 0" and lo: "0 < lo" "0 < stride"
    and pats: "\<forall>s. lo \<le> s \<and> s \<le> hi \<longrightarrow> pats ! ((s - lo) div stride) \<noteq> []"
  shows "dense_wf (table_dense cls stride start t lo hi pats search)"
proof -
  have "unat (cls b) < stride" for b using cls(2) [rule_format, of b] by simp
  then show ?thesis
    using assms by (auto simp: dense_wf_def table_dense_def)
qed

definition table_libs :: "dense \<Rightarrow> libs" where
  "table_libs d =
    \<lparr>l_escape = (\<lambda>s. s), l_build_many = (\<lambda>reverse limit pats. Inr d),
     l_align = (\<lambda>a. a @ replicate ((4 - length a mod 4) mod 4) 0),
     l_parse_ipnet = (\<lambda>s. Inl ''ipnet''), l_parse_ipv4net = (\<lambda>s. Inl ''ipv4net'')\<rparr>"

lemma table_libs_sel: "l_build_many (table_libs d) reverse limit pats = Inr d"
  by (simp add: table_libs_def)

lemma table_libs_align [simp]: "align_wf (l_align (table_libs d))"
proof -
  have dvd: "4 dvd n + (4 - n mod 4) mod 4" for n :: nat
  proof -
    consider "n mod 4 = 0" | "n mod 4 = 1" | "n mod 4 = 2" | "n mod 4 = 3" by linarith
    then show ?thesis by cases (simp_all, presburger+)
  qed
  then show ?thesis by (simp add: align_wf_def table_libs_def)
qed

text \<open>
  A one-class automaton: the empty path ends in state 4 with the patterns \<open>p0\<close>, every
  other path in state 6 with the patterns \<open>p1\<close>.
\<close>

definition two_dense :: "nat list \<Rightarrow> nat list \<Rightarrow> dense" where
  "two_dense p0 p1 = table_dense (\<lambda>c. 0) 2 2 [0, 0, 8, 4, 0, 0, 0, 0, 8, 6] 4 6 [p0, p1] (\<lambda>s. None)"

lemma map_upt_nth: "map (\<lambda>i. f (xs ! i)) [0..<length xs] = map f xs"
  by (rule nth_equalityI) simp_all

lemma table_dense_sel:
  fixes cls stride start t lo hi pats search
  defines "d \<equiv> table_dense cls stride start t lo hi pats search"
  shows "d_class d = cls" "d_eoi d = stride - 1" "d_stride d = stride" "d_start d anchored = Inr start"
    and "d_next d s b = table_nth t (s + unat (cls b))" "d_next_eoi d s = table_nth t (s + (stride - 1))"
    and "d_is_dead d s \<longleftrightarrow> s = 0" "\<not> d_is_quit d s" "d_is_match d s \<longleftrightarrow> lo \<le> s \<and> s \<le> hi"
    and "state_patterns d s = map of_nat (pats ! ((s - lo) div stride))"
    and "d_search d x = Inr (search x)"
    and "d_alphabet_len d = stride" and "d_representatives d = []"
  by (simp_all add: d_def table_dense_def state_patterns_def map_upt_nth)

lemmas two_sel = table_dense_sel [of "\<lambda>c. 0" 2 2 "[0, 0, 8, 4, 0, 0, 0, 0, 8, 6]" 4 6 "[p0, p1]"
    "\<lambda>s. None" for p0 p1, folded two_dense_def]

lemma two_dense_wf:
  assumes "p0 \<noteq> []" "p1 \<noteq> []"
  shows "dense_wf (two_dense p0 p1)"
  unfolding two_dense_def
proof (rule table_dense_wf)
  show "\<forall>s. 4 \<le> s \<and> s \<le> 6 \<longrightarrow> [p0, p1] ! ((s - 4) div 2) \<noteq> []"
  proof (intro allI impI)
    fix s :: nat assume "4 \<le> s \<and> s \<le> 6"
    then have "(s - 4) div 2 = 0 \<or> (s - 4) div 2 = 1" by linarith
    with assms show "[p0, p1] ! ((s - 4) div 2) \<noteq> []" by (elim disjE) simp_all
  qed
  show "\<forall>i < 2. table_nth [0, 0, 8, 4, 0, 0, 0, 0, 8, 6] i = 0"
    by (simp add: table_nth_def eval_nat_numeral less_Suc_eq)
qed simp_all

lemma two_extract:
  assumes "p0 \<noteq> []" "p1 \<noteq> []"
  shows "dfa_extract (two_dense p0 p1) True = Inr
    \<lparr>dfa_nclasses = 2, dfa_eoi_class = 1, dfa_ec_table = extract_ec_table (two_dense p0 p1),
     dfa_ec_reps = [], dfa_ec_classes = extract_classes (two_dense p0 p1),
     dfa_stride = 2, dfa_trans = [0, 0, 8, 4, 0, 0, 0, 0, 8, 6],
     dfa_pats = [map of_nat p0, map of_nat p0, map of_nat p1], dfa_fin_min = 4, dfa_fin_max = 6,
     dfa_quit = [], dfa_start = 2\<rparr>"
proof -
  let ?d = "two_dense p0 p1"
  have upt: "[0..<10] = [0, 1, 2, 3, 4, 5, 6, 7, 8, 9 :: nat]" by (simp add: upt_rec)
  have loop: "extract_loop ?d 0 2 (acc_upto ?d 0) = Inr (acc_upto ?d 10)"
    by (simp add: extract_loop.simps extract_step_upto STATE_ID_MAX_def two_sel table_nth_def)
      (simp add: eval_nat_numeral)
  have acc: "acc_upto ?d 10 =
    \<lparr>x_trans = [0, 0, 8, 4, 0, 0, 0, 0, 8, 6], x_dead = [0], x_quit = [], x_fin = [4, 5, 6],
     x_pats = [map of_nat p0, map of_nat p0, map of_nat p1, [], [], []]\<rparr>"
    by (simp add: acc_upto_def two_sel table_nth_def upt slot_patterns_def)
  show ?thesis
    using loop [unfolded acc_upto_0 acc] assms
    by (simp add: dfa_extract_def extract_finish_def DFA_MAX_SIZE_def STATE_SIZE_def STATE_ID_MAX_def DEAD_def
      trim_pats_def two_sel upt_rec)
qed

lemma two_dense_final:
  "dense_final (two_dense p0 p1) 2 path = (if path = [] then 4 else 6)"
proof -
  have run: "dense_run (two_dense p0 p1) 8 bs = 8" for bs
    by (induction bs) (simp_all add: dense_run_def two_sel table_nth_def)
  show ?thesis
    using run by (cases "rev path") (simp_all add: dense_final_def dense_run_def two_sel table_nth_def)
qed

text \<open>The arena that \<open>encode_dfa\<close> writes for this automaton.\<close>

lemma two_encode:
  fixes p0 p1 pim ms
  defines "lib \<equiv> table_libs (two_dense p0 p1)"
  assumes ne: "p0 \<noteq> []" "p1 \<noteq> []" and len: "length (p0 @ p1) < 1000"
    and ok: "list_all (pat_ok pim ms) (map of_nat (p0 @ p1))"
  obtains arena b where "encode_dfa lib pats [] pim ms = Inr (arena, b)" and "length arena \<le> ARENA_SIZE"
    and "b_fin_min b = 4" "b_fin_max b = 6" "b_start b = 2"
proof -
  note ex = two_extract [OF ne]
  have ext: "extract_dfa lib pats = dfa_extract (two_dense p0 p1) True" for pats
    by (simp add: lib_def extract_dfa_def build_dfa_def table_libs_def)
  show thesis
  proof (rule encode_dfa_ok [of lib pats _ pim ms "two_dense p0 p1"])
    show "align_wf (l_align lib)" by (simp add: lib_def)
  qed (use ex ok len in \<open>auto simp: ext ARENA_SIZE_def intro: that\<close>)
qed

lemma two_pattern: "d_match_pattern (two_dense p0 p1) 6 = (\<lambda>i. p1 ! i)"
  by (simp add: two_dense_def table_dense_def fun_eq_iff)

text \<open>The two matches of the examples: a bypass for any user, a redirect for user 7.\<close>

definition two_matches :: Matches where
  "two_matches = matches_default\<lparr>ms_matches :=
    [match_default\<lparr>m_direction := Direction_bypass, m_uid := 0\<rparr>,
     match_default\<lparr>m_direction := Direction_redirect, m_uid := 7\<rparr>]\<rparr>"

section \<open>A builder that satisfies its contract\<close>

text \<open>No pattern gives an automaton that accepts nothing, any others one that accepts
  every input for pattern 0.\<close>

definition none_dense :: dense where
  "none_dense = table_dense (\<lambda>c. 0) 2 2 [0, 0, 0, 0] 1 0 [] (\<lambda>s. None)"

definition all_dense :: dense where
  "all_dense = table_dense (\<lambda>c. 0) 2 2 [0, 0, 8, 4, 0, 0, 0, 0, 8, 6] 4 6 [[0], [0]] (\<lambda>s. Some 0)"

definition all_libs :: libs where
  "all_libs = (table_libs none_dense)\<lparr>l_build_many :=
    (\<lambda>reverse limit pats. Inr (if pats = [] then none_dense else all_dense)),
    l_parse_ipnet := (\<lambda>s. Inr ()), l_parse_ipv4net := (\<lambda>s. Inr (Ipv4 10 0 0 0, 8))\<rparr>"

lemma all_dense_two: "all_dense = (two_dense [0] [0])\<lparr>d_search := (\<lambda>s. Inr (Some 0))\<rparr>"
  by (simp add: all_dense_def two_dense_def table_dense_def)

lemma dense_wf_search: "dense_wf (d\<lparr>d_search := f\<rparr>) = dense_wf d"
  by (cases d) (simp only: dense_wf_def dense.simps)

lemma table_nth_le: "\<forall>x \<in> set t. x \<le> k \<Longrightarrow> table_nth t i \<le> k"
  by (simp add: table_nth_def)

lemma all_dense_wf: "dense_wf all_dense" "dense_layout all_dense 10" "patterns_wf all_dense (Suc n)"
proof -
  show "dense_wf all_dense"
    using two_dense_wf [of "[0]" "[0]"] by (simp add: all_dense_two dense_wf_search)
  have "table_nth [0, 0, 8, 4, 0, 0, 0, 0, 8, 6] i \<le> 8" for i
    by (rule table_nth_le) simp
  moreover have "table_nth [0, 0, 8, 4, 0, 0, 0, 0, 8, 6] i = 0" if "i < 2" for i
    using that by (auto simp: table_nth_def less_2_cases_iff)
  ultimately show "dense_layout all_dense 10"
    by (auto simp: dense_layout_def all_dense_def table_dense_sel STATE_ID_MAX_def)
  have "(s - 4) div 2 = 0 \<or> (s - 4) div 2 = 1" if "4 \<le> s \<and> s \<le> 6" for s :: nat
    using that by linarith
  then show "patterns_wf all_dense (Suc n)"
    by (fastforce simp: patterns_wf_def all_dense_def table_dense_def)
qed

lemma none_dense_wf: "dense_wf none_dense" "dense_layout none_dense 4" "patterns_wf none_dense n"
proof -
  have z: "table_nth [0, 0, 0, 0] i = 0" for i
    by (auto simp: table_nth_def less_Suc_eq numeral_eq_Suc)
  show "dense_wf none_dense"
    unfolding none_dense_def by (rule table_dense_wf) (simp_all add: z)
  show "dense_layout none_dense 4"
    by (auto simp: dense_layout_def none_dense_def table_dense_sel z STATE_ID_MAX_def)
  show "patterns_wf none_dense n"
    by (simp add: patterns_wf_def none_dense_def table_dense_sel)
qed

lemma all_libs_sel:
  "l_build_many all_libs reverse limit pats = Inr (if pats = [] then none_dense else all_dense)"
  "l_escape all_libs x = x"
  by (simp_all add: all_libs_def table_libs_def)

lemma all_libs_wf [simp]: "build_wf all_libs"
  unfolding build_wf_def
proof (intro conjI allI impI)
  show "align_wf (l_align all_libs)"
    using table_libs_align [of none_dense] by (simp add: all_libs_def)
  fix reverse pats d assume "l_build_many all_libs reverse DFA_MAX_SIZE pats = Inr d"
  then have d: "pats = [] \<and> d = none_dense \<or> pats \<noteq> [] \<and> d = all_dense"
    by (simp add: all_libs_sel split: if_splits)
  then show "dense_wf d" "\<exists>n. dense_layout d n"
    using all_dense_wf(1,2) none_dense_wf(1,2) by auto
  show "patterns_wf d (length pats)"
    using d none_dense_wf(3) all_dense_wf(3) by (cases pats) auto
qed

end
