(* ===== verification/Bpf_Correct.thy ===== *)
theory Bpf_Correct
  imports Automata
begin

text \<open>
  From the regexes to the verdict: what the eBPF program computes on an arena written by
  \<open>encode_dfa\<close>, stated against the automaton of the crate.  The theorems compose the
  extraction, the layout and the run of the program; the last one shows where the verdict
  departs from the matches of the final state.
\<close>

text \<open>A path the program can walk: no component is longer than its buffer, no chain longer
  than its loop bound.\<close>

definition walkable :: "u8 list list \<Rightarrow> bool" where
  "walkable dents \<longleftrightarrow> (\<forall>n \<in> set dents. length n \<le> NAME_MAX + 1) \<and> length dents \<le> PATH_MAX"

text \<open>
  C1: on the arena that \<open>encode_dfa\<close> wrote, the backwards walk of the eBPF program over the
  directory entries of an executable succeeds exactly when the automaton that the crate
  built from the patterns accepts the whole path.
\<close>

theorem path_match_correct:
  assumes "encode_dfa lib pats arena0 pim ms = Inr (arena, b)" and "align_wf (l_align lib)"
    and "l_build_many lib True DFA_MAX_SIZE pats = Inr d" and "dense_wf d"
    and "length arena \<le> ARENA_SIZE" and "walkable dents"
  shows "\<exists>s0. d_start d True = Inr s0 \<and>
    (fst (match_regex_rev_path (load_arena arena mem) dents b)
      \<longleftrightarrow> d_is_match d (dense_final d s0 (full_path dents)))"
proof -
  obtain s0 N where "d_start d True = Inr s0" "b_start b = of_nat s0" "s0 + d_stride d \<le> N"
    "holds_automaton (load_arena arena mem) b d N"
    using encode_dfa_holds [OF assms(1-5)] by blast
  moreover from this match_regex_rev_path_run(1) [OF assms(4), of "load_arena arena mem" b N s0 dents] assms(6)
  have "fst (match_regex_rev_path (load_arena arena mem) dents b)
      \<longleftrightarrow> d_is_match d (dense_final d s0 (full_path dents))"
    by (simp add: walkable_def)
  ultimately show ?thesis by blast
qed

theorem path_match_correct_witness:
  "\<exists>arena b. encode_dfa (table_libs (two_dense [0] [1])) [] [] [0, 1] two_matches = Inr (arena, b) \<and>
    fst (match_regex_rev_path (load_arena arena (\<lambda>a. 0)) [[98], [97], [SLASH]] b)"
proof -
  obtain arena b where enc: "encode_dfa (table_libs (two_dense [0] [1])) [] [] [0, 1] two_matches = Inr (arena, b)"
    and size: "length arena \<le> ARENA_SIZE"
    by (rule two_encode [of "[0]" "[1]" "[0, 1]" two_matches "[]"]) (simp_all add: pat_ok_def two_matches_def)
  have "fst (match_regex_rev_path (load_arena arena (\<lambda>a. 0)) [[98], [97], [SLASH]] b)"
    using path_match_correct [OF enc _ _ two_dense_wf size, of "[0]" "[1]" "[[98], [97], [SLASH]]" "\<lambda>a. 0"]
    by (simp add: table_libs_align table_libs_sel two_sel two_dense_final walkable_def NAME_MAX_def PATH_MAX_def)
  with enc show ?thesis by blast
qed

text \<open>
  The verdict on the arena of \<open>encode_dfa\<close>, with the table of redirect flags still read
  at the offset of the state.
\<close>

lemma verdict_run:
  assumes enc: "encode_dfa lib pats arena0 pim ms = Inr (arena, b)" "align_wf (l_align lib)"
    "l_build_many lib True DFA_MAX_SIZE pats = Inr d" "dense_wf d" "length arena \<le> ARENA_SIZE"
    and path: "walkable dents" and start: "d_start d True = Inr s0"
    and acc: "d_is_match d (dense_final d s0 (full_path dents))"
  defines "f \<equiv> dense_final d s0 (full_path dents)"
  defines "pss \<equiv> final_patterns d (unat (b_fin_min b)) (unat (b_fin_max b))"
  defines "k \<equiv> f - unat (b_fin_min b)"
  shows "fst (needs_mark_uncached (load_arena arena mem) (Some dents) (match_ctx_init uid b)) =
    (if \<exists>p \<in> set (state_patterns d f). uid_applies uid (pat_match pim ms p)
     then uint (redirect_byte (m_direction (pat_match pim ms (concat pss ! k)))) else -1)"
    and "k < length pss" and "pss ! k = state_patterns d f"
    and "\<forall>ps \<in> set pss. \<exists>s. d_is_match d s \<and> ps = state_patterns d s"
proof -
  obtain N where h: "b_start b = of_nat s0" "s0 + d_stride d \<le> N"
    "holds_automaton (load_arena arena mem) b d N" "unat (b_fin_max b) < N"
    "holds_tables (load_arena arena mem) b pss pim ms"
    unfolding pss_def using encode_dfa_holds [OF enc] start by (metis sum.inject(2))
  have w: "\<forall>n \<in> set dents. length n \<le> NAME_MAX + 1" "length dents \<le> PATH_MAX"
    using path by (simp_all add: walkable_def)
  note run = needs_mark_uncached_run [OF enc(4) h(3,2,1) w h(4,5) pss_def [THEN meta_eq_to_obj_eq] acc]
  show "fst (needs_mark_uncached (load_arena arena mem) (Some dents) (match_ctx_init uid b)) =
    (if \<exists>p \<in> set (state_patterns d f). uid_applies uid (pat_match pim ms p)
     then uint (redirect_byte (m_direction (pat_match pim ms (concat pss ! k)))) else -1)"
    by (simp add: run f_def k_def del: length_concat)
  have fN: "f < N"
    using match_regex_rev_path_run(3) [OF enc(4) h(3,2,1) w] by (simp add: f_def)
  then have rng: "unat (b_fin_min b) \<le> f" "f \<le> unat (b_fin_max b)"
    using h(3) acc unfolding holds_automaton_def f_def by blast+
  then show "k < length pss" "pss ! k = state_patterns d f"
    by (simp_all add: pss_def final_patterns_def k_def del: upt_Suc)
  show "\<forall>ps \<in> set pss. \<exists>s. d_is_match d s \<and> ps = state_patterns d s"
  proof
    fix ps assume "ps \<in> set pss"
    then obtain s where "unat (b_fin_min b) \<le> s" "s \<le> unat (b_fin_max b)" "ps = state_patterns d s"
      by (auto simp: pss_def final_patterns_def)
    moreover from this h(3,4) have "d_is_match d s" by (simp add: holds_automaton_def)
    ultimately show "\<exists>s. d_is_match d s \<and> ps = state_patterns d s" by blast
  qed
qed

text \<open>The slice of the final state gives the matches that its patterns stand for.\<close>

lemma verdict_ids:
  fixes mem :: mem and uid :: u32
  assumes enc: "encode_dfa lib pats arena0 pim ms = Inr (arena, b)" "align_wf (l_align lib)"
    "l_build_many lib True DFA_MAX_SIZE pats = Inr d" "dense_wf d" "length arena \<le> ARENA_SIZE"
    and path: "walkable dents" and start: "d_start d True = Inr s0"
    and acc: "d_is_match d (dense_final d s0 (full_path dents))"
  defines "f \<equiv> dense_final d s0 (full_path dents)"
  defines "m \<equiv> snd (needs_mark_uncached (load_arena arena mem) (Some dents) (match_ctx_init uid b))"
  shows "map (\<lambda>i. match_id_at (load_arena arena mem) (mc_dfa m) (mr_table_off (mc_res m) + of_nat i))
      [0..<unat (mr_table_len (mc_res m))] = map (\<lambda>p. of_nat (pim ! unat p)) (state_patterns d f)"
    and "\<forall>p \<in> set (state_patterns d f). pat_ok pim ms p"
proof -
  let ?pss = "final_patterns d (unat (b_fin_min b)) (unat (b_fin_max b))"
  let ?k = "f - unat (b_fin_min b)"
  obtain N where h: "b_start b = of_nat s0" "s0 + d_stride d \<le> N"
    "holds_automaton (load_arena arena mem) b d N" "unat (b_fin_max b) < N"
    "holds_tables (load_arena arena mem) b ?pss pim ms"
    using encode_dfa_holds [OF enc] start by (metis sum.inject(2))
  have w: "\<forall>n \<in> set dents. length n \<le> NAME_MAX + 1" "length dents \<le> PATH_MAX"
    using path by (simp_all add: walkable_def)
  note run = needs_mark_uncached_run [OF enc(4) h(3,2,1) w h(4,5) refl acc, of uid, folded f_def]
  note k = verdict_run(2,3) [OF enc path start acc, folded f_def]
  note sl = holds_tables_slice [OF h(5) k(1), unfolded k(2)]
  have len: "unat (of_nat (length (state_patterns d f)) :: u32) = length (state_patterns d f)"
    using sl(5) by (intro unat_of_nat_u32) simp
  have ids: "match_id_at (load_arena arena mem) (b\<lparr>b_start := of_nat f\<rparr>) (of_nat (length (concat (take ?k ?pss))) + of_nat i) =
      of_nat (pim ! unat (state_patterns d f ! i))" if "i < length (state_patterns d f)" for i
    using sl(4) [OF that] by (simp add: match_id_at_def del: length_concat)
  show "map (\<lambda>i. match_id_at (load_arena arena mem) (mc_dfa m) (mr_table_off (mc_res m) + of_nat i))
      [0..<unat (mr_table_len (mc_res m))] = map (\<lambda>p. of_nat (pim ! unat p)) (state_patterns d f)"
    unfolding m_def run by (rule nth_equalityI) (simp_all add: len ids del: length_concat)
  have "state_patterns d f \<in> set ?pss"
    using k nth_mem by metis
  then show "\<forall>p \<in> set (state_patterns d f). pat_ok pim ms p"
    using encode_dfa_pats_ok [OF enc(1-4)] by (auto simp: list_all_iff)
qed

lemma verdict_given:
  assumes enc: "encode_dfa lib pats arena0 pim ms = Inr (arena, b)" "align_wf (l_align lib)"
    "l_build_many lib True DFA_MAX_SIZE pats = Inr d" "dense_wf d" "length arena \<le> ARENA_SIZE"
    and path: "walkable dents" and start: "d_start d True = Inr s0"
  shows "fst (needs_mark_uncached (load_arena arena mem) (Some dents) (match_ctx_init uid b)) \<noteq> -1
    \<longleftrightarrow> d_is_match d (dense_final d s0 (full_path dents)) \<and>
        (\<exists>p \<in> set (state_patterns d (dense_final d s0 (full_path dents))). uid_applies uid (pat_match pim ms p))"
proof (cases "d_is_match d (dense_final d s0 (full_path dents))")
  case True
  have "uint (redirect_byte x) \<noteq> -1" for x by (cases x) simp_all
  then show ?thesis
    using True verdict_run(1) [OF enc path start True, of mem uid] by auto
next
  case False
  obtain N where h: "b_start b = of_nat s0" "s0 + d_stride d \<le> N"
    "holds_automaton (load_arena arena mem) b d N"
    using encode_dfa_holds [OF enc] start by (metis sum.inject(2))
  then have "\<not> fst (match_regex_rev_path (load_arena arena mem) dents b)"
    using False path match_regex_rev_path_run(1) [OF enc(4) h(3,2,1), of dents] by (simp add: walkable_def)
  then show ?thesis
    using False by (auto simp: needs_mark_uncached_def match_ctx_init_def split: prod.splits bool.splits)
qed

text \<open>
  A task gets a verdict at all (the result is not -1) exactly when the automaton accepts
  the path of its executable and one of the matches behind the final state is for every
  user or for the user of the task.
\<close>

theorem verdict_given_iff:
  assumes enc: "encode_dfa lib pats arena0 pim ms = Inr (arena, b)" "align_wf (l_align lib)"
    "l_build_many lib True DFA_MAX_SIZE pats = Inr d" "dense_wf d" "length arena \<le> ARENA_SIZE"
    and path: "walkable dents" and start: "d_start d True = Inr s0"
  shows "fst (needs_mark_uncached (load_arena arena mem) (Some dents) (match_ctx_init uid b)) \<noteq> -1
    \<longleftrightarrow> d_is_match d (dense_final d s0 (full_path dents)) \<and>
        (\<exists>p \<in> set (state_patterns d (dense_final d s0 (full_path dents))). uid_applies uid (pat_match pim ms p))"
  by (rule verdict_given [OF assms])

theorem verdict_given_iff_witness:
  "\<exists>arena b. encode_dfa (table_libs (two_dense [0] [1])) [] [] [0, 1] two_matches = Inr (arena, b) \<and>
    fst (needs_mark_uncached (load_arena arena (\<lambda>a. 0)) (Some [[98], [SLASH]]) (match_ctx_init 7 b)) \<noteq> -1 \<and>
    fst (needs_mark_uncached (load_arena arena (\<lambda>a. 0)) (Some [[98], [SLASH]]) (match_ctx_init 8 b)) = -1"
proof -
  obtain arena b where enc: "encode_dfa (table_libs (two_dense [0] [1])) [] [] [0, 1] two_matches = Inr (arena, b)"
    and size: "length arena \<le> ARENA_SIZE"
    by (rule two_encode [of "[0]" "[1]" "[0, 1]" two_matches "[]"]) (simp_all add: pat_ok_def two_matches_def)
  have path: "full_path [[98], [SLASH]] \<noteq> []" by (simp add: full_path_def SLASH_def)
  have "fst (needs_mark_uncached (load_arena arena (\<lambda>a. 0)) (Some [[98], [SLASH]]) (match_ctx_init uid b)) \<noteq> -1
      \<longleftrightarrow> uid = 7" for uid
    using verdict_given_iff [OF enc table_libs_align _ two_dense_wf size, of "[0]" "[1]" "[[98], [SLASH]]" 2 "\<lambda>a. 0" uid] path
    by (simp add: table_libs_sel two_sel two_dense_final walkable_def NAME_MAX_def PATH_MAX_def
        pat_match_def two_matches_def uid_applies_def)
  from this [of 7] this [of 8] enc show ?thesis by auto
qed

lemma verdict_single:
  assumes enc: "encode_dfa lib pats arena0 pim ms = Inr (arena, b)" "align_wf (l_align lib)"
    "l_build_many lib True DFA_MAX_SIZE pats = Inr d" "dense_wf d" "length arena \<le> ARENA_SIZE"
    and path: "walkable dents" and start: "d_start d True = Inr s0"
    and acc: "d_is_match d (dense_final d s0 (full_path dents))"
    and one: "\<forall>s. d_is_match d s \<longrightarrow> d_match_len d s = 1"
  defines "m \<equiv> pat_match pim ms (of_nat (d_match_pattern d (dense_final d s0 (full_path dents)) 0))"
  shows "fst (needs_mark_uncached (load_arena arena mem) (Some dents) (match_ctx_init uid b)) =
    (if uid_applies uid m then uint (redirect_byte (m_direction m)) else -1)"
proof -
  let ?f = "dense_final d s0 (full_path dents)"
  let ?pss = "final_patterns d (unat (b_fin_min b)) (unat (b_fin_max b))"
  note run = verdict_run [OF enc path start acc]
  have sp: "state_patterns d s = [of_nat (d_match_pattern d s 0)]" if "d_is_match d s" for s
    using one that by (simp add: state_patterns_def)
  then have "\<forall>ps \<in> set ?pss. length ps = 1"
    using run(4) by fastforce
  then have "concat ?pss ! k = hd (?pss ! k)" if "k < length ?pss" for k
    using that by (rule nth_concat_singletons)
  then have "concat ?pss ! (?f - unat (b_fin_min b)) = of_nat (d_match_pattern d ?f 0)"
    using run(2,3) sp [OF acc] by simp
  then show ?thesis
    using run(1) [of mem uid] by (simp add: sp [OF acc] m_def)
qed

text \<open>
  When every match state of the automaton has a single pattern, the verdict for an
  accepted path is the direction of the match that the final state stands for.
\<close>

theorem verdict_single_pattern:
  assumes enc: "encode_dfa lib pats arena0 pim ms = Inr (arena, b)" "align_wf (l_align lib)"
    "l_build_many lib True DFA_MAX_SIZE pats = Inr d" "dense_wf d" "length arena \<le> ARENA_SIZE"
    and path: "walkable dents" and start: "d_start d True = Inr s0"
    and acc: "d_is_match d (dense_final d s0 (full_path dents))"
    and one: "\<forall>s. d_is_match d s \<longrightarrow> d_match_len d s = 1"
  defines "m \<equiv> pat_match pim ms (of_nat (d_match_pattern d (dense_final d s0 (full_path dents)) 0))"
  shows "fst (needs_mark_uncached (load_arena arena mem) (Some dents) (match_ctx_init uid b)) =
    (if uid_applies uid m then uint (redirect_byte (m_direction m)) else -1)"
  unfolding m_def by (rule verdict_single [OF assms(1-9)])

theorem verdict_single_pattern_witness:
  "\<exists>arena b. encode_dfa (table_libs (two_dense [0] [1])) [] [] [0, 1] two_matches = Inr (arena, b) \<and>
    fst (needs_mark_uncached (load_arena arena (\<lambda>a. 0)) (Some [[98], [SLASH]]) (match_ctx_init 7 b)) = 1"
proof -
  obtain arena b where enc: "encode_dfa (table_libs (two_dense [0] [1])) [] [] [0, 1] two_matches = Inr (arena, b)"
    and size: "length arena \<le> ARENA_SIZE"
    by (rule two_encode [of "[0]" "[1]" "[0, 1]" two_matches "[]"]) (simp_all add: pat_ok_def two_matches_def)
  have path: "full_path [[98], [SLASH]] \<noteq> []" by (simp add: full_path_def SLASH_def)
  have "(s - 4) div 2 = 0 \<or> (s - 4) div 2 = 1" if "4 \<le> s \<and> s \<le> 6" for s :: nat using that by linarith
  then have one: "\<forall>s. d_is_match (two_dense [0] [1]) s \<longrightarrow> d_match_len (two_dense [0] [1]) s = 1"
    by (force simp: two_dense_def table_dense_def)
  have "fst (needs_mark_uncached (load_arena arena (\<lambda>a. 0)) (Some [[98], [SLASH]]) (match_ctx_init 7 b)) = 1"
    using verdict_single_pattern [OF enc table_libs_align _ two_dense_wf size _ _ _ one,
        of "[[98], [SLASH]]" 2 "\<lambda>a. 0" 7] path
    by (simp add: table_libs_sel two_sel two_dense_final walkable_def NAME_MAX_def PATH_MAX_def
        two_pattern pat_match_def two_matches_def uid_applies_def)
  with enc show ?thesis by blast
qed

text \<open>
  With states that have several patterns the verdict can be wrong.  Here the only
  pattern of the final state is the redirect match of user 7, and the program answers
  bypass: it reads the redirect flag at the offset of the state, the table has one entry
  for each pattern of each state.
\<close>

theorem verdict_wrong_flag:
  "\<exists>arena b. encode_dfa (table_libs (two_dense [0, 1] [1])) [] [] [0, 1] two_matches = Inr (arena, b) \<and>
    map (\<lambda>p. m_direction (pat_match [0, 1] two_matches p))
      (state_patterns (two_dense [0, 1] [1]) (dense_final (two_dense [0, 1] [1]) 2 (full_path [[98], [SLASH]])))
      = [Direction_redirect] \<and>
    fst (needs_mark_uncached (load_arena arena mem) (Some [[98], [SLASH]]) (match_ctx_init 7 b))
      = uint (redirect_byte Direction_bypass)"
proof -
  let ?d = "two_dense [0, 1] [1]"
  obtain arena b where enc: "encode_dfa (table_libs ?d) [] [] [0, 1] two_matches = Inr (arena, b)"
    and size: "length arena \<le> ARENA_SIZE" and fin: "b_fin_min b = 4" "b_fin_max b = 6"
    by (rule two_encode [of "[0, 1]" "[1]" "[0, 1]" two_matches "[]"]) (simp_all add: pat_ok_def two_matches_def)
  have path: "full_path [[98], [SLASH]] \<noteq> []" by (simp add: full_path_def SLASH_def)
  have pss: "final_patterns ?d 4 6 = [[0, 1], [0, 1], [1]]"
    by (simp add: final_patterns_def two_sel upt_rec)
  have pats: "state_patterns ?d (dense_final ?d 2 (full_path [[98], [SLASH]])) = [1]"
    using path by (simp add: two_sel two_dense_final)
  have "fst (needs_mark_uncached (load_arena arena mem) (Some [[98], [SLASH]]) (match_ctx_init 7 b)) = 0"
    using verdict_run(1) [OF enc table_libs_align _ two_dense_wf size, of "[0, 1]" "[1]" "[[98], [SLASH]]" 2 mem 7]
      path pss pats
    by (simp add: table_libs_sel two_sel two_dense_final walkable_def NAME_MAX_def PATH_MAX_def fin
        pat_match_def two_matches_def uid_applies_def)
  moreover have "m_direction (pat_match [0, 1] two_matches 1) = Direction_redirect"
    by (simp add: pat_match_def two_matches_def)
  ultimately show ?thesis
    using enc unfolding pats by auto
qed

end
