(* ===== verification/Layout.thy ===== *)
theory Layout
  imports Bpf_Correct
begin

text \<open>
  The arena as the eBPF program types it: where each table starts and ends, and that whatever the program
  reads from one table stays within it when it is used as an index into another.
\<close>

text \<open>\<open>N\<close> slots of transitions, \<open>k\<close> entries in each of the three tables of matches.\<close>

definition arena_typed :: "u8 list \<Rightarrow> mem \<Rightarrow> bpf_DFA \<Rightarrow> nat \<Rightarrow> nat \<Rightarrow> bool" where
  "arena_typed arena mem b N k \<longleftrightarrow>
    4 dvd unat (b_dfa_off b) \<and> 4 dvd unat (b_match_slices_off b) \<and>
    unat (b_dfa_off b) + 256 + 4 * N \<le> unat (b_match_slices_off b) \<and>
    unat (b_fin_min b) \<le> unat (b_fin_max b) \<and> unat (b_fin_max b) < N \<and>
    unat (b_redirect_table_off b) = unat (b_match_slices_off b) + 8 * (Suc (unat (b_fin_max b)) - unat (b_fin_min b)) \<and>
    unat (b_uid_table_off b) = unat (b_redirect_table_off b) + k \<and>
    unat (b_match_id_table_off b) = unat (b_uid_table_off b) + 4 * k \<and>
    length arena = unat (b_match_id_table_off b) + 4 * k \<and>
    unat (b_start b) + unat (b_eoi b) < N \<and> (\<forall>c. unat (b_start b) + unat (table_at mem b c) < N) \<and>
    (\<forall>i < N. unat (states_at mem b (of_nat i)) + unat (b_eoi b) < N \<and>
       (\<forall>c. unat (states_at mem b (of_nat i)) + unat (table_at mem b c) < N)) \<and>
    (\<forall>i \<le> unat (b_fin_max b) - unat (b_fin_min b).
       i < k \<and> unat (slices_at mem b (of_nat i * 2)) + unat (slices_at mem b (of_nat i * 2 + 1)) \<le> k)"

lemma encode_dfa_aligned:
  assumes "encode_dfa lib pats arena0 pim ms = Inr (arena, b)" and al: "align_wf (l_align lib)"
  shows "4 dvd unat (b_dfa_off b) \<and> 4 dvd unat (b_match_slices_off b)"
proof -
  have "4 dvd unat (of_nat (length (l_align lib a)) :: u32)" for a
    using al by (simp add: align_wf_def unat_of_nat take_bit_eq_mod dvd_mod_iff)
  with assms(1) show ?thesis
    by (auto simp: encode_dfa_def rbind_eq_Inr Let_def)
qed

text \<open>
  C11: the arena that \<open>encode_dfa\<close> writes is well typed.  The table of classes and the transitions, the
  slices of the final states, the redirect flags, the users and the identifiers follow one another up to
  the end, the first and the third start at a multiple of four; every state that is read leads to a
  slot of the table with any byte and at the end of input, and every slice of a final state lies in the
  tables of matches, as does the redirect flag that is read at the index of the state.
\<close>

theorem arena_well_typed:
  assumes enc: "encode_dfa lib pats arena0 pim ms = Inr (arena, b)" and al: "align_wf (l_align lib)"
    and build: "l_build_many lib True DFA_MAX_SIZE pats = Inr d" and wf: "dense_wf d"
    and size: "length arena \<le> ARENA_SIZE"
  shows "\<exists>N k. arena_typed arena (load_arena arena mem) b N k"
proof -
  let ?M = "load_arena arena mem"
  define pss where "pss = final_patterns d (unat (b_fin_min b)) (unat (b_fin_max b))"
  define k where "k = length (concat pss)"
  obtain s0 N where s0: "b_start b = of_nat s0" "s0 + d_stride d \<le> N" and h: "holds_automaton ?M b d N"
    and fin: "unat (b_fin_min b) \<le> unat (b_fin_max b)" "unat (b_fin_max b) < N" and t: "holds_tables ?M b pss pim ms"
    and place: "unat (b_dfa_off b) + 256 + 4 * N \<le> unat (b_match_slices_off b)"
      "unat (b_redirect_table_off b) = unat (b_match_slices_off b) + 8 * (Suc (unat (b_fin_max b)) - unat (b_fin_min b))"
      "unat (b_uid_table_off b) = unat (b_redirect_table_off b) + k" "unat (b_match_id_table_off b) = unat (b_uid_table_off b) + 4 * k"
      "length arena = unat (b_match_id_table_off b) + 4 * k"
    using encode_dfa_places [OF enc al build wf size, of mem] unfolding k_def pss_def by blast
  have h': "table_at ?M b c = d_class d c" "i < N \<Longrightarrow> states_at ?M b (of_nat i) = of_nat (d_next d i 0)"
    "i < N \<Longrightarrow> d_next d i 0 + d_stride d \<le> N" "b_eoi b = of_nat (d_eoi d)" "4 * N \<le> DFA_MAX_SIZE" for c i
    using h unfolding holds_automaton_def by blast+
  have small: "n \<le> N \<Longrightarrow> unat (of_nat n :: u32) = n" for n
    using h'(5) by (intro unat_of_nat_u32) (simp add: DFA_MAX_SIZE_def)
  have eoi: "unat (b_eoi b) < d_stride d"
    unfolding h'(4) using dense_wfD(3,4) [OF wf] by (simp add: unat_of_nat_u16)
  have slot: "n + d_stride d \<le> N \<Longrightarrow> unat (of_nat n :: u32) + unat (b_eoi b) < N \<and> unat (of_nat n :: u32) + unat (table_at ?M b c) < N" for n c
    using small [of n] eoi dense_wfD(2) [OF wf, of c] by (simp add: h'(1))
  have len: "length pss = Suc (unat (b_fin_max b)) - unat (b_fin_min b)"
    by (simp add: pss_def final_patterns_def del: upt_Suc)
  have "length pss \<le> k"
    unfolding k_def pss_def by (intro le_length_concat final_patterns_nonempty [OF wf h fin(2)])
  moreover have "unat (slices_at ?M b (of_nat i * 2)) + unat (slices_at ?M b (of_nat i * 2 + 1)) \<le> k" if i: "i < length pss" for i
  proof -
    have "concat pss = concat (take i pss) @ pss ! i @ concat (drop (Suc i) pss)"
      using i by (metis append_take_drop_id Cons_nth_drop_Suc concat.simps(2) concat_append)
    then have le: "length (concat (take i pss)) + length (pss ! i) \<le> k"
      unfolding k_def by (metis length_append le_add1 add.assoc)
    have "k < 2 ^ 32" using t by (simp add: holds_tables_def k_def del: length_concat)
    with le have "unat (of_nat (length (concat (take i pss))) :: u32) = length (concat (take i pss))"
      "unat (of_nat (length (pss ! i)) :: u32) = length (pss ! i)"
      by (simp_all add: unat_of_nat_u32 del: length_concat)
    with le show ?thesis unfolding holds_tables_slice(1,2) [OF t i] by simp
  qed
  ultimately have "arena_typed arena ?M b N k"
    using encode_dfa_aligned [OF enc al] place fin slot [OF s0(2)] slot [OF h'(3)] s0(1) len
    unfolding arena_typed_def by (auto simp: h'(2))
  then show ?thesis by blast
qed

theorem arena_well_typed_witness:
  "\<exists>arena b N k. encode_dfa (table_libs (two_dense [0] [1])) [] [] [0, 1] two_matches = Inr (arena, b)
    \<and> arena_typed arena (load_arena arena (\<lambda>a. 0)) b N k"
proof -
  obtain arena b where enc: "encode_dfa (table_libs (two_dense [0] [1])) [] [] [0, 1] two_matches = Inr (arena, b)"
    and size: "length arena \<le> ARENA_SIZE"
    by (rule two_encode [of "[0]" "[1]" "[0, 1]" two_matches "[]"]) (simp_all add: pat_ok_def two_matches_def)
  have "\<exists>N k. arena_typed arena (load_arena arena (\<lambda>a. 0)) b N k"
    by (rule arena_well_typed [OF enc table_libs_align table_libs_sel two_dense_wf size]) simp_all
  with enc show ?thesis by blast
qed

end
