(* ===== verification/Netlink_Io.thy ===== *)
theory Netlink_Io
  imports Config_Types
begin

text \<open>
  The netlink requests the daemon sends and the kernel that answers them.  The kernel and
  the socket library are a parameter: a reply is any function of the requests sent so far,
  the one being answered last.  An operation on a socket takes the log of requests and
  returns it extended, with its result; \<^verbatim>\<open>sock.request(&req)?\<close> followed by
  \<^verbatim>\<open>recv_ack\<close>, \<^verbatim>\<open>recv_one\<close> or a loop over \<^verbatim>\<open>recv\<close> is one such operation.
\<close>

section \<open>Requests\<close>

definition RTPROT_BOOT :: u8 where "RTPROT_BOOT = 3"
definition RTN_UNICAST :: u8 where "RTN_UNICAST = 1"
definition RT_SCOPE_LINK :: u8 where "RT_SCOPE_LINK = 253"
definition RT_SCOPE_NOWHERE :: u8 where "RT_SCOPE_NOWHERE = 255"
definition RT_TABLE_MAIN :: nat where "RT_TABLE_MAIN = 254"
definition FR_ACT_TO_TBL :: u8 where "FR_ACT_TO_TBL = 1"
definition FR_ACT_UNREACHABLE :: u8 where "FR_ACT_UNREACHABLE = 7"

text \<open>An IPv4 routing rule: flags, the fields of \<^verbatim>\<open>FibRuleHdr\<close>, the attributes pushed.\<close>

record rule_req =
  rr_create :: bool
  rr_excl :: bool
  rr_src_len :: u8
  rr_dst_len :: u8
  rr_action :: u8
  rr_src :: "ip_addr option"
  rr_dst :: "ip_addr option"
  rr_table :: "u32 option"
  rr_priority :: "u32 option"
  rr_fwmark :: "u32 option"
  rr_fwmask :: "u32 option"

definition rule_default :: rule_req where
  "rule_default = \<lparr>rr_create = False, rr_excl = False, rr_src_len = 0, rr_dst_len = 0, rr_action = 0,
    rr_src = None, rr_dst = None, rr_table = None, rr_priority = None, rr_fwmark = None, rr_fwmask = None\<rparr>"

text \<open>An IPv4 route: flags, the fields of \<^verbatim>\<open>Rtmsg\<close>, the attributes pushed.\<close>

record route_req =
  q_create :: bool
  q_excl :: bool
  q_replace :: bool
  q_dst_len :: u8
  q_hdr_table :: u8
  q_protocol :: u8
  q_scope :: u8
  q_type :: u8
  q_dst :: "ip_addr option"
  q_table :: "u32 option"
  q_oif :: "u32 option"
  q_prefsrc :: "ip_addr option"
  q_gateway :: "ip_addr option"

definition route_default :: route_req where
  "route_default = \<lparr>q_create = False, q_excl = False, q_replace = False, q_dst_len = 0, q_hdr_table = 0,
    q_protocol = 0, q_scope = 0, q_type = 0, q_dst = None, q_table = None, q_oif = None,
    q_prefsrc = None, q_gateway = None\<rparr>"

text \<open>Expressions of an nftables rule.\<close>

datatype nft_expr =
    NftPayload nat nat nat nat
  | NftCmpEq nat "u8 list"
  | NftMetaMark nat
  | NftTarget string nat nat "u8 list" "u8 list"

datatype nft_op =
    NftNewRule "u8 list" "nft_expr list"
  | NftDelRule u64

datatype link_sel = LinkByName string bool | LinkByIndex u32

datatype nl_request =
    ReqNewRule rule_req
  | ReqDelRule rule_req
  | ReqNewRoute route_req
  | ReqDelRoute route_req
  | ReqGetRoute route_req
  | ReqGetRoutes route_req
  | ReqGetLink link_sel
  | ReqGetAddrs u8
  | ReqRaw nat "u8 list"
  | ReqNftGetGen
  | ReqNftGetRules string string
  | ReqNftBatch u32 string string nft_op

section \<open>Replies\<close>

record rtmsg =
  h_dst_len :: u8
  h_src_len :: u8
  h_tos :: u8
  h_table :: u8
  h_protocol :: u8
  h_scope :: u8
  h_type :: u8
  h_flags :: u32

text \<open>A route of a dump: header, the attributes the code reads, their bytes.\<close>

record route_msg =
  g_hdr :: rtmsg
  g_table :: "u32 option"
  g_dst :: "ip_addr option"
  g_oif :: "u32 option"
  g_prefsrc :: "ip_addr option"
  g_gateway :: "ip_addr option"
  g_buf :: "u8 list"

record link_msg =
  k_index :: u32
  k_flags :: u32
  k_ifname :: "string option"
  k_stats64 :: "(u64 \<times> u64) option"

record addr_msg =
  a_index :: u32
  a_local :: "ip_addr option"

record nft_rule_msg =
  n_userdata :: "u8 list option"
  n_handle :: "u64 option"

text \<open>A dump is the list of what \<^verbatim>\<open>recv\<close> returns before it returns \<^verbatim>\<open>None\<close>.\<close>

record kernel =
  kn_sent :: "nl_request list \<Rightarrow> unit result"
  kn_ack :: "nl_request list \<Rightarrow> unit result"
  kn_route :: "nl_request list \<Rightarrow> route_msg result"
  kn_routes :: "nl_request list \<Rightarrow> route_msg result list"
  kn_link :: "nl_request list \<Rightarrow> link_msg result"
  kn_addrs :: "nl_request list \<Rightarrow> addr_msg result list"
  kn_genid :: "nl_request list \<Rightarrow> u32 option result"
  kn_rules :: "nl_request list \<Rightarrow> nft_rule_msg result list"
  kn_batch :: "nl_request list \<Rightarrow> unit result"

section \<open>Operations on a socket\<close>

type_synonym 'a io = "nl_request list \<Rightarrow> nl_request list \<times> 'a result"

definition io_ret :: "'a \<Rightarrow> 'a io" where
  "io_ret x = (\<lambda>log. (log, Inr x))"

definition io_err :: "error \<Rightarrow> 'a io" where
  "io_err e = (\<lambda>log. (log, Inl e))"

definition io_bind :: "'a io \<Rightarrow> ('a \<Rightarrow> 'b io) \<Rightarrow> 'b io" where
  "io_bind m f = (\<lambda>log. case m log of (log', Inl e) \<Rightarrow> (log', Inl e) | (log', Inr x) \<Rightarrow> f x log')"

text \<open>\<^verbatim>\<open>m.ok()\<close> and \<^verbatim>\<open>if let Err(_) = m\<close>: the result as a value; a panic is no value.\<close>

definition io_try :: "'a io \<Rightarrow> 'a result io" where
  "io_try m = (\<lambda>log. case m log of (log', r) \<Rightarrow> (log', if r = Inl Panic then Inl Panic else Inr r))"

text \<open>\<^verbatim>\<open>m.unwrap()\<close>.\<close>

definition io_unwrap :: "'a io \<Rightarrow> 'a io" where
  "io_unwrap m = (\<lambda>log. case m log of (log', r) \<Rightarrow> (log', map_err (\<lambda>_. Panic) r))"

definition io_send :: "kernel \<Rightarrow> nl_request \<Rightarrow> unit io" where
  "io_send k r = (\<lambda>log. (log @ [r], kn_sent k (log @ [r])))"

text \<open>A reply to the request that was sent last.\<close>

definition io_recv :: "(nl_request list \<Rightarrow> 'a result) \<Rightarrow> 'a io" where
  "io_recv f = (\<lambda>log. (log, f log))"

definition io_dump :: "(nl_request list \<Rightarrow> 'a list) \<Rightarrow> 'a list io" where
  "io_dump f = (\<lambda>log. (log, Inr (f log)))"

definition io_lift :: "'a result \<Rightarrow> 'a io" where
  "io_lift r = (\<lambda>log. (log, r))"

text \<open>\<^verbatim>\<open>sock.request(&req)?.recv_ack()?\<close>.\<close>

definition io_request :: "kernel \<Rightarrow> nl_request \<Rightarrow> unit io" where
  "io_request k r = io_bind (io_send k r) (\<lambda>_. io_recv (kn_ack k))"

fun io_iter :: "('a \<Rightarrow> unit io) \<Rightarrow> 'a list \<Rightarrow> unit io" where
  "io_iter f [] = io_ret ()"
| "io_iter f (x # xs) = io_bind (f x) (\<lambda>_. io_iter f xs)"

text \<open>Operations that may not return: \<^verbatim>\<open>None\<close> where the code loops for ever.\<close>

type_synonym 'a oio = "nl_request list \<Rightarrow> (nl_request list \<times> 'a result) option"

definition oio_of :: "'a io \<Rightarrow> 'a oio" where
  "oio_of m = (\<lambda>log. Some (m log))"

definition oio_bind :: "'a oio \<Rightarrow> ('a \<Rightarrow> 'b oio) \<Rightarrow> 'b oio" where
  "oio_bind m f = (\<lambda>log. case m log of
      None \<Rightarrow> None
    | Some (log', Inl e) \<Rightarrow> Some (log', Inl e)
    | Some (log', Inr x) \<Rightarrow> f x log')"

definition oio_try :: "'a oio \<Rightarrow> 'a result oio" where
  "oio_try m = (\<lambda>log. case m log of None \<Rightarrow> None | Some (log', r) \<Rightarrow>
    Some (log', if r = Inl Panic then Inl Panic else Inr r))"

section \<open>What an operation sends\<close>

text \<open>The log only grows, and what it grows by satisfies \<open>P\<close>.\<close>

definition io_sends :: "(nl_request \<Rightarrow> bool) \<Rightarrow> 'a io \<Rightarrow> bool" where
  "io_sends P m \<longleftrightarrow> (\<forall>log. \<exists>new. fst (m log) = log @ new \<and> list_all P new)"

named_theorems io_sends_intros \<open>composition rules of \<open>io_sends\<close>\<close>

lemma io_sends_ret [io_sends_intros]: "io_sends P (io_ret x)"
  by (simp add: io_sends_def io_ret_def)

lemma io_sends_err [io_sends_intros]: "io_sends P (io_err e)"
  by (simp add: io_sends_def io_err_def)

lemma io_sends_recv [io_sends_intros]: "io_sends P (io_recv f)"
  by (simp add: io_sends_def io_recv_def)

lemma io_sends_dump [io_sends_intros]: "io_sends P (io_dump f)"
  by (simp add: io_sends_def io_dump_def)

lemma io_sends_lift [io_sends_intros]: "io_sends P (io_lift r)"
  by (simp add: io_sends_def io_lift_def)

lemma io_sends_send [io_sends_intros]: "P r \<Longrightarrow> io_sends P (io_send k r)"
  by (simp add: io_sends_def io_send_def)

lemma io_sends_bind [io_sends_intros]:
  assumes "io_sends P m" and "\<And>x. io_sends P (f x)"
  shows "io_sends P (io_bind m f)"
  unfolding io_sends_def
proof
  fix log
  from assms(1) obtain new where new: "fst (m log) = log @ new" "list_all P new"
    unfolding io_sends_def by blast
  show "\<exists>new. fst (io_bind m f log) = log @ new \<and> list_all P new"
  proof (cases "m log")
    case (Pair log' r)
    show ?thesis
    proof (cases r)
      case (Inl e)
      with Pair new show ?thesis by (simp add: io_bind_def)
    next
      case (Inr x)
      obtain more where "fst (f x log') = log' @ more" "list_all P more"
        using assms(2) unfolding io_sends_def by blast
      with Pair Inr new show ?thesis by (intro exI [of _ "new @ more"]) (simp add: io_bind_def)
    qed
  qed
qed

lemma io_sends_try [io_sends_intros]: "io_sends P m \<Longrightarrow> io_sends P (io_try m)"
  by (simp add: io_sends_def io_try_def case_prod_beta)

lemma io_sends_unwrap [io_sends_intros]: "io_sends P m \<Longrightarrow> io_sends P (io_unwrap m)"
  by (simp add: io_sends_def io_unwrap_def case_prod_beta)

lemma io_sends_request [io_sends_intros]: "P r \<Longrightarrow> io_sends P (io_request k r)"
  unfolding io_request_def by (intro io_sends_intros)

lemma io_sends_iter [io_sends_intros]:
  "(\<And>x. x \<in> set xs \<Longrightarrow> io_sends P (f x)) \<Longrightarrow> io_sends P (io_iter f xs)"
  by (induction xs) (auto intro!: io_sends_intros)

lemma io_sends_if [io_sends_intros]: "io_sends P m \<Longrightarrow> io_sends P n \<Longrightarrow> io_sends P (if b then m else n)"
  by simp

lemma io_sendsD: "io_sends P m \<Longrightarrow> m log = (log', r) \<Longrightarrow> \<exists>new. log' = log @ new \<and> list_all P new"
  unfolding io_sends_def by (metis fst_conv)

lemma io_sends_mono: "io_sends P m \<Longrightarrow> (\<And>r. P r \<Longrightarrow> Q r) \<Longrightarrow> io_sends Q m"
  unfolding io_sends_def by (metis (mono_tags, lifting) list_all_iff)

definition oio_sends :: "(nl_request \<Rightarrow> bool) \<Rightarrow> 'a oio \<Rightarrow> bool" where
  "oio_sends P m \<longleftrightarrow> (\<forall>log log' r. m log = Some (log', r) \<longrightarrow> (\<exists>new. log' = log @ new \<and> list_all P new))"

lemma oio_sends_of [io_sends_intros]: "io_sends P m \<Longrightarrow> oio_sends P (oio_of m)"
  by (auto simp: oio_sends_def oio_of_def dest: io_sendsD)

lemma oio_sends_bind [io_sends_intros]:
  assumes "oio_sends P m" and "\<And>x. oio_sends P (f x)"
  shows "oio_sends P (oio_bind m f)"
  unfolding oio_sends_def
proof (intro allI impI)
  fix log log' r assume run: "oio_bind m f log = Some (log', r)"
  then obtain log1 r1 where m: "m log = Some (log1, r1)" by (auto simp: oio_bind_def split: option.splits)
  with assms(1) obtain new where new: "log1 = log @ new" "list_all P new" unfolding oio_sends_def by blast
  show "\<exists>new. log' = log @ new \<and> list_all P new"
  proof (cases r1)
    case (Inl e)
    with run m new show ?thesis by (auto simp: oio_bind_def)
  next
    case (Inr x)
    with run m have "f x log1 = Some (log', r)" by (simp add: oio_bind_def)
    with assms(2) obtain more where "log' = log1 @ more" "list_all P more" unfolding oio_sends_def by blast
    with new show ?thesis by (intro exI [of _ "new @ more"]) simp
  qed
qed

lemma oio_sends_try [io_sends_intros]: "oio_sends P m \<Longrightarrow> oio_sends P (oio_try m)"
  unfolding oio_sends_def oio_try_def by (auto split: option.splits)

lemma oio_sends_if [io_sends_intros]: "oio_sends P m \<Longrightarrow> oio_sends P n \<Longrightarrow> oio_sends P (if b then m else n)"
  by simp

section \<open>Operations that do not panic\<close>

text \<open>The library reports failures as errors; none of its replies is a panic.\<close>

definition kernel_sane :: "kernel \<Rightarrow> bool" where
  "kernel_sane k \<longleftrightarrow> (\<forall>log. kn_sent k log \<noteq> Inl Panic \<and> kn_ack k log \<noteq> Inl Panic \<and> kn_route k log \<noteq> Inl Panic
    \<and> kn_link k log \<noteq> Inl Panic \<and> kn_genid k log \<noteq> Inl Panic \<and> kn_batch k log \<noteq> Inl Panic
    \<and> Inl Panic \<notin> set (kn_routes k log) \<and> Inl Panic \<notin> set (kn_addrs k log) \<and> Inl Panic \<notin> set (kn_rules k log))"

definition io_safe :: "'a io \<Rightarrow> bool" where
  "io_safe m \<longleftrightarrow> (\<forall>log. snd (m log) \<noteq> Inl Panic)"

named_theorems io_safe_intros \<open>composition rules of \<open>io_safe\<close>\<close>

lemma io_safe_ret [io_safe_intros]: "io_safe (io_ret x)"
  by (simp add: io_safe_def io_ret_def)

lemma io_safe_err [io_safe_intros]: "e \<noteq> Panic \<Longrightarrow> io_safe (io_err e)"
  by (simp add: io_safe_def io_err_def)

lemma io_safe_lift [io_safe_intros]: "r \<noteq> Inl Panic \<Longrightarrow> io_safe (io_lift r)"
  by (simp add: io_safe_def io_lift_def)

lemma io_safe_dump [io_safe_intros]: "io_safe (io_dump f)"
  by (simp add: io_safe_def io_dump_def)

lemma io_safe_send [io_safe_intros]: "kernel_sane k \<Longrightarrow> io_safe (io_send k r)"
  by (simp add: io_safe_def io_send_def kernel_sane_def)

lemma io_safe_ack [io_safe_intros]: "kernel_sane k \<Longrightarrow> io_safe (io_recv (kn_ack k))"
  by (simp add: io_safe_def io_recv_def kernel_sane_def)

lemma io_safe_bind_gives:
  assumes "io_safe m" and "\<And>log log' x. m log = (log', Inr x) \<Longrightarrow> io_safe (f x)"
  shows "io_safe (io_bind m f)"
  unfolding io_safe_def
proof
  fix log
  show "snd (io_bind m f log) \<noteq> Inl Panic"
  proof (cases "m log")
    case (Pair log' r)
    show ?thesis
    proof (cases r)
      case (Inl e)
      then have "e \<noteq> Panic" using assms(1) Pair unfolding io_safe_def by (metis snd_conv)
      with Pair Inl show ?thesis by (simp add: io_bind_def)
    next
      case (Inr x)
      then have "io_safe (f x)" using assms(2) Pair by blast
      with Pair Inr show ?thesis by (simp add: io_bind_def io_safe_def)
    qed
  qed
qed

lemma io_safe_bind [io_safe_intros]: "io_safe m \<Longrightarrow> (\<And>x. io_safe (f x)) \<Longrightarrow> io_safe (io_bind m f)"
  by (rule io_safe_bind_gives)

lemma io_safe_try [io_safe_intros]: "io_safe m \<Longrightarrow> io_safe (io_try m)"
  by (simp add: io_safe_def io_try_def case_prod_beta)

lemma io_safe_request [io_safe_intros]: "kernel_sane k \<Longrightarrow> io_safe (io_request k r)"
  unfolding io_request_def by (intro io_safe_intros)

lemma io_safe_iter [io_safe_intros]: "(\<And>x. x \<in> set xs \<Longrightarrow> io_safe (f x)) \<Longrightarrow> io_safe (io_iter f xs)"
  by (induction xs) (auto intro!: io_safe_intros)

lemma io_safe_if [io_safe_intros]: "io_safe m \<Longrightarrow> io_safe n \<Longrightarrow> io_safe (if b then m else n)"
  by simp

text \<open>A kernel that answers everything: each request is accepted, each dump empty.\<close>

definition silent_kernel :: kernel where
  "silent_kernel =
    \<lparr>kn_sent = (\<lambda>log. Inr ()), kn_ack = (\<lambda>log. Inr ()), kn_route = (\<lambda>log. Inl (Msg ''route'')),
     kn_routes = (\<lambda>log. []), kn_link = (\<lambda>log. Inl (Msg ''link'')), kn_addrs = (\<lambda>log. []),
     kn_genid = (\<lambda>log. Inr (Some 1)), kn_rules = (\<lambda>log. []), kn_batch = (\<lambda>log. Inr ())\<rparr>"

lemma silent_sane [simp]: "kernel_sane silent_kernel"
  by (simp add: kernel_sane_def silent_kernel_def)

end
