(* ===== verification/Matches_List.thy ===== *)
theory Matches_List
  imports Dfa
begin

text \<open>
  The list of matches (\<^verbatim>\<open>impl Matches\<close> and \<^verbatim>\<open>DnsCache\<close> of \<^verbatim>\<open>rebpf/lib.rs\<close>): a match
  becomes a regex, the regexes of the per-process matches one automaton for the eBPF
  program, those of the DNS matches two automata for the resolver cache; a new match is
  accepted only when the automata can still be built with it.  An operation takes the
  list and returns it with the result, as the methods on \<^verbatim>\<open>&mut self\<close> do.
\<close>

section \<open>Regexes\<close>

definition method_regex :: "libs \<Rightarrow> Match \<Rightarrow> string option" where
  "method_regex lib m =
    (let pat = m_pattern m
     in if pat = [] then None
        else case m_method m of
          Method_full \<Rightarrow> Some (l_escape lib pat)
        | Method_substring \<Rightarrow> Some (''[^/]*'' @ l_escape lib pat @ ''.*'')
        | Method_prefix \<Rightarrow> Some (l_escape lib pat @ ''.*'')
        | Method_suffix \<Rightarrow> Some (''[^/]*'' @ l_escape lib pat)
        | Method_regex \<Rightarrow> Some (''(?:'' @ pat @ '')'')
        | Method_subnet \<Rightarrow> None)"

definition dns_regex :: "libs \<Rightarrow> Match \<Rightarrow> string option" where
  "dns_regex lib m =
    (case method_regex lib m of None \<Rightarrow> None
     | Some method \<Rightarrow>
       (case m_kind m of
          Kind_dns \<Rightarrow> Some (''^'' @ method @ [CHR 0x5C] @ ''.?$'')
        | _ \<Rightarrow> None))"

definition path_regex :: "libs \<Rightarrow> Match \<Rightarrow> string option" where
  "path_regex lib m =
    (case method_regex lib m of None \<Rightarrow> None
     | Some method \<Rightarrow>
       (case m_kind m of
          Kind_basename \<Rightarrow> Some (''^(?:.*/)?'' @ method @ ''$'')
        | Kind_path \<Rightarrow> Some (''^'' @ method @ ''$'')
        | Kind_ipv4 \<Rightarrow> None
        | Kind_dns \<Rightarrow> None))"

section \<open>Building the automata\<close>

text \<open>The loop of \<open>build_path_dfa\<close>, from index \<open>i\<close>: the patterns and their matches.\<close>

fun path_loop_set :: "libs \<Rightarrow> nat \<Rightarrow> Match list \<Rightarrow> string list \<times> nat list \<Rightarrow> string list \<times> nat list" where
  "path_loop_set lib i [] acc = acc"
| "path_loop_set lib i (m # ms) (pats, pat_id_map) =
    (case path_regex lib m of
       None \<Rightarrow> path_loop_set lib (Suc i) ms (pats, pat_id_map)
     | Some pat \<Rightarrow> path_loop_set lib (Suc i) ms (pats @ [pat], pat_id_map @ [i]))"

definition build_path_dfa :: "libs \<Rightarrow> Matches \<Rightarrow> u8 list \<Rightarrow> (u8 list \<times> bpf_DFA) result" where
  "build_path_dfa lib ms arena =
    (case path_loop_set lib 0 (ms_matches ms) ([], []) of
       (pats, pat_id_map) \<Rightarrow> encode_dfa lib pats arena pat_id_map ms)"

record DnsDFA =
  dd_redir :: dense
  dd_redir_map :: "nat list"
  dd_bypass :: dense
  dd_bypass_map :: "nat list"

record dns_sets =
  ds_redir :: "string list"
  ds_redir_map :: "nat list"
  ds_bypass :: "string list"
  ds_bypass_map :: "nat list"

definition dns_sets_empty :: dns_sets where
  "dns_sets_empty = \<lparr>ds_redir = [], ds_redir_map = [], ds_bypass = [], ds_bypass_map = []\<rparr>"

fun dns_loop_set :: "libs \<Rightarrow> nat \<Rightarrow> Match list \<Rightarrow> dns_sets \<Rightarrow> dns_sets" where
  "dns_loop_set lib i [] s = s"
| "dns_loop_set lib i (m # ms) s =
    (case dns_regex lib m of
       None \<Rightarrow> dns_loop_set lib (Suc i) ms s
     | Some pat \<Rightarrow>
       (case m_direction m of
          Direction_redirect \<Rightarrow> dns_loop_set lib (Suc i) ms
            (s\<lparr>ds_redir := ds_redir s @ [pat], ds_redir_map := ds_redir_map s @ [i]\<rparr>)
        | Direction_bypass \<Rightarrow> dns_loop_set lib (Suc i) ms
            (s\<lparr>ds_bypass := ds_bypass s @ [pat], ds_bypass_map := ds_bypass_map s @ [i]\<rparr>)))"

definition build_dns_dfa :: "libs \<Rightarrow> Matches \<Rightarrow> DnsDFA result" where
  "build_dns_dfa lib ms =
    (let s = dns_loop_set lib 0 (ms_matches ms) dns_sets_empty
     in rbind (build_dfa lib (ds_redir s) False) (\<lambda>redir.
        rbind (build_dfa lib (ds_bypass s) False) (\<lambda>bypass.
        Inr \<lparr>dd_redir = redir, dd_redir_map = ds_redir_map s,
             dd_bypass = bypass, dd_bypass_map = ds_bypass_map s\<rparr>)))"

section \<open>Operations on the list\<close>

definition matches_update :: "Matches \<Rightarrow> Matches" where
  "matches_update ms = ms\<lparr>ms_dns_count := of_nat (length (filter is_dns (ms_matches ms)))\<rparr>"

text \<open>\<^verbatim>\<open>Vec::push\<close> and \<^verbatim>\<open>Vec::pop\<close> around a build; a panic in between skips the \<^verbatim>\<open>pop\<close>.\<close>

definition with_pushed :: "Match \<Rightarrow> (Matches \<Rightarrow> 'a result) \<Rightarrow> Matches \<Rightarrow> Matches \<times> unit result" where
  "with_pushed m build ms =
    (let pushed = ms\<lparr>ms_matches := ms_matches ms @ [m]\<rparr>
     in case build pushed of
          Inl Panic \<Rightarrow> (pushed, Inl Panic)
        | res \<Rightarrow> (pushed\<lparr>ms_matches := butlast (ms_matches pushed)\<rparr>, rbind res (\<lambda>_. Inr ())))"

definition try_parse :: "libs \<Rightarrow> Matches \<Rightarrow> Match \<Rightarrow> Matches \<times> unit result" where
  "try_parse lib ms m =
    (case m_kind m of
       Kind_basename \<Rightarrow> with_pushed m (\<lambda>s. build_path_dfa lib s []) ms
     | Kind_path \<Rightarrow> with_pushed m (\<lambda>s. build_path_dfa lib s []) ms
     | Kind_ipv4 \<Rightarrow>
         (case m_method m of
            Method_full \<Rightarrow> (ms, rbind (ok_or (ParseFailed (m_pattern m)) (parse_ipv4 (m_pattern m))) (\<lambda>_. Inr ()))
          | Method_subnet \<Rightarrow> (ms, case l_parse_ipnet lib (m_pattern m) of Inl e \<Rightarrow> Inl (Msg e) | Inr _ \<Rightarrow> Inr ())
          | _ \<Rightarrow> (ms, Inl (InvalidMethod (method_display (m_method m)) (kind_display (m_kind m)))))
     | Kind_dns \<Rightarrow> with_pushed m (build_dns_dfa lib) ms)"

definition matches_add :: "libs \<Rightarrow> Matches \<Rightarrow> Match \<Rightarrow> Matches \<times> unit result" where
  "matches_add lib ms new =
    (case try_parse lib ms new of
       (ms, Inl e) \<Rightarrow> (ms, Inl e)
     | (ms, Inr _) \<Rightarrow>
         (ms\<lparr>ms_dns_count := ms_dns_count ms + of_bool (is_dns new),
             ms_matches := ms_matches ms @ [new],
             ms_generation := ms_generation ms + 1\<rparr>, Inr ()))"

definition matches_replace :: "libs \<Rightarrow> Matches \<Rightarrow> Match \<Rightarrow> Match \<Rightarrow> Matches \<times> unit result" where
  "matches_replace lib ms from_m to_m =
    (case try_parse lib ms from_m of
       (ms, Inl e) \<Rightarrow> (ms, Inl e)
     | (ms, Inr _) \<Rightarrow>
       (case try_parse lib ms to_m of
          (ms, Inl e) \<Rightarrow> (ms, Inl e)
        | (ms, Inr _) \<Rightarrow>
          (case position (\<lambda>m. is_eq_to m from_m) (ms_matches ms) of
             None \<Rightarrow> (ms, Inl (Msg ''No such match''))
           | Some pos \<Rightarrow>
               (ms\<lparr>ms_dns_count := ms_dns_count ms + (of_bool (is_dns to_m) - of_bool (is_dns from_m)),
                   ms_matches := (ms_matches ms)[pos := to_m],
                   ms_generation := ms_generation ms + 1\<rparr>, Inr ()))))"

definition matches_del :: "libs \<Rightarrow> Matches \<Rightarrow> Match \<Rightarrow> Matches \<times> unit result" where
  "matches_del lib ms new =
    (case try_parse lib ms new of
       (ms, Inl e) \<Rightarrow> (ms, Inl e)
     | (ms, Inr _) \<Rightarrow>
       (case position (\<lambda>m. is_eq_to m new) (ms_matches ms) of
          None \<Rightarrow> (ms, Inl (Msg ''No such match''))
        | Some pos \<Rightarrow>
            let old = ms_matches ms ! pos
            in (ms\<lparr>ms_matches := remove_at pos (ms_matches ms),
                   ms_dns_count := ms_dns_count ms - of_bool (is_dns old),
                   ms_generation := ms_generation ms + 1\<rparr>, Inr ())))"

section \<open>The resolver cache\<close>

record DnsCache =
  dc_dfa :: "DnsDFA option"

definition dns_cache_update :: "libs \<Rightarrow> DnsCache \<Rightarrow> Matches \<Rightarrow> DnsCache" where
  "dns_cache_update lib c ms =
    (case build_dns_dfa lib ms of Inr dfa \<Rightarrow> c\<lparr>dc_dfa := Some dfa\<rparr> | Inl e \<Rightarrow> c)"

text \<open>\<open>name\<close> is \<^verbatim>\<open>Name::to_string\<close>; indexing a map out of range panics.\<close>

definition dns_cache_get :: "DnsCache \<Rightarrow> string \<Rightarrow> (Direction \<times> nat) option result" where
  "dns_cache_get c name =
    (case dc_dfa c of None \<Rightarrow> Inr None
     | Some dfa \<Rightarrow>
       (case d_search (dd_bypass dfa) name of
          Inr (Some p) \<Rightarrow> rbind (idx (dd_bypass_map dfa) p) (\<lambda>i. Inr (Some (Direction_bypass, i)))
        | _ \<Rightarrow>
          (case d_search (dd_redir dfa) name of
             Inr (Some p) \<Rightarrow> rbind (idx (dd_redir_map dfa) p) (\<lambda>i. Inr (Some (Direction_redirect, i)))
           | _ \<Rightarrow> Inr None)))"

section \<open>Index safety\<close>

text \<open>The pattern maps point to matches of the right kind and direction.\<close>

lemma path_loop_set_spec:
  "path_loop_set lib i ms (pats, pim) = (pats', pim') \<Longrightarrow> length pim = length pats \<Longrightarrow>
    length pim' = length pats' \<and>
    (\<forall>k \<in> set pim'. k \<in> set pim \<or> (i \<le> k \<and> k < i + length ms \<and> is_per_process (ms ! (k - i))))"
proof (induction ms arbitrary: i pats pim)
  case (Cons m ms)
  have proc: "is_per_process m" if "path_regex lib m = Some pat" for pat
    using that by (auto simp: path_regex_def is_per_process_def split: option.splits Kind.splits)
  show ?case
  proof (cases "path_regex lib m")
    case None
    with Cons.prems Cons.IH [of "Suc i" pats pim] show ?thesis
      by (fastforce simp: nth_Cons' Suc_le_eq diff_Suc split: nat.splits)
  next
    case (Some pat)
    with Cons.prems Cons.IH [of "Suc i" "pats @ [pat]" "pim @ [i]"] proc show ?thesis
      by (fastforce simp: nth_Cons' Suc_le_eq diff_Suc split: nat.splits)
  qed
qed auto

lemma build_path_dfa_no_panic:
  assumes "build_wf lib"
  shows "build_path_dfa lib ms arena \<noteq> Inl Panic"
proof -
  obtain pats pim where loop: "path_loop_set lib 0 (ms_matches ms) ([], []) = (pats, pim)" by fastforce
  from path_loop_set_spec [OF this] have "length pim = length pats" "\<forall>i \<in> set pim. i < length (ms_matches ms)"
    by auto
  from encode_dfa_no_panic [OF assms this] show ?thesis
    by (simp add: build_path_dfa_def loop)
qed

lemma build_dns_dfa_no_panic: "build_dns_dfa lib ms \<noteq> Inl Panic"
  by (auto simp: build_dns_dfa_def build_dfa_def Let_def rbind_def split: sum.splits)

definition dns_map_ok :: "Direction \<Rightarrow> Match list \<Rightarrow> nat \<Rightarrow> nat list \<Rightarrow> bool" where
  "dns_map_ok dir ms i xs \<longleftrightarrow>
    (\<forall>k \<in> set xs. i \<le> k \<and> k < i + length ms \<and> is_dns (ms ! (k - i)) \<and> m_direction (ms ! (k - i)) = dir)"

lemma dns_loop_set_spec:
  fixes lib ms
  assumes "length (ds_redir_map s) = length (ds_redir s)" "length (ds_bypass_map s) = length (ds_bypass s)"
    and "dns_map_ok Direction_redirect done 0 (ds_redir_map s)"
    and "dns_map_ok Direction_bypass done 0 (ds_bypass_map s)"
  defines "t \<equiv> dns_loop_set lib (length done) ms s"
  shows "length (ds_redir_map t) = length (ds_redir t) \<and> length (ds_bypass_map t) = length (ds_bypass t)
    \<and> dns_map_ok Direction_redirect (done @ ms) 0 (ds_redir_map t)
    \<and> dns_map_ok Direction_bypass (done @ ms) 0 (ds_bypass_map t)"
  using assms(1-4) unfolding t_def
proof (induction ms arbitrary: s "done")
  case (Cons m ms)
  have dns: "is_dns m" if "dns_regex lib m = Some pat" for pat
    using that by (auto simp: dns_regex_def is_dns_def split: option.splits Kind.splits)
  have grow: "dns_map_ok dir (done @ [m]) 0 xs" if "dns_map_ok dir done 0 xs" for dir xs
    using that by (auto simp: dns_map_ok_def nth_append)
  have add: "dns_map_ok (m_direction m) (done @ [m]) 0 (xs @ [length done])"
    if "dns_map_ok (m_direction m) done 0 xs" "dns_regex lib m = Some pat" for xs pat
    using grow [OF that(1)] dns [OF that(2)] by (auto simp: dns_map_ok_def)
  show ?case
  proof (cases "dns_regex lib m")
    case None
    with Cons.IH [of s "done @ [m]"] Cons.prems grow show ?thesis by simp
  next
    case (Some pat)
    with Cons.IH [of "s\<lparr>ds_redir := ds_redir s @ [pat], ds_redir_map := ds_redir_map s @ [length done]\<rparr>" "done @ [m]"]
      Cons.IH [of "s\<lparr>ds_bypass := ds_bypass s @ [pat], ds_bypass_map := ds_bypass_map s @ [length done]\<rparr>" "done @ [m]"]
      Cons.prems grow add show ?thesis
      by (cases "m_direction m") simp_all
  qed
qed simp

text \<open>What a cache built from the list \<open>ms\<close> satisfies.\<close>

definition dns_dfa_ok :: "Match list \<Rightarrow> DnsDFA \<Rightarrow> bool" where
  "dns_dfa_ok ms dfa \<longleftrightarrow>
    patterns_wf (dd_redir dfa) (length (dd_redir_map dfa)) \<and>
    patterns_wf (dd_bypass dfa) (length (dd_bypass_map dfa)) \<and>
    dns_map_ok Direction_redirect ms 0 (dd_redir_map dfa) \<and> dns_map_ok Direction_bypass ms 0 (dd_bypass_map dfa)"

lemma build_dns_dfa_ok:
  assumes wf: "build_wf lib" and "build_dns_dfa lib ms = Inr dfa"
  shows "dns_dfa_ok (ms_matches ms) dfa"
proof -
  define t where "t = dns_loop_set lib 0 (ms_matches ms) dns_sets_empty"
  have t: "length (ds_redir_map t) = length (ds_redir t) \<and> length (ds_bypass_map t) = length (ds_bypass t)
    \<and> dns_map_ok Direction_redirect (ms_matches ms) 0 (ds_redir_map t)
    \<and> dns_map_ok Direction_bypass (ms_matches ms) 0 (ds_bypass_map t)"
    using dns_loop_set_spec [of dns_sets_empty "[]" lib "ms_matches ms"]
    by (simp add: t_def dns_sets_empty_def dns_map_ok_def)
  from assms(2) have "l_build_many lib False DFA_MAX_SIZE (ds_redir t) = Inr (dd_redir dfa)"
    "l_build_many lib False DFA_MAX_SIZE (ds_bypass t) = Inr (dd_bypass dfa)"
    "dd_redir_map dfa = ds_redir_map t" "dd_bypass_map dfa = ds_bypass_map t"
    by (auto simp: build_dns_dfa_def Let_def rbind_eq_Inr build_dfa_def t_def split: sum.splits)
  moreover from this wf have "patterns_wf (dd_redir dfa) (length (ds_redir t))"
    "patterns_wf (dd_bypass dfa) (length (ds_bypass t))"
    unfolding build_wf_def by blast+
  ultimately show ?thesis using t by (simp add: dns_dfa_ok_def)
qed

lemma dns_cache_get_ok:
  assumes "dc_dfa c = Some dfa" and "dns_dfa_ok ms dfa"
  shows "dns_cache_get c name = Inr None \<or>
    (\<exists>dir i. dns_cache_get c name = Inr (Some (dir, i)) \<and> i < length ms \<and> is_dns (ms ! i) \<and> m_direction (ms ! i) = dir)"
  using assms
  by (auto simp: dns_cache_get_def dns_dfa_ok_def patterns_wf_def dns_map_ok_def idx_def
      split: sum.split option.split)

section \<open>Transactions\<close>

lemma with_pushed_eq:
  "build (ms\<lparr>ms_matches := ms_matches ms @ [m]\<rparr>) \<noteq> Inl Panic \<Longrightarrow>
    with_pushed m build ms = (ms, rbind (build (ms\<lparr>ms_matches := ms_matches ms @ [m]\<rparr>)) (\<lambda>_. Inr ()))"
  by (auto simp: with_pushed_def Let_def split: sum.splits error.splits)

text \<open>The list that \<open>try_parse\<close> sees is the list it leaves.\<close>

lemma try_parse_state:
  assumes "build_wf lib"
  shows "fst (try_parse lib ms m) = ms" and "snd (try_parse lib ms m) \<noteq> Inl Panic"
  using build_path_dfa_no_panic [OF assms] build_dns_dfa_no_panic
  by (auto simp: try_parse_def with_pushed_eq rbind_def ok_or_def split: Kind.split Method.split sum.split option.split)

lemma try_parse_eq: "build_wf lib \<Longrightarrow> try_parse lib ms m = (ms, snd (try_parse lib ms m))"
  using try_parse_state(1) [of lib ms m] by (metis prod.collapse)

text \<open>The three operations as one step, and what a step means on the bag of matches.\<close>

datatype matches_op = OpAdd Match | OpReplace Match Match | OpDel Match

fun matches_step :: "libs \<Rightarrow> Matches \<Rightarrow> matches_op \<Rightarrow> Matches \<times> unit result" where
  "matches_step lib ms (OpAdd m) = matches_add lib ms m"
| "matches_step lib ms (OpReplace f t) = matches_replace lib ms f t"
| "matches_step lib ms (OpDel m) = matches_del lib ms m"

definition dns_count_ok :: "Matches \<Rightarrow> bool" where
  "dns_count_ok ms \<longleftrightarrow> ms_dns_count ms = of_nat (length (filter is_dns (ms_matches ms)))"


lemma matches_add_ok:
  assumes "build_wf lib" and "matches_add lib ms m = (ms', r)"
  shows "(\<exists>e. r = Inl e \<and> snd (try_parse lib ms m) = Inl e \<and> ms' = ms) \<or>
    (r = Inr () \<and> snd (try_parse lib ms m) = Inr () \<and>
     ms' = ms\<lparr>ms_dns_count := ms_dns_count ms + of_bool (is_dns m),
              ms_matches := ms_matches ms @ [m], ms_generation := ms_generation ms + 1\<rparr>)"
  using assms(2) try_parse_eq [OF assms(1), of ms m]
  by (cases "snd (try_parse lib ms m)") (auto simp: matches_add_def)

lemma matches_replace_ok:
  assumes "build_wf lib" and "matches_replace lib ms f t = (ms', r)"
  shows "((\<exists>e. r = Inl e) \<and> ms' = ms) \<or>
    (\<exists>pos. r = Inr () \<and> position (\<lambda>m. is_eq_to m f) (ms_matches ms) = Some pos \<and>
     ms' = ms\<lparr>ms_dns_count := ms_dns_count ms + (of_bool (is_dns t) - of_bool (is_dns f)),
              ms_matches := (ms_matches ms)[pos := t], ms_generation := ms_generation ms + 1\<rparr>)"
  using assms(2) try_parse_eq [OF assms(1), of ms f] try_parse_eq [OF assms(1), of ms t]
  by (cases "snd (try_parse lib ms f)"; cases "snd (try_parse lib ms t)")
    (auto simp: matches_replace_def split: option.splits)

lemma matches_del_ok:
  assumes "build_wf lib" and "matches_del lib ms m = (ms', r)"
  shows "((\<exists>e. r = Inl e) \<and> ms' = ms) \<or>
    (\<exists>pos. r = Inr () \<and> position (\<lambda>x. is_eq_to x m) (ms_matches ms) = Some pos \<and>
     ms' = ms\<lparr>ms_matches := remove_at pos (ms_matches ms),
              ms_dns_count := ms_dns_count ms - of_bool (is_dns (ms_matches ms ! pos)),
              ms_generation := ms_generation ms + 1\<rparr>)"
  using assms(2) try_parse_eq [OF assms(1), of ms m]
  by (cases "snd (try_parse lib ms m)") (auto simp: matches_del_def Let_def split: option.splits)

text \<open>
  The contract of an operation on a stored state that may fail: a failure leaves the state,
  a success counts the generation up, an invariant of the state is kept.
\<close>

definition run_ops :: "('e \<Rightarrow> 's \<Rightarrow> 'a \<Rightarrow> 's \<times> unit result) \<Rightarrow> 'e \<Rightarrow> 's \<Rightarrow> 'a list \<Rightarrow> 's" where
  "run_ops op e s as = foldl (\<lambda>s a. fst (op e s a)) s as"

fun committed :: "('e \<Rightarrow> 's \<Rightarrow> 'a \<Rightarrow> 's \<times> unit result) \<Rightarrow> 'e \<Rightarrow> 's \<Rightarrow> 'a list \<Rightarrow> 'a list" where
  "committed op e s [] = []"
| "committed op e s (a # as) =
    (if is_ok (snd (op e s a)) then [a] else []) @ committed op e (fst (op e s a)) as"

locale transactional =
  fixes wf :: "'e \<Rightarrow> bool" and op :: "'e \<Rightarrow> 's \<Rightarrow> 'a \<Rightarrow> 's \<times> unit result"
    and inv :: "'s \<Rightarrow> bool" and gen :: "'s \<Rightarrow> 'n :: semiring_1"
  assumes rollback: "wf e \<Longrightarrow> op e s a = (s', Inl err) \<Longrightarrow> s' = s"
    and commit: "wf e \<Longrightarrow> op e s a = (s', Inr ()) \<Longrightarrow> gen s' = gen s + 1"
    and keeps: "wf e \<Longrightarrow> inv s \<Longrightarrow> op e s a = (s', Inr ()) \<Longrightarrow> inv s'"
begin

lemma step_cases:
  assumes "wf e"
  obtains (fails) err where "op e s a = (s, Inl err)"
  | (commits) s' where "op e s a = (s', Inr ())" "gen s' = gen s + 1" "inv s \<Longrightarrow> inv s'"
proof (cases "op e s a")
  case (Pair s' r)
  show thesis
  proof (cases r)
    case (Inl err)
    with Pair rollback [OF assms] have "s' = s" by blast
    with Pair Inl show thesis by (intro fails) simp
  next
    case (Inr u)
    with Pair have "op e s a = (s', Inr ())" by simp
    with commit [OF assms] keeps [OF assms] show thesis by (intro commits) blast+
  qed
qed

lemma step_inv: "wf e \<Longrightarrow> inv s \<Longrightarrow> inv (fst (op e s a))"
  by (erule step_cases [of e s a]) simp_all

lemma run_inv: "wf e \<Longrightarrow> inv s \<Longrightarrow> inv (run_ops op e s as)"
  by (induction as arbitrary: s) (simp_all add: run_ops_def step_inv)

lemma step_gen: "wf e \<Longrightarrow> gen (fst (op e s a)) = gen s + of_bool (is_ok (snd (op e s a)))"
  by (erule step_cases [of e s a]) simp_all

lemma run_gen: "wf e \<Longrightarrow> gen (run_ops op e s as) = gen s + of_nat (length (committed op e s as))"
  by (induction as arbitrary: s) (simp_all add: run_ops_def step_gen add.assoc)

lemma run_committed: "wf e \<Longrightarrow> run_ops op e s (committed op e s as) = run_ops op e s as"
proof (induction as arbitrary: s)
  case (Cons a as)
  from Cons.prems show ?case
    by (cases rule: step_cases [of e s a]) (use Cons in \<open>simp_all add: run_ops_def\<close>)
qed (simp add: run_ops_def)

end

lemma add_keeps_count:
  assumes "build_wf lib" "dns_count_ok ms" "matches_add lib ms m = (ms', Inr ())"
  shows "dns_count_ok ms'"
  using matches_add_ok [OF assms(1,3)] assms(2) by (auto simp: dns_count_ok_def)

lemma replace_keeps_count:
  assumes "build_wf lib" "dns_count_ok ms" "matches_replace lib ms f t = (ms', Inr ())"
  shows "dns_count_ok ms'"
proof -
  from matches_replace_ok [OF assms(1,3)] obtain pos
    where pos: "position (\<lambda>m. is_eq_to m f) (ms_matches ms) = Some pos"
      and ms': "ms' = ms\<lparr>ms_dns_count := ms_dns_count ms + (of_bool (is_dns t) - of_bool (is_dns f)),
              ms_matches := (ms_matches ms)[pos := t], ms_generation := ms_generation ms + 1\<rparr>"
    by auto
  from pos have lt: "pos < length (ms_matches ms)" and eq: "is_dns (ms_matches ms ! pos) = is_dns f"
    using is_eq_to_is_dns by (auto simp: position_Some)
  from arg_cong [OF count_filter_list_update [OF lt, of is_dns t], where f = "of_nat :: nat \<Rightarrow> u32"]
  have "(of_nat (length (filter is_dns ((ms_matches ms)[pos := t]))) :: u32) + of_bool (is_dns f) =
      of_nat (length (filter is_dns (ms_matches ms))) + of_bool (is_dns t)"
    unfolding eq by (cases "is_dns f"; cases "is_dns t") (simp_all add: add.commute)
  with assms(2) show ?thesis by (simp add: ms' dns_count_ok_def algebra_simps)
qed

lemma del_keeps_count:
  assumes "build_wf lib" "dns_count_ok ms" "matches_del lib ms m = (ms', Inr ())"
  shows "dns_count_ok ms'"
proof -
  from matches_del_ok [OF assms(1,3)] obtain pos
    where pos: "position (\<lambda>x. is_eq_to x m) (ms_matches ms) = Some pos"
      and ms': "ms' = ms\<lparr>ms_matches := remove_at pos (ms_matches ms),
              ms_dns_count := ms_dns_count ms - of_bool (is_dns (ms_matches ms ! pos)),
              ms_generation := ms_generation ms + 1\<rparr>"
    by auto
  from pos have lt: "pos < length (ms_matches ms)" by (simp add: position_Some)
  from count_filter_remove_at [OF lt, of is_dns] assms(2) show ?thesis
    by (simp add: ms' dns_count_ok_def)
qed

lemma matches_step_fails:
  assumes "build_wf lib" "matches_step lib ms a = (ms', Inl err)"
  shows "ms' = ms"
proof (cases a)
  case (OpAdd m)
  with assms(2) matches_add_ok [OF assms(1), of ms m ms'] show ?thesis by auto
next
  case (OpReplace f t)
  with assms(2) matches_replace_ok [OF assms(1), of ms f t ms'] show ?thesis by auto
next
  case (OpDel m)
  with assms(2) matches_del_ok [OF assms(1), of ms m ms'] show ?thesis by auto
qed

lemma matches_step_counts:
  assumes "build_wf lib" "matches_step lib ms a = (ms', Inr ())"
  shows "ms_generation ms' = ms_generation ms + 1"
proof (cases a)
  case (OpAdd m)
  with assms(2) matches_add_ok [OF assms(1), of ms m ms'] show ?thesis by auto
next
  case (OpReplace f t)
  with assms(2) matches_replace_ok [OF assms(1), of ms f t ms'] show ?thesis by auto
next
  case (OpDel m)
  with assms(2) matches_del_ok [OF assms(1), of ms m ms'] show ?thesis by auto
qed

interpretation mtx: transactional build_wf matches_step dns_count_ok ms_generation
proof
  fix lib ms a ms' err
  assume wf: "build_wf lib"
  show "matches_step lib ms a = (ms', Inl err) \<Longrightarrow> ms' = ms"
    by (rule matches_step_fails [OF wf])
  show "matches_step lib ms a = (ms', Inr ()) \<Longrightarrow> ms_generation ms' = ms_generation ms + 1"
    by (rule matches_step_counts [OF wf])
  show "dns_count_ok ms \<Longrightarrow> matches_step lib ms a = (ms', Inr ()) \<Longrightarrow> dns_count_ok ms'"
    by (cases a) (simp_all, (erule add_keeps_count [OF wf] replace_keeps_count [OF wf] del_keeps_count [OF wf], assumption)+)
qed

lemma matches_step_error:
  assumes wf: "build_wf lib" and "matches_step lib ms a = (ms', Inl e)"
  shows "e \<noteq> Panic"
proof -
  note np = try_parse_state(2) [OF wf] and eq = try_parse_eq [OF wf]
  show ?thesis
  proof (cases a)
    case (OpAdd m)
    with assms(2) np [of ms m] eq [of ms m] show ?thesis
      by (cases "snd (try_parse lib ms m)") (auto simp: matches_add_def)
  next
    case (OpReplace f t)
    with assms(2) np [of ms f] eq [of ms f] np [of ms t] eq [of ms t] show ?thesis
      by (cases "snd (try_parse lib ms f)"; cases "snd (try_parse lib ms t)")
        (auto simp: matches_replace_def split: option.splits)
  next
    case (OpDel m)
    with assms(2) np [of ms m] eq [of ms m] show ?thesis
      by (cases "snd (try_parse lib ms m)") (auto simp: matches_del_def Let_def split: option.splits)
  qed
qed

text \<open>The automata depend on the list alone, not on the counters.\<close>

lemma encode_tables_only:
  "ms_matches ms = ms_matches ms' \<Longrightarrow> encode_tables pim ms = encode_tables pim ms'"
proof -
  assume "ms_matches ms = ms_matches ms'"
  then have "push_pat pim ms = push_pat pim ms'" by (simp add: push_pat_def fun_eq_iff)
  then have "push_slice pim ms = push_slice pim ms'" by (intro ext) (simp add: push_slice_def)
  then show ?thesis by (intro ext) (simp add: encode_tables_def)
qed

lemma build_matches_only:
  assumes "ms_matches ms = ms_matches ms'"
  shows "build_path_dfa lib ms arena = build_path_dfa lib ms' arena" and "build_dns_dfa lib ms = build_dns_dfa lib ms'"
  using assms encode_tables_only [OF assms]
  by (simp_all add: build_path_dfa_def build_dns_dfa_def encode_dfa_def)

text \<open>The bag of matches that a step leaves.\<close>

fun bag_step :: "Match multiset \<Rightarrow> matches_op \<Rightarrow> Match multiset set" where
  "bag_step M (OpAdd m) = {add_mset m M}"
| "bag_step M (OpReplace f t) = {add_mset t (M - {#x#}) | x. x \<in># M \<and> is_eq_to x f}"
| "bag_step M (OpDel m) = {M - {#x#} | x. x \<in># M \<and> is_eq_to x m}"

lemma matches_step_bag:
  assumes wf: "build_wf lib" and step: "matches_step lib ms a = (ms', Inr ())"
  shows "mset (ms_matches ms') \<in> bag_step (mset (ms_matches ms)) a"
proof (cases a)
  case (OpAdd m)
  with matches_add_ok [OF wf, of ms m ms'] step show ?thesis by auto
next
  case (OpReplace f t)
  with matches_replace_ok [OF wf, of ms f t ms'] step obtain pos
    where pos: "position (\<lambda>m. is_eq_to m f) (ms_matches ms) = Some pos"
      and ms': "ms_matches ms' = (ms_matches ms)[pos := t]" by auto
  then show ?thesis
    unfolding OpReplace by (auto simp: position_Some mset_update intro!: exI [of _ "ms_matches ms ! pos"])
next
  case (OpDel m)
  with matches_del_ok [OF wf, of ms m ms'] step obtain pos
    where pos: "position (\<lambda>x. is_eq_to x m) (ms_matches ms) = Some pos"
      and ms': "ms_matches ms' = remove_at pos (ms_matches ms)" by auto
  then show ?thesis
    unfolding OpDel using mset_remove_at [of pos "ms_matches ms"]
    by (auto simp: position_Some intro!: exI [of _ "ms_matches ms ! pos"])
qed

end
