(* ===== verification/Netlink.thy ===== *)
theory Netlink
  imports Netlink_Io Matches_List
begin

text \<open>
  \<^verbatim>\<open>rebpf/netlink.rs\<close>: the rules and routes that carry the marked traffic to the output
  device, how they are taken down, and the reload of the eBPF configuration.  Each
  iteration of the \<^verbatim>\<open>watch_*\<close> loops is a function of the values the channels hold when it
  runs.
\<close>

section \<open>Taking rules and routes down\<close>

text \<open>The loop over a dump: the routes of the table, or the error that ends it.\<close>

fun table_routes :: "u32 \<Rightarrow> route_msg result list \<Rightarrow> (ip_addr \<times> u8) list result" where
  "table_routes table [] = Inr []"
| "table_routes table (Inl e # rs) = Inl e"
| "table_routes table (Inr m # rs) =
    (if g_table m \<noteq> Some table then table_routes table rs
     else rbind (table_routes table rs) (\<lambda>routes.
       Inr ((case g_dst m of None \<Rightarrow> V4 (Ipv4 0 0 0 0) | Some d \<Rightarrow> d, h_dst_len (g_hdr m)) # routes)))"

definition del_route_req :: "u32 \<Rightarrow> ip_addr \<times> u8 \<Rightarrow> nl_request" where
  "del_route_req table r = ReqDelRoute (route_default\<lparr>q_dst_len := snd r, q_scope := RT_SCOPE_NOWHERE,
     q_dst := Some (fst r), q_table := Some table\<rparr>)"

definition dump_table_req :: "u32 \<Rightarrow> nl_request" where
  "dump_table_req table = ReqGetRoutes (route_default\<lparr>q_replace := True, q_excl := True, q_table := Some table\<rparr>)"

definition clear_table :: "kernel \<Rightarrow> u32 \<Rightarrow> unit io" where
  "clear_table k table =
    io_bind (io_send k (dump_table_req table)) (\<lambda>_.
    io_bind (io_dump (kn_routes k)) (\<lambda>dump.
    io_bind (io_lift (table_routes table dump)) (\<lambda>routes.
    io_iter (\<lambda>r. io_bind (io_send k (del_route_req table r)) (\<lambda>_.
                 io_bind (io_try (io_recv (kn_ack k))) (\<lambda>_. io_ret ()))) routes)))"

definition del_rule_table :: "u32 \<Rightarrow> nl_request" where
  "del_rule_table table = ReqDelRule (rule_default\<lparr>rr_table := Some table\<rparr>)"

definition del_rule_mark :: "u32 \<Rightarrow> nl_request" where
  "del_rule_mark mark = ReqDelRule (rule_default\<lparr>rr_fwmark := Some mark, rr_fwmask := Some 0\<rparr>)"

text \<open>\<^verbatim>\<open>for _ in 0..n\<close>: repeat a deletion until the kernel refuses.\<close>

fun del_until_err :: "kernel \<Rightarrow> nl_request \<Rightarrow> nat \<Rightarrow> unit io" where
  "del_until_err k r 0 = io_ret ()"
| "del_until_err k r (Suc n) =
    io_bind (io_send k r) (\<lambda>_.
    io_bind (io_try (io_recv (kn_ack k))) (\<lambda>res.
    if is_ok res then del_until_err k r n else io_ret ()))"

definition setup_static_rules :: "kernel \<Rightarrow> u32 \<Rightarrow> unit io" where
  "setup_static_rules k dns_table =
    io_request k (ReqNewRule (rule_default\<lparr>rr_create := True, rr_excl := True, rr_action := FR_ACT_TO_TBL,
      rr_priority := Some 0, rr_src := Some (V4 (Ipv4 0 0 0 0)), rr_table := Some dns_table\<rparr>))"

definition clear_static_rules :: "kernel \<Rightarrow> u32 \<Rightarrow> unit io" where
  "clear_static_rules k dns_table =
    io_bind (io_try (clear_table k dns_table)) (\<lambda>_. del_until_err k (del_rule_table dns_table) 1000)"

section \<open>The DNAT rule\<close>

definition ipv4_be_bytes :: "ipv4 \<Rightarrow> u8 list" where
  "ipv4_be_bytes addr = octets addr @ replicate 12 0"

definition u16_be_bytes :: "u16 \<Rightarrow> u8 list" where
  "u16_be_bytes p = [ucast (drop_bit 8 p), ucast p]"

definition get_latest_genid :: "kernel \<Rightarrow> u32 io" where
  "get_latest_genid k =
    io_bind (io_send k ReqNftGetGen) (\<lambda>_.
    io_bind (io_recv (kn_genid k)) (\<lambda>genid. io_lift (ok_or (Msg ''missing id'') genid)))"

definition dnat_exprs :: "u32 \<Rightarrow> ipv4 \<Rightarrow> u16 \<Rightarrow> nft_expr list" where
  "dnat_exprs mark addr port =
    [NftPayload 1 1 9 1, NftCmpEq 1 [17],
     NftMetaMark 1, NftCmpEq 1 (to_ne_bytes mark),
     NftPayload 1 2 2 2, NftCmpEq 1 (u16_be_bytes port),
     NftTarget ''DNAT'' 2 1 (ipv4_be_bytes addr) (ipv4_be_bytes addr)]"

text \<open>The loop over the rules of the chain: the handle of the first one with the mark.\<close>

fun find_handle :: "u32 \<Rightarrow> nft_rule_msg result list \<Rightarrow> u64 option result" where
  "find_handle mark [] = Inr None"
| "find_handle mark (Inl e # rs) = Inl e"
| "find_handle mark (Inr m # rs) =
    (if n_userdata m = Some (to_ne_bytes mark)
     then rbind (ok_or (Msg ''missing handle'') (n_handle m)) (\<lambda>h. Inr (Some h))
     else find_handle mark rs)"

text \<open>The operation of the batch; \<^verbatim>\<open>unwrap\<close> turns a failure to send into a panic.\<close>

definition iptables_op :: "kernel \<Rightarrow> bool \<Rightarrow> u32 \<Rightarrow> ipv4 \<Rightarrow> u16 \<Rightarrow> nft_op io" where
  "iptables_op k insert_rule mark addr port =
    (if insert_rule then io_ret (NftNewRule (to_ne_bytes mark) (dnat_exprs mark addr port))
     else
       io_bind (io_unwrap (io_send k (ReqNftGetRules ''nat'' ''OUTPUT''))) (\<lambda>_.
       io_bind (io_dump (kn_rules k)) (\<lambda>dump.
       io_bind (io_lift (find_handle mark dump)) (\<lambda>handle.
       case handle of None \<Rightarrow> io_err (Msg ''Didn't found the rule'')
       | Some h \<Rightarrow> io_ret (NftDelRule h)))))"

definition iptables_rule_try :: "kernel \<Rightarrow> bool \<Rightarrow> u32 \<Rightarrow> ipv4 \<Rightarrow> u16 \<Rightarrow> unit io" where
  "iptables_rule_try k insert_rule mark addr port =
    io_bind (get_latest_genid k) (\<lambda>genid.
    io_bind (iptables_op k insert_rule mark addr port) (\<lambda>op.
    io_bind (io_send k (ReqNftBatch genid ''nat'' ''OUTPUT'' op)) (\<lambda>_.
    io_recv (kn_batch k))))"

partial_function (option) iptables_rule ::
  "kernel \<Rightarrow> bool \<Rightarrow> u32 \<Rightarrow> ipv4 \<Rightarrow> u16 \<Rightarrow> nl_request list \<Rightarrow> (nl_request list \<times> unit result) option" where
  "iptables_rule k insert_rule mark addr port log =
    (let (log', res) = iptables_rule_try k insert_rule mark addr port log
     in if res = Inl Interrupted then iptables_rule k insert_rule mark addr port log'
        else Some (log', res))"

fun del_iptables :: "kernel \<Rightarrow> u32 \<Rightarrow> nat \<Rightarrow> unit oio" where
  "del_iptables k mark 0 = oio_of (io_ret ())"
| "del_iptables k mark (Suc n) =
    oio_bind (oio_try (iptables_rule k False mark (Ipv4 0 0 0 0) 0)) (\<lambda>res.
    if is_ok res then del_iptables k mark n else oio_of (io_ret ()))"

definition clear_rules :: "kernel \<Rightarrow> u32 \<Rightarrow> unit oio" where
  "clear_rules k old_mark =
    oio_bind (oio_of (clear_table k old_mark)) (\<lambda>_.
    oio_bind (oio_of (del_until_err k (del_rule_table old_mark) 1000)) (\<lambda>_.
    oio_bind (oio_of (del_until_err k (del_rule_mark old_mark) 1000)) (\<lambda>_.
    del_iptables k old_mark 1000)))"

section \<open>Cloning the local routes\<close>

text \<open>
  What the source uses of the bindings: the bytes of a \<^verbatim>\<open>Rtmsg\<close>, and \<^verbatim>\<open>IterableChunks\<close> as
  the type of each attribute and the offset of its payload.
\<close>

record nl_lib =
  nb_rtmsg :: "rtmsg \<Rightarrow> u8 list"
  nb_chunks :: "u8 list \<Rightarrow> (nat \<times> nat) list"

definition RTMSG_LEN :: nat where "RTMSG_LEN = 12"

definition clone_bytes :: "nl_lib \<Rightarrow> route_msg \<Rightarrow> u32 \<Rightarrow> u8 list result" where
  "clone_bytes nb m new_mark =
    (let h = (g_hdr m)\<lparr>h_table := 0, h_flags := h_flags (g_hdr m) AND NOT 16\<rparr>;
         buf = nb_rtmsg nb h @ g_buf m;
         pos = (case find (\<lambda>c. fst c = 15) (nb_chunks nb (drop RTMSG_LEN buf)) of
                  None \<Rightarrow> 0 | Some c \<Rightarrow> RTMSG_LEN + snd c)
     in if pos + 4 \<le> length buf then Inr (take pos buf @ to_ne_bytes new_mark @ drop (pos + 4) buf)
        else Inl Panic)"

definition clonable :: "route_msg \<Rightarrow> bool" where
  "clonable m \<longleftrightarrow> g_table m = Some (of_nat RT_TABLE_MAIN) \<and> 1 < h_dst_len (g_hdr m)"

fun clone_loop :: "kernel \<Rightarrow> nl_lib \<Rightarrow> u32 \<Rightarrow> route_msg result list \<Rightarrow> unit io" where
  "clone_loop k nb mark [] = io_ret ()"
| "clone_loop k nb mark (Inl e # ms) = io_err e"
| "clone_loop k nb mark (Inr m # ms) =
    (if \<not> clonable m then clone_loop k nb mark ms
     else io_bind (io_lift (clone_bytes nb m mark)) (\<lambda>buf.
          io_bind (io_request k (ReqRaw 24 buf)) (\<lambda>_. clone_loop k nb mark ms)))"

definition dump_main_req :: nl_request where
  "dump_main_req = ReqGetRoutes (route_default\<lparr>q_hdr_table := of_nat RT_TABLE_MAIN\<rparr>)"

definition clone_routes :: "kernel \<Rightarrow> nl_lib \<Rightarrow> u32 \<Rightarrow> unit io" where
  "clone_routes k nb new_mark =
    io_bind (io_send k dump_main_req) (\<lambda>_.
    io_bind (io_dump (kn_routes k)) (clone_loop k nb new_mark))"

section \<open>Probing devices\<close>

definition IFF_UP :: u32 where "IFF_UP = 1"

fun link_addrs :: "u32 \<Rightarrow> addr_msg result list \<Rightarrow> ip_addr list result" where
  "link_addrs ifindex [] = Inr []"
| "link_addrs ifindex (Inl e # ms) = Inl e"
| "link_addrs ifindex (Inr m # ms) =
    rbind (link_addrs ifindex ms) (\<lambda>addrs.
      Inr (case a_local m of
             Some a \<Rightarrow> if a_index m = ifindex then a # addrs else addrs
           | None \<Rightarrow> addrs))"

fun link_gateway :: "u32 \<Rightarrow> route_msg result list \<Rightarrow> ip_addr option result" where
  "link_gateway ifindex [] = Inr None"
| "link_gateway ifindex (Inl e # ms) = Inl e"
| "link_gateway ifindex (Inr m # ms) =
    (if g_table m = Some (of_nat RT_TABLE_MAIN) \<and> g_oif m = Some ifindex \<and> g_gateway m \<noteq> None
     then Inr (g_gateway m) else link_gateway ifindex ms)"

definition get_link :: "kernel \<Rightarrow> string \<Rightarrow> Route io" where
  "get_link k ifname =
    io_bind (io_send k (ReqGetLink (LinkByName ifname True))) (\<lambda>_.
    io_bind (io_recv (kn_link k)) (\<lambda>l.
    let is_up = (k_flags l AND IFF_UP \<noteq> 0); ifindex = k_index l
    in io_bind (io_lift (ok_or (Msg ''missing ifname'') (k_ifname l))) (\<lambda>ifname.
       io_bind (io_send k (ReqGetAddrs RT_SCOPE_LINK)) (\<lambda>_.
       io_bind (io_dump (kn_addrs k)) (\<lambda>dump.
       io_bind (io_lift (link_addrs ifindex dump)) (\<lambda>addrs.
       io_bind (io_send k (ReqGetRoutes (route_default\<lparr>q_hdr_table := of_nat RT_TABLE_MAIN, q_oif := Some ifindex\<rparr>))) (\<lambda>_.
       io_bind (io_dump (kn_routes k)) (\<lambda>dump.
       io_bind (io_lift (link_gateway ifindex dump)) (\<lambda>gateway.
       io_ret \<lparr>r_is_up = is_up, r_ifindex = ifindex, r_ifname = ifname, r_addrs = addrs, r_gateway = gateway\<rparr>)))))))))"

definition get_default_link :: "kernel \<Rightarrow> Config \<Rightarrow> Route option io" where
  "get_default_link k config =
    io_bind (io_send k (ReqGetRoute (route_default\<lparr>q_dst_len := 32, q_dst := Some (V4 (c_probe_ipv4_addr config))\<rparr>))) (\<lambda>_.
    io_bind (io_recv (kn_route k)) (\<lambda>m.
    case g_oif m of None \<Rightarrow> io_ret None
    | Some ifindex \<Rightarrow>
      let addrs = (case g_prefsrc m of None \<Rightarrow> [] | Some a \<Rightarrow> [a]); gateway = g_gateway m
      in io_bind (io_send k (ReqGetLink (LinkByIndex ifindex))) (\<lambda>_.
         io_bind (io_recv (kn_link k)) (\<lambda>l.
         let is_up = (k_flags l AND IFF_UP \<noteq> 0)
         in case k_ifname l of None \<Rightarrow> io_ret None
            | Some ifname \<Rightarrow>
              io_ret (Some \<lparr>r_is_up = is_up, r_ifindex = ifindex, r_ifname = ifname, r_addrs = addrs, r_gateway = gateway\<rparr>)))))"

text \<open>One round of \<^verbatim>\<open>watch_routes\<close>: the value the channel holds afterwards, if one is sent.\<close>

definition watch_routes_step :: "kernel \<Rightarrow> State \<Rightarrow> Route option \<Rightarrow> Route option option io" where
  "watch_routes_step k conf routes =
    io_bind (io_try (get_link k (st_to_dev conf))) (\<lambda>res.
    case res of
      Inr new_route \<Rightarrow> if routes = Some new_route then io_ret None else io_ret (Some (Some new_route))
    | Inl e \<Rightarrow> io_ret (Some None))"

section \<open>Multicast notifications\<close>

definition RTM_NEWROUTE :: nat where "RTM_NEWROUTE = 24"
definition RTM_NEWLINK :: nat where "RTM_NEWLINK = 16"

text \<open>What one message makes the loop send: a new default route, \<^verbatim>\<open>to_changed\<close>.\<close>

record mc_out =
  mo_default :: "Route option option"
  mo_to_changed :: bool

definition mc_nothing :: mc_out where
  "mc_nothing = \<lparr>mo_default = None, mo_to_changed = False\<rparr>"

text \<open>\<^verbatim>\<open>get_default_link(..).ok().flatten()\<close>.\<close>

definition default_link_or_none :: "kernel \<Rightarrow> Config \<Rightarrow> Route option io" where
  "default_link_or_none k config =
    io_bind (io_try (get_default_link k config)) (\<lambda>res.
    io_ret (case res of Inl e \<Rightarrow> None | Inr r \<Rightarrow> r))"

definition multicast_newroute ::
  "kernel \<Rightarrow> State \<Rightarrow> Route option \<Rightarrow> Route option \<Rightarrow> route_msg \<Rightarrow> mc_out io" where
  "multicast_newroute k state default_route routes attrs =
    (if (case g_table attrs of None \<Rightarrow> 0 | Some t \<Rightarrow> t) \<noteq> 0 then io_ret mc_nothing
     else
       io_bind (if 0 < sint (ms_dns_count (st_matches state))
                then io_bind (default_link_or_none k (st_config state)) (\<lambda>new_default.
                     io_ret (if new_default \<noteq> default_route then Some new_default else None))
                else io_ret None) (\<lambda>sent.
       io_ret \<lparr>mo_default = sent,
               mo_to_changed = (case routes of None \<Rightarrow> False
                 | Some to_r \<Rightarrow> (case g_oif attrs of None \<Rightarrow> 0 | Some i \<Rightarrow> i) = r_ifindex to_r
                     \<or> c_allow_lan (st_config state))\<rparr>))"

definition multicast_newlink :: "State \<Rightarrow> Route option \<Rightarrow> link_msg \<Rightarrow> mc_out" where
  "multicast_newlink state routes l =
    (let ifindex = (if sint (k_index l) < 0 then 0 else k_index l);
         ifname = (case k_ifname l of None \<Rightarrow> [] | Some n \<Rightarrow> n)
     in if ifname = st_to_dev state then mc_nothing\<lparr>mo_to_changed := True\<rparr>
        else case routes of None \<Rightarrow> mc_nothing
          | Some to_r \<Rightarrow>
              if r_ifindex to_r = ifindex \<or> r_ifname to_r = ifname then mc_nothing\<lparr>mo_to_changed := True\<rparr>
              else mc_nothing)"

text \<open>One round of \<^verbatim>\<open>watch_multicast\<close>; \<^verbatim>\<open>message_type & !0b11\<close> drops the last two bits.\<close>

definition watch_multicast_step ::
  "kernel \<Rightarrow> State \<Rightarrow> Route option \<Rightarrow> Route option \<Rightarrow> nat \<Rightarrow> route_msg \<Rightarrow> link_msg \<Rightarrow> mc_out io" where
  "watch_multicast_step k state default_route routes message_type as_route as_link =
    (let t = 4 * (message_type div 4)
     in if t = RTM_NEWROUTE then multicast_newroute k state default_route routes as_route
        else if t = RTM_NEWLINK then io_ret (multicast_newlink state routes as_link)
        else io_ret mc_nothing)"

end
