(* ===== verification/Reload.thy ===== *)
theory Reload
  imports Netlink Bpf
begin

text \<open>
  The reload of \<^verbatim>\<open>rebpf/netlink.rs\<close>: the rules for a new mark, and the configuration
  handed to the loader.
\<close>

section \<open>State\<close>

text \<open>
  \<^verbatim>\<open>BpfCtx\<close>; the buffer \<^verbatim>\<open>ptr\<close>, \<^verbatim>\<open>len\<close>, \<^verbatim>\<open>cap\<close> that the C side fills is the list of its
  bytes.  An \<^verbatim>\<open>Instant\<close> is a number of nanoseconds.
\<close>

record BpfCtx =
  bc_mark :: "u32 option"
  bc_matches_time :: nat
  bc_matches :: "hashmap list"
  bc_last_gen :: u64
  bc_arena :: "u8 list"

record BpfConfig =
  bf_enable :: bool
  bf_enable_dns :: bool
  bf_mark :: u32
  bf_arena_buf :: "u8 list"
  bf_has_dfa :: bool
  bf_dfa :: bpf_DFA
  bf_generation :: u64

definition bpf_dfa_zero :: bpf_DFA where
  "bpf_dfa_zero = \<lparr>b_dfa_off = 0, b_start = 0, b_eoi = 0, b_fin_min = 0, b_fin_max = 0,
    b_match_slices_off = 0, b_redirect_table_off = 0, b_uid_table_off = 0, b_match_id_table_off = 0\<rparr>"

section \<open>Configuration of the eBPF program\<close>

text \<open>A failed build leaves the arena cleared; the error is a panic of the build.\<close>

definition bpf_reload :: "libs \<Rightarrow> BpfCtx \<Rightarrow> State \<Rightarrow> bool \<Rightarrow> u32 \<Rightarrow> (BpfCtx \<times> BpfConfig) result" where
  "bpf_reload lib ctx conf enable mark =
    (let ms = st_matches conf; generation = ms_generation ms;
         bpf = \<lparr>bf_enable = enable, bf_enable_dns = (enable \<and> 0 < sint (ms_dns_count ms)), bf_mark = mark,
                bf_arena_buf = [], bf_has_dfa = False, bf_dfa = bpf_dfa_zero, bf_generation = generation\<rparr>
     in if bc_last_gen ctx \<noteq> generation then
          let ctx = ctx\<lparr>bc_last_gen := generation, bc_arena := []\<rparr>
          in case build_path_dfa lib ms (bc_arena ctx) of
               Inr (arena, dfa) \<Rightarrow>
                 Inr (ctx\<lparr>bc_arena := arena\<rparr>, bpf\<lparr>bf_has_dfa := True, bf_dfa := dfa, bf_arena_buf := arena\<rparr>)
             | Inl Panic \<Rightarrow> Inl Panic
             | Inl e \<Rightarrow> Inr (ctx, bpf)
        else Inr (ctx, bpf\<lparr>bf_arena_buf := bc_arena ctx\<rparr>))"

section \<open>Rules for a new mark\<close>

definition rule_from_addr :: "u32 \<Rightarrow> ip_addr \<Rightarrow> nl_request" where
  "rule_from_addr new_mark addr = ReqNewRule (rule_default\<lparr>rr_create := True, rr_excl := True, rr_src_len := 32,
     rr_action := FR_ACT_TO_TBL, rr_src := Some addr, rr_table := Some new_mark, rr_priority := Some 0\<rparr>)"

definition rule_fwmark :: "u32 \<Rightarrow> nl_request" where
  "rule_fwmark new_mark = ReqNewRule (rule_default\<lparr>rr_create := True, rr_excl := True, rr_action := FR_ACT_TO_TBL,
     rr_fwmark := Some new_mark, rr_table := Some new_mark, rr_priority := Some 0\<rparr>)"

text \<open>The address of an IPv4 match, \<open>None\<close> where the loop continues with the next.\<close>

definition match_addr :: "libs \<Rightarrow> Match \<Rightarrow> (ipv4 \<times> u8) option" where
  "match_addr lib m =
    (if m_kind m \<noteq> Kind_ipv4 then None
     else case m_method m of
       Method_full \<Rightarrow> map_option (\<lambda>a. (a, 32)) (parse_ipv4 (m_pattern m))
     | Method_subnet \<Rightarrow> (case l_parse_ipv4net lib (m_pattern m) of Inl e \<Rightarrow> None | Inr net \<Rightarrow> Some net)
     | _ \<Rightarrow> None)"

definition rule_to_addr :: "u32 \<Rightarrow> Direction \<Rightarrow> ipv4 \<times> u8 \<Rightarrow> nl_request" where
  "rule_to_addr new_mark dir net = ReqNewRule (rule_default\<lparr>rr_create := True, rr_dst_len := snd net,
     rr_action := FR_ACT_TO_TBL,
     rr_table := Some (case dir of Direction_redirect \<Rightarrow> new_mark | Direction_bypass \<Rightarrow> of_nat RT_TABLE_MAIN),
     rr_dst := Some (V4 (fst net)), rr_priority := Some 0, rr_fwmark := Some new_mark, rr_fwmask := Some 0\<rparr>)"

definition match_rule :: "libs \<Rightarrow> u32 \<Rightarrow> Match \<Rightarrow> nl_request option" where
  "match_rule lib new_mark m = map_option (rule_to_addr new_mark (m_direction m)) (match_addr lib m)"

definition default_route_req :: "u32 \<Rightarrow> Route \<Rightarrow> nl_request" where
  "default_route_req new_mark to_r = ReqNewRoute (route_default\<lparr>q_create := True, q_excl := True,
     q_protocol := RTPROT_BOOT, q_type := RTN_UNICAST, q_table := Some new_mark, q_oif := Some (r_ifindex to_r),
     q_prefsrc := (case r_addrs to_r of [] \<Rightarrow> None | a # _ \<Rightarrow> Some a), q_gateway := r_gateway to_r\<rparr>)"

definition rule_unreachable :: "u32 \<Rightarrow> u32 option \<Rightarrow> nl_request" where
  "rule_unreachable new_mark prio = ReqNewRule (rule_default\<lparr>rr_create := True, rr_excl := True,
     rr_action := FR_ACT_UNREACHABLE, rr_fwmark := Some new_mark, rr_table := Some new_mark, rr_priority := prio\<rparr>)"

text \<open>The branch of \<^verbatim>\<open>watch_reload\<close> for an output that is up while the daemon is enabled.\<close>

definition attach_rules :: "kernel \<Rightarrow> nl_lib \<Rightarrow> libs \<Rightarrow> State \<Rightarrow> Route \<Rightarrow> u32 \<Rightarrow> unit oio" where
  "attach_rules k nb lib conf to_r new_mark =
    oio_bind (oio_of (io_iter (\<lambda>a. io_request k (rule_from_addr new_mark a)) (r_addrs to_r))) (\<lambda>_.
    oio_bind (oio_of (io_request k (rule_fwmark new_mark))) (\<lambda>_.
    oio_bind (oio_of (io_iter (\<lambda>m. case match_rule lib new_mark m of
        None \<Rightarrow> io_ret () | Some r \<Rightarrow> io_request k r) (ms_matches (st_matches conf)))) (\<lambda>_.
    oio_bind (oio_of (io_request k (default_route_req new_mark to_r))) (\<lambda>_.
    oio_bind (if c_allow_lan (st_config conf)
              then oio_bind (oio_try (oio_of (clone_routes k nb new_mark))) (\<lambda>_. oio_of (io_ret ()))
              else oio_of (io_request k (rule_unreachable new_mark (Some 0)))) (\<lambda>_.
    if c_spoof_dns (st_config conf)
    then oio_bind (oio_try (iptables_rule k True new_mark (c_spoof_dns_ipv4 (st_config conf)) 53)) (\<lambda>_. oio_of (io_ret ()))
    else oio_of (io_ret ()))))))"

text \<open>\<^verbatim>\<open>enable\<close> and \<^verbatim>\<open>blocker\<close> as the chain of branches sets them.\<close>

definition reload_blocker :: "State \<Rightarrow> Route option \<Rightarrow> bool \<times> string" where
  "reload_blocker conf routes =
    (case routes of
       Some r \<Rightarrow>
         if r_is_up r \<and> st_enable conf then (True, '''')
         else if \<not> st_enable conf then (False, '''')
         else if \<not> r_is_up r then (False, ''Output interface is down'')
         else (False, ''Output interface not found'')
     | None \<Rightarrow> (False, ''Output interface not found''))"

definition reload_rules :: "kernel \<Rightarrow> nl_lib \<Rightarrow> libs \<Rightarrow> State \<Rightarrow> Route option \<Rightarrow> u32 \<Rightarrow> (bool \<times> string) oio" where
  "reload_rules k nb lib conf routes new_mark =
    (let (enable, blocker) = reload_blocker conf routes
     in oio_bind (case routes of
           Some to_r \<Rightarrow> if enable then attach_rules k nb lib conf to_r new_mark else oio_of (io_ret ())
         | None \<Rightarrow> oio_of (io_ret ())) (\<lambda>_.
        if \<not> enable \<and> blocker \<noteq> '''' \<and> c_drop_egress_without_output (st_config conf)
        then oio_bind (oio_of (io_request k (rule_unreachable new_mark None))) (\<lambda>_.
             oio_of (io_ret (enable, blocker @ '' (dropping traffic)'')))
        else oio_of (io_ret (enable, blocker))))"

text \<open>
  One round of \<^verbatim>\<open>watch_reload\<close>, up to the exchange with the helper process: the new state
  of \<^verbatim>\<open>BpfCtx\<close>, and on success the configuration for the loader and the blocker.
\<close>

definition watch_reload_step ::
  "kernel \<Rightarrow> nl_lib \<Rightarrow> libs \<Rightarrow> State \<Rightarrow> Route option \<Rightarrow> u32 \<Rightarrow> BpfCtx
    \<Rightarrow> nl_request list \<Rightarrow> (nl_request list \<times> BpfCtx \<times> (BpfConfig \<times> string) result) option" where
  "watch_reload_step k nb lib conf routes new_mark ctx log =
    (let old = bc_mark ctx; ctx = ctx\<lparr>bc_mark := Some new_mark\<rparr>
     in case (case old of None \<Rightarrow> Some (log, Inr ()) | Some m \<Rightarrow> clear_rules k m log) of
          None \<Rightarrow> None
        | Some (log, Inl e) \<Rightarrow> Some (log, ctx, Inl e)
        | Some (log, Inr _) \<Rightarrow>
          (case reload_rules k nb lib conf routes new_mark log of
             None \<Rightarrow> None
           | Some (log, Inl e) \<Rightarrow> Some (log, ctx, Inl e)
           | Some (log, Inr (enable, blocker)) \<Rightarrow>
             (case bpf_reload lib ctx conf enable new_mark of
                Inl e \<Rightarrow> Some (log, ctx, Inl e)
              | Inr (ctx, bpf) \<Rightarrow> Some (log, ctx, Inr (bpf, blocker)))))"

section \<open>Traffic counters\<close>

record Stats =
  sx_time :: nat
  sx_tx_bytes :: u64
  sx_rx_bytes :: u64

record StatsHist =
  sh_prev :: Stats
  sh_cur :: Stats

definition netlink_get_stats :: "kernel \<Rightarrow> string \<Rightarrow> nat \<Rightarrow> StatsHist \<Rightarrow> StatsHist io" where
  "netlink_get_stats k ifname now hist =
    io_bind (io_send k (ReqGetLink (LinkByName ifname False))) (\<lambda>_.
    io_bind (io_recv (kn_link k)) (\<lambda>l.
    io_bind (io_lift (ok_or (Msg ''missing stats64'') (k_stats64 l))) (\<lambda>st.
    io_ret \<lparr>sh_prev = sh_cur hist, sh_cur = \<lparr>sx_time = now, sx_tx_bytes = fst st, sx_rx_bytes = snd st\<rparr>\<rparr>)))"

end
