(* ===== verification/Hooks.thy ===== *)
theory Hooks
  imports Reload Bpf_Correct
begin

text \<open>
  The eBPF hooks of \<^verbatim>\<open>rebpf/bpf.c\<close> with the state they share: the globals that the loader writes,
  the arena and the cache of verdicts; and the steps in which \<^verbatim>\<open>bpf_reload_config\<close> of
  \<^verbatim>\<open>rebpf/bpf-load.c\<close> replaces that state while the hooks run.  The page allocator of the kernel, the
  replacement policy of the LRU map and the order of events are parameters.
\<close>

section \<open>State\<close>

record TaskId =
  ti_pid :: u64
  ti_time :: u64

text \<open>
  What the hooks read of a task: \<open>ta_exe\<close> is the path of its executable from the file upwards, if it
  has one.
\<close>

record task_struct =
  ta_pid :: u32
  ta_start_boottime :: u64
  ta_uid :: u32
  ta_exe :: "u8 list list option"

definition task_id :: "task_struct \<Rightarrow> TaskId" where
  "task_id t = \<lparr>ti_pid = scast (ta_pid t), ti_time = ta_start_boottime t\<rparr>"

text \<open>
  The globals of the program and, last, \<^verbatim>\<open>links.last_gen\<close> of the loader.  \<open>bg_base\<close> says that \<^verbatim>\<open>BASE\<close> is
  not null; the memory is that of the arena from there on.
\<close>

record bpf_globals =
  bg_config :: BpfConfig
  bg_has_dfa :: bool
  bg_dfa :: bpf_DFA
  bg_base :: bool
  bg_pages :: u32
  bg_mem :: mem
  bg_cache :: "TaskId \<Rightarrow> match_res option"
  bg_last_gen :: u64

definition bpf_globals_zero :: bpf_globals where
  "bpf_globals_zero = \<lparr>bg_config = \<lparr>bf_enable = False, bf_enable_dns = False, bf_mark = 0, bf_arena_buf = [],
       bf_has_dfa = False, bf_dfa = bpf_dfa_zero, bf_generation = 0\<rparr>,
     bg_has_dfa = False, bg_dfa = bpf_dfa_zero, bg_base = False, bg_pages = 0, bg_mem = (\<lambda>a. 0),
     bg_cache = (\<lambda>i. None), bg_last_gen = 0\<rparr>"

section \<open>The arena\<close>

text \<open>
  \<open>alloc n\<close> says whether the kernel gives \<open>n\<close> pages, which it fills with zeros.  A load from the arena
  where no page is mapped gives zero.
\<close>

definition get_arena :: "(u32 \<Rightarrow> bool) \<Rightarrow> bpf_globals \<Rightarrow> bpf_globals" where
  "get_arena alloc g =
    (if bg_base g then g
     else let n = (if bg_pages g = 0 then 1 else bg_pages g)
          in g\<lparr>bg_pages := n, bg_base := alloc n, bg_mem := (\<lambda>a. 0)\<rparr>)"

definition arena_mem :: "bpf_globals \<Rightarrow> mem" where
  "arena_mem g = (if bg_base g then bg_mem g else (\<lambda>a. 0))"

section \<open>Verdicts with a cache\<close>

text \<open>
  \<^verbatim>\<open>bpf_map_update_elem\<close> on the LRU map, which may drop entries, the new one included: \<open>keep c k i\<close> says
  whether the entry of \<open>i\<close> survives when \<open>k\<close> is stored into \<open>c\<close>.
\<close>

type_synonym cache = "TaskId \<Rightarrow> match_res option"

type_synonym lru = "cache \<Rightarrow> TaskId \<Rightarrow> TaskId \<Rightarrow> bool"

definition lru_update :: "lru \<Rightarrow> cache \<Rightarrow> TaskId \<Rightarrow> match_res \<Rightarrow> cache" where
  "lru_update keep c k v = (\<lambda>i. if keep c k i then (c(k \<mapsto> v)) i else None)"

text \<open>The walk over the path needs the arena; an allocation that fails is tried again at the next use.\<close>

definition walk_arena :: "(u32 \<Rightarrow> bool) \<Rightarrow> task_struct \<Rightarrow> bpf_globals \<Rightarrow> bpf_globals" where
  "walk_arena alloc t g = (case ta_exe t of None \<Rightarrow> g | Some _ \<Rightarrow> get_arena alloc g)"

definition needs_mark ::
  "(u32 \<Rightarrow> bool) \<Rightarrow> lru \<Rightarrow> task_struct \<Rightarrow> match_ctx \<Rightarrow> bpf_globals \<Rightarrow> bpf_globals \<times> int \<times> match_ctx" where
  "needs_mark alloc keep t m g =
    (case bg_cache g (task_id t) of
       Some r \<Rightarrow> (g, uint (mr_redirect r), m\<lparr>mc_res := r\<rparr>)
     | None \<Rightarrow>
       let g = walk_arena alloc t g
       in case needs_mark_uncached (arena_mem g) (ta_exe t) m of
            (r, m) \<Rightarrow>
              if r < 0 then (g, -1, m)
              else (g\<lparr>bg_cache := lru_update keep (bg_cache g) (task_id t) (mc_res m)\<rparr>, uint (mr_redirect (mc_res m)), m))"

section \<open>The hooks\<close>

text \<open>
  Each hook over the function that judges a task, \<open>needs_mark\<close> in the program.  The result of
  \<^verbatim>\<open>cgroup_socket_create\<close> is the mark given to the socket.
\<close>

type_synonym judge = "task_struct \<Rightarrow> match_ctx \<Rightarrow> bpf_globals \<Rightarrow> bpf_globals \<times> int \<times> match_ctx"

definition AF_INET6 :: u32 where "AF_INET6 = 10"

definition is_inet :: "u32 \<Rightarrow> bool" where
  "is_inet family \<longleftrightarrow> family = 2 \<or> family = AF_INET6"

definition socket_create_with :: "judge \<Rightarrow> u32 \<Rightarrow> task_struct \<Rightarrow> bpf_globals \<Rightarrow> bpf_globals \<times> u32 option" where
  "socket_create_with judge family t g =
    (if \<not> bf_enable (bg_config g) then (g, None)
     else if \<not> is_inet family then (g, None)
     else if \<not> bg_has_dfa g then (g, None)
     else case judge t (match_ctx_init (ta_uid t) (bg_dfa g)) g of
            (g, r, m) \<Rightarrow> (g, if r \<le> 0 then None else Some (bf_mark (bg_config g))))"

definition cgroup_socket_create ::
  "(u32 \<Rightarrow> bool) \<Rightarrow> lru \<Rightarrow> u32 \<Rightarrow> task_struct \<Rightarrow> bpf_globals \<Rightarrow> bpf_globals \<times> u32 option" where
  "cgroup_socket_create alloc keep = socket_create_with (needs_mark alloc keep)"

text \<open>A round of the iterator: \<open>ic_family\<close> is the family of the socket behind the file, if it is one.\<close>

record iter_ctx =
  ic_task :: "task_struct option"
  ic_family :: "u32 option"
  ic_fd :: u32

record ProcFdEntry =
  pf_pid :: u64
  pf_start_boottime :: u64
  pf_fd :: u32

text \<open>The part of \<^verbatim>\<open>dump_iter_file\<close> before the branch: the task and its verdict, if there is one.\<close>

definition iter_judge :: "judge \<Rightarrow> iter_ctx \<Rightarrow> bpf_globals \<Rightarrow> bpf_globals \<times> (task_struct \<times> match_ctx) option" where
  "iter_judge judge c g =
    (case (ic_task c, ic_family c) of
       (Some t, Some family) \<Rightarrow>
         if \<not> is_inet family then (g, None)
         else if \<not> bg_has_dfa g then (g, None)
         else (case judge t (match_ctx_init (ta_uid t) (bg_dfa g)) g of
                 (g, r, m) \<Rightarrow> (g, if r < 0 then None else Some (t, m)))
     | _ \<Rightarrow> (g, None))"

definition fd_entry :: "iter_ctx \<Rightarrow> task_struct \<Rightarrow> ProcFdEntry" where
  "fd_entry c t = \<lparr>pf_pid = scast (ta_pid t), pf_start_boottime = ta_start_boottime t, pf_fd = ic_fd c\<rparr>"

definition refresh_socket_with :: "judge \<Rightarrow> iter_ctx \<Rightarrow> bpf_globals \<Rightarrow> bpf_globals \<times> ProcFdEntry list" where
  "refresh_socket_with judge c g =
    (case iter_judge judge c g of
       (g, None) \<Rightarrow> (g, [])
     | (g, Some (t, m)) \<Rightarrow> (g, if mr_redirect (mc_res m) = 0 then [] else [fd_entry c t]))"

text \<open>
  The name in the directory entry; without a file the loads from the null pointer give an empty one.
\<close>

definition exe_name :: "task_struct \<Rightarrow> u8 list" where
  "exe_name t = (case ta_exe t of Some (name # _) \<Rightarrow> name | _ \<Rightarrow> [])"

definition proc_record :: "u32 \<Rightarrow> u8 list \<Rightarrow> u8 list" where
  "proc_record pat_id name = to_ne_bytes pat_id @ to_ne_bytes (of_nat (length name)) @ name"

definition dump_proc_with :: "judge \<Rightarrow> iter_ctx \<Rightarrow> bpf_globals \<Rightarrow> bpf_globals \<times> u8 list" where
  "dump_proc_with judge c g =
    (case iter_judge judge c g of
       (g, None) \<Rightarrow> (g, [])
     | (g, Some (t, m)) \<Rightarrow>
       (g, concat (map (\<lambda>i. proc_record (match_id_at (arena_mem g) (mc_dfa m) (mr_table_off (mc_res m) + of_nat i)) (exe_name t))
             [0..<unat (mr_table_len (mc_res m))])))"

definition refresh_sockets ::
  "(u32 \<Rightarrow> bool) \<Rightarrow> lru \<Rightarrow> iter_ctx \<Rightarrow> bpf_globals \<Rightarrow> bpf_globals \<times> ProcFdEntry list" where
  "refresh_sockets alloc keep = refresh_socket_with (needs_mark alloc keep)"

definition dump_socket_procs ::
  "(u32 \<Rightarrow> bool) \<Rightarrow> lru \<Rightarrow> iter_ctx \<Rightarrow> bpf_globals \<Rightarrow> bpf_globals \<times> u8 list" where
  "dump_socket_procs alloc keep = dump_proc_with (needs_mark alloc keep)"

section \<open>A new configuration\<close>

text \<open>\<^verbatim>\<open>reload_config\<close>: pages for the new arena, where there are too few, and an empty cache.\<close>

definition reload_config :: "(u32 \<Rightarrow> bool) \<Rightarrow> u32 \<Rightarrow> bpf_globals \<Rightarrow> bpf_globals" where
  "reload_config alloc npages g =
    (let g = (if \<not> bg_base g \<or> bg_pages g < npages
              then g\<lparr>bg_pages := npages, bg_base := alloc npages, bg_mem := (\<lambda>a. 0)\<rparr> else g)
     in g\<lparr>bg_cache := (\<lambda>i. None)\<rparr>)"

text \<open>\<^verbatim>\<open>ALIGN_UP(len, PAGE_SIZE) / PAGE_SIZE\<close>.\<close>

definition arena_npages :: "u8 list \<Rightarrow> u32" where
  "arena_npages buf = and (of_nat (length buf) + 4095) (not 4095) div 4096"

text \<open>
  \<^verbatim>\<open>bpf_reload_config\<close> as the hooks see it, an assignment or the run of the program at a time.  \<open>None\<close>
  is a failed \<^verbatim>\<open>EXPECT\<close>.
\<close>

datatype load_pc = Load_config | Load_prog | Load_gen | Load_has_dfa | Load_dfa | Load_arena | Load_done

fun load_step :: "(u32 \<Rightarrow> bool) \<Rightarrow> BpfConfig \<Rightarrow> load_pc \<times> bpf_globals \<Rightarrow> (load_pc \<times> bpf_globals) option" where
  "load_step alloc conf (Load_config, g) = Some (Load_prog, g\<lparr>bg_config := conf\<rparr>)"
| "load_step alloc conf (Load_prog, g) = Some (Load_gen, reload_config alloc (arena_npages (bf_arena_buf conf)) g)"
| "load_step alloc conf (Load_gen, g) =
    Some (if bg_last_gen g = bf_generation conf then (Load_done, g)
          else (Load_has_dfa, g\<lparr>bg_last_gen := bf_generation conf\<rparr>))"
| "load_step alloc conf (Load_has_dfa, g) = Some (Load_dfa, g\<lparr>bg_has_dfa := bf_has_dfa conf\<rparr>)"
| "load_step alloc conf (Load_dfa, g) = Some (Load_arena, g\<lparr>bg_dfa := bf_dfa conf\<rparr>)"
| "load_step alloc conf (Load_arena, g) =
    (if bf_arena_buf conf = [] \<or> \<not> bg_base g then Some (Load_done, g)
     else if ARENA_SIZE < length (bf_arena_buf conf) then None
     else Some (Load_done, g\<lparr>bg_mem := load_arena (bf_arena_buf conf) (bg_mem g)\<rparr>))"
| "load_step alloc conf (Load_done, g) = Some (Load_done, g)"

text \<open>Without interruption; six steps are enough.\<close>

fun load_steps :: "nat \<Rightarrow> (u32 \<Rightarrow> bool) \<Rightarrow> BpfConfig \<Rightarrow> load_pc \<times> bpf_globals \<Rightarrow> (load_pc \<times> bpf_globals) option" where
  "load_steps 0 alloc conf s = Some s"
| "load_steps (Suc n) alloc conf s = Option.bind (load_step alloc conf s) (load_steps n alloc conf)"

definition load_config :: "(u32 \<Rightarrow> bool) \<Rightarrow> BpfConfig \<Rightarrow> bpf_globals \<Rightarrow> bpf_globals option" where
  "load_config alloc conf g = map_option snd (load_steps 6 alloc conf (Load_config, g))"

end
