(* ===== verification/Hooks_Correct.thy ===== *)
theory Hooks_Correct
  imports Hooks
begin

text \<open>
  Properties of the hooks: the pages of the arena, and the locale \<open>judging\<close>, which states what the hooks
  rely on of the function that judges a task.  The one with the cache is such a function as long as
  tasks keep executable and user, so that its runs are those of the program without a cache.
\<close>

section \<open>The arena\<close>

lemma arena_mem_get_arena [simp]: "arena_mem (get_arena alloc g) = arena_mem g"
  by (auto simp: arena_mem_def get_arena_def Let_def)

lemma walk_arena_simps [simp]:
  "arena_mem (walk_arena alloc t g) = arena_mem g"
  "bg_cache (walk_arena alloc t g) = bg_cache g"
  "bg_config (walk_arena alloc t g) = bg_config g"
  "bg_has_dfa (walk_arena alloc t g) = bg_has_dfa g"
  "bg_dfa (walk_arena alloc t g) = bg_dfa g"
  "bg_last_gen (walk_arena alloc t g) = bg_last_gen g"
  "bg_base g \<Longrightarrow> walk_arena alloc t g = g"
  by (auto simp: walk_arena_def get_arena_def arena_mem_def Let_def split: option.split)

lemma arena_npages_unat:
  assumes "length buf \<le> 2 ^ 31"
  shows "unat (arena_npages buf) = (length buf + 4095) div 4096"
proof -
  have m: "(4095 :: u32) = mask 12" by (simp add: mask_eq_exp_minus_1)
  have k: "and w (not 4095) div 4096 = drop_bit 12 w" for w :: u32
  proof -
    have "and w (not 4095) div 4096 = drop_bit 12 (and w (not (mask 12)))"
      unfolding m by (simp add: drop_bit_eq_div)
    also have "\<dots> = drop_bit 12 w"
      by (rule bit_word_eqI) (simp only: bit_drop_bit_eq bit_and_iff bit_not_iff bit_mask_iff o_def, auto dest: bit_imp_le_length)
    finally show ?thesis .
  qed
  have "unat (of_nat (length buf) + 4095 :: u32) = length buf + 4095"
    using assms by (simp add: unat_word_ariths unat_of_nat take_bit_nat_eq_self)
  then show ?thesis unfolding arena_npages_def k by (simp only: unat_drop_bit_eq) (simp add: drop_bit_eq_div)
qed

lemma arena_npages_small:
  assumes "buf \<noteq> []" and "length buf \<le> ARENA_SIZE"
  shows "0 < arena_npages buf" and "arena_npages buf \<le> 512"
proof -
  have "0 < unat (arena_npages buf)" "unat (arena_npages buf) \<le> 512"
    using assms by (cases buf; simp add: arena_npages_unat ARENA_SIZE_def div_greater_zero_iff)+
  then show "0 < arena_npages buf" "arena_npages buf \<le> 512"
    by (simp_all add: word_less_nat_alt word_le_nat_alt)
qed

lemma arena_npages_Nil [simp]: "arena_npages [] = 0"
  using arena_npages_unat [of "[]"] by (simp add: unat_eq_zero)

text \<open>Without an arena there is no verdict: the table of the final state is empty.\<close>

lemma needs_mark_uncached_zero: "fst (needs_mark_uncached (\<lambda>a. 0) exe m) = -1"
proof -
  have z: "slices_at (\<lambda>a. 0) dfa i = 0" for dfa i
    by (simp add: slices_at_def read_u32_def from_ne_bytes_def)
  show ?thesis
    by (auto simp: needs_mark_uncached_def Let_def z split: option.split prod.split bool.split)
qed

section \<open>What the walk changes\<close>

lemma rev_table_off: "b_match_id_table_off (snd (match_regex_rev mem input dfa)) = b_match_id_table_off dfa"
  by (simp add: match_regex_rev_def Let_def)

lemma path_loop_table_off: "b_match_id_table_off (snd (path_loop mem n dents dfa)) = b_match_id_table_off dfa"
proof (induction mem n dents dfa rule: path_loop.induct)
  case (3 mem n name pars dfa)
  have "b_match_id_table_off d = b_match_id_table_off dfa" if "match_regex_rev mem name dfa = (b, d)" for b d
    using rev_table_off [of mem name dfa] that by simp
  moreover have "b_match_id_table_off e = b_match_id_table_off d" if "match_regex_rev mem [SLASH] d = (b, e)" for b d e
    using rev_table_off [of mem "[SLASH]" d] that by simp
  ultimately show ?case
    using 3 by (auto split: prod.split bool.split)
qed simp_all

lemma uncached_table_off:
  "needs_mark_uncached mem exe m = (r, m') \<Longrightarrow> b_match_id_table_off (mc_dfa m') = b_match_id_table_off (mc_dfa m)"
proof -
  have "b_match_id_table_off d = b_match_id_table_off (mc_dfa m)" if "match_regex_rev_path mem dents (mc_dfa m) = (b, d)" for dents b d
    using that path_loop_table_off [of mem PATH_MAX dents "mc_dfa m"]
    by (auto simp: match_regex_rev_path_def match_regex_rev_fin_def Let_def split: prod.splits bool.splits if_splits)
  then show "needs_mark_uncached mem exe m = (r, m') \<Longrightarrow> b_match_id_table_off (mc_dfa m') = b_match_id_table_off (mc_dfa m)"
    by (auto simp: needs_mark_uncached_def Let_def split: option.splits prod.splits bool.splits if_splits)
qed

lemma uncached_result:
  "needs_mark_uncached mem exe m = (r, m') \<Longrightarrow> r = -1 \<or> r = uint (mr_redirect (mc_res m'))"
  by (auto simp: needs_mark_uncached_def Let_def split: option.splits prod.splits bool.splits if_splits)

section \<open>The cache\<close>

text \<open>The verdict for a task with the automaton in force.\<close>

definition verdict :: "bpf_globals \<Rightarrow> task_struct \<Rightarrow> int \<times> match_ctx" where
  "verdict g t = needs_mark_uncached (arena_mem g) (ta_exe t) (match_ctx_init (ta_uid t) (bg_dfa g))"

text \<open>\<open>procs\<close> is the table of processes: who a \<^verbatim>\<open>TaskId\<close> stands for.\<close>

definition coherent :: "(TaskId \<Rightarrow> task_struct) \<Rightarrow> bpf_globals \<Rightarrow> bool" where
  "coherent procs g \<longleftrightarrow>
    (\<forall>i r. bg_cache g i = Some r \<longrightarrow> 0 \<le> fst (verdict g (procs i)) \<and> r = mc_res (snd (verdict g (procs i))))"

text \<open>The program without its cache.\<close>

definition judge_uncached :: "(u32 \<Rightarrow> bool) \<Rightarrow> judge" where
  "judge_uncached alloc t m g =
    (let g = walk_arena alloc t g
     in case needs_mark_uncached (arena_mem g) (ta_exe t) m of (r, m) \<Rightarrow> (g, r, m))"

definition core :: "bpf_globals \<Rightarrow> bpf_globals" where
  "core g = g\<lparr>bg_cache := (\<lambda>i. None)\<rparr>"

lemma core_simps [simp]:
  "bg_config (core g) = bg_config g" "bg_has_dfa (core g) = bg_has_dfa g" "bg_dfa (core g) = bg_dfa g"
  "arena_mem (core g) = arena_mem g" "core (core g) = core g" "bg_base (core g) = bg_base g"
  "walk_arena alloc t (core g) = core (walk_arena alloc t g)"
  "core (g\<lparr>bg_cache := c\<rparr>) = core g" "arena_mem (g\<lparr>bg_cache := c\<rparr>) = arena_mem g"
  by (auto simp: core_def arena_mem_def walk_arena_def get_arena_def Let_def split: option.split)

lemma coherent_empty: "bg_cache g = (\<lambda>i. None) \<Longrightarrow> coherent procs g"
  by (simp add: coherent_def)

lemma coherent_base:
  assumes "coherent procs g" and "bg_cache g i = Some r"
  shows "bg_base g"
proof (rule ccontr)
  assume "\<not> bg_base g"
  then have "fst (verdict g (procs i)) = -1"
    by (simp add: verdict_def arena_mem_def needs_mark_uncached_zero)
  moreover have "0 \<le> fst (verdict g (procs i))"
    using assms unfolding coherent_def by blast
  ultimately show False by simp
qed

text \<open>
  What the hooks rely on of the function that judges a task: on the globals without cache it behaves
  as the uncached one, and it keeps the invariant.
\<close>

locale judging =
  fixes alloc :: "u32 \<Rightarrow> bool" and procs :: "TaskId \<Rightarrow> task_struct" and judge :: judge
  assumes judge_ok: "coherent procs g \<Longrightarrow> procs (task_id t) = t \<Longrightarrow>
    judge t (match_ctx_init (ta_uid t) (bg_dfa g)) g = (g', r, m) \<Longrightarrow>
    coherent procs g' \<and> (\<exists>m'. judge_uncached alloc t (match_ctx_init (ta_uid t) (bg_dfa g)) (core g) = (core g', r, m')
      \<and> (0 \<le> r \<longrightarrow> mc_res m = mc_res m' \<and> b_match_id_table_off (mc_dfa m) = b_match_id_table_off (mc_dfa m')))"
begin

lemma socket_create_ok:
  assumes "coherent procs g" and "procs (task_id t) = t" and "socket_create_with judge family t g = (g', k)"
  shows "coherent procs g' \<and> socket_create_with (judge_uncached alloc) family t (core g) = (core g', k)"
proof (cases "bf_enable (bg_config g) \<and> is_inet family \<and> bg_has_dfa g")
  case True
  obtain g1 r m where j: "judge t (match_ctx_init (ta_uid t) (bg_dfa g)) g = (g1, r, m)"
    by (metis prod.exhaust)
  from judge_ok [OF assms(1,2) j] assms(3) True j show ?thesis
    by (auto simp: socket_create_with_def)
next
  case False
  with assms(1,3) show ?thesis by (auto simp: socket_create_with_def split: if_splits)
qed

lemma iter_judge_ok:
  assumes "coherent procs g" and "\<And>t. ic_task c = Some t \<Longrightarrow> procs (task_id t) = t" and "iter_judge judge c g = (g', j)"
  shows "coherent procs g' \<and> (\<exists>j'. iter_judge (judge_uncached alloc) c (core g) = (core g', j')
    \<and> rel_option (\<lambda>(t, m) (t', m'). t = t' \<and> mc_res m = mc_res m'
        \<and> b_match_id_table_off (mc_dfa m) = b_match_id_table_off (mc_dfa m')) j j')"
proof (cases "\<exists>t family. ic_task c = Some t \<and> ic_family c = Some family \<and> is_inet family \<and> bg_has_dfa g")
  case True
  then obtain t family where c: "ic_task c = Some t" "ic_family c = Some family" "is_inet family" "bg_has_dfa g"
    by blast
  obtain g1 r m where j: "judge t (match_ctx_init (ta_uid t) (bg_dfa g)) g = (g1, r, m)"
    by (metis prod.exhaust)
  from judge_ok [OF assms(1) assms(2) [OF c(1)] j] assms(3) c j show ?thesis
    by (auto simp: iter_judge_def)
next
  case False
  with assms(1,3) show ?thesis by (auto simp: iter_judge_def split: if_splits option.splits)
qed

lemma refresh_socket_ok:
  assumes "coherent procs g" and "\<And>t. ic_task c = Some t \<Longrightarrow> procs (task_id t) = t" and "refresh_socket_with judge c g = (g', es)"
  shows "coherent procs g' \<and> refresh_socket_with (judge_uncached alloc) c (core g) = (core g', es)"
proof -
  obtain g1 j where j: "iter_judge judge c g = (g1, j)" by fastforce
  from iter_judge_ok [OF assms(1,2) j] assms(3) j show ?thesis
    by (auto simp: refresh_socket_with_def option_rel_Some1 split: option.splits)
qed

lemma dump_proc_ok:
  assumes "coherent procs g" and "\<And>t. ic_task c = Some t \<Longrightarrow> procs (task_id t) = t" and "dump_proc_with judge c g = (g', bs)"
  shows "coherent procs g' \<and> dump_proc_with (judge_uncached alloc) c (core g) = (core g', bs)"
proof -
  obtain g1 j where j: "iter_judge judge c g = (g1, j)" by fastforce
  from iter_judge_ok [OF assms(1,2) j] assms(3) j show ?thesis
    by (auto simp: dump_proc_with_def match_id_at_def option_rel_Some1 split: option.splits)
qed

end

text \<open>The cached function is such a one.\<close>

lemma needs_mark_judges:
  assumes ok: "coherent procs g" and t: "procs (task_id t) = t"
    and run: "needs_mark alloc keep t (match_ctx_init (ta_uid t) (bg_dfa g)) g = (g', r, m)"
  shows "coherent procs g' \<and> (\<exists>m'. judge_uncached alloc t (match_ctx_init (ta_uid t) (bg_dfa g)) (core g) = (core g', r, m')
      \<and> (0 \<le> r \<longrightarrow> mc_res m = mc_res m' \<and> b_match_id_table_off (mc_dfa m) = b_match_id_table_off (mc_dfa m')))"
proof (cases "bg_cache g (task_id t)")
  case (Some c)
  obtain q m' where v: "verdict g t = (q, m')" by fastforce
  have "0 \<le> fst (verdict g (procs (task_id t))) \<and> c = mc_res (snd (verdict g (procs (task_id t))))"
    using ok Some unfolding coherent_def by blast
  with v t have "0 \<le> q" "c = mc_res m'" by simp_all
  moreover have "q = uint (mr_redirect (mc_res m'))"
    using uncached_result [OF v [unfolded verdict_def]] \<open>0 \<le> q\<close> by auto
  moreover have "b_match_id_table_off (mc_dfa m') = b_match_id_table_off (bg_dfa g)"
    using uncached_table_off [OF v [unfolded verdict_def]] by (simp add: match_ctx_init_def)
  ultimately show ?thesis
    using run Some v ok coherent_base [OF ok Some]
    by (auto simp: needs_mark_def judge_uncached_def verdict_def match_ctx_init_def Let_def)
next
  case None
  let ?g = "walk_arena alloc t g"
  obtain q m' where v: "verdict g t = (q, m')" by fastforce
  note res = uncached_result [OF v [unfolded verdict_def]]
  have same: "verdict (?g\<lparr>bg_cache := c\<rparr>) u = verdict g u" for c u
    by (simp add: verdict_def)
  have keep: "coherent procs (?g\<lparr>bg_cache := c\<rparr>)"
    if "\<And>i r. c i = Some r \<Longrightarrow> bg_cache g i = Some r \<or> i = task_id t \<and> r = mc_res m' \<and> 0 \<le> q" for c
    using that ok t v unfolding coherent_def same by simp (metis fst_conv snd_conv)
  have "coherent procs ?g"
    using ok by (simp add: coherent_def verdict_def)
  moreover have "coherent procs (?g\<lparr>bg_cache := lru_update keep (bg_cache g) (task_id t) (mc_res m')\<rparr>)" if "0 \<le> q"
    using that by (intro keep) (auto simp: lru_update_def split: if_splits)
  ultimately show ?thesis
    using run None v res
    by (auto simp: needs_mark_def judge_uncached_def verdict_def Let_def split: if_splits)
qed

section \<open>Histories\<close>

text \<open>What happens to the program: sockets are created and the iterators visit files.\<close>

datatype hook_event = Ev_socket u32 task_struct | Ev_refresh iter_ctx | Ev_dump iter_ctx

datatype hook_out = Out_mark "u32 option" | Out_fds "ProcFdEntry list" | Out_names "u8 list"

fun hook_step :: "judge \<Rightarrow> hook_event \<Rightarrow> bpf_globals \<Rightarrow> bpf_globals \<times> hook_out" where
  "hook_step judge (Ev_socket family t) g = map_prod id Out_mark (socket_create_with judge family t g)"
| "hook_step judge (Ev_refresh c) g = map_prod id Out_fds (refresh_socket_with judge c g)"
| "hook_step judge (Ev_dump c) g = map_prod id Out_names (dump_proc_with judge c g)"

fun hook_steps :: "judge \<Rightarrow> hook_event list \<Rightarrow> bpf_globals \<Rightarrow> bpf_globals \<times> hook_out list" where
  "hook_steps judge [] g = (g, [])"
| "hook_steps judge (e # es) g =
    (let (g, out) = hook_step judge e g; (g, outs) = hook_steps judge es g in (g, out # outs))"

text \<open>
  The hooks run at any time, between the steps of the loader too: \<open>Ld_begin\<close> is a call of
  \<^verbatim>\<open>bpf_reload_config\<close>, which the daemon makes when the one before has returned, \<open>Ld_step\<close> an assignment
  or the run of the program.  \<open>None\<close> is a failed \<^verbatim>\<open>EXPECT\<close> of the loader, or a call during a call.
\<close>

datatype load_event = Ld_begin BpfConfig | Ld_step | Ld_hook hook_event

type_synonym prog_state = "load_pc \<times> BpfConfig \<times> bpf_globals"

fun prog_step :: "(u32 \<Rightarrow> bool) \<Rightarrow> judge \<Rightarrow> load_event \<Rightarrow> prog_state \<Rightarrow> (prog_state \<times> hook_out list) option" where
  "prog_step alloc judge (Ld_begin conf) (pc, c, g) = (if pc = Load_done then Some ((Load_config, conf, g), []) else None)"
| "prog_step alloc judge Ld_step (pc, c, g) = map_option (\<lambda>(pc, g). ((pc, c, g), [])) (load_step alloc c (pc, g))"
| "prog_step alloc judge (Ld_hook e) (pc, c, g) = (case hook_step judge e g of (g, out) \<Rightarrow> Some ((pc, c, g), [out]))"

fun hook_run :: "(u32 \<Rightarrow> bool) \<Rightarrow> judge \<Rightarrow> load_event list \<Rightarrow> prog_state \<Rightarrow> (prog_state \<times> hook_out list) option" where
  "hook_run alloc judge [] s = Some (s, [])"
| "hook_run alloc judge (e # es) s =
    Option.bind (prog_step alloc judge e s) (\<lambda>(s, outs). map_option (\<lambda>(s, outs'). (s, outs @ outs')) (hook_run alloc judge es s))"

text \<open>
  The window of a load of a new generation: the cache has been emptied, but the automaton or its arena
  is still to be assigned.
\<close>

fun in_window :: "prog_state \<Rightarrow> bool" where
  "in_window (pc, c, g) \<longleftrightarrow> pc \<in> {Load_has_dfa, Load_dfa, Load_arena} \<or> pc = Load_gen \<and> bg_last_gen g \<noteq> bf_generation c"

text \<open>No hook runs in the window.\<close>

fun is_hook :: "load_event \<Rightarrow> bool" where
  "is_hook (Ld_hook e) = True"
| "is_hook _ = False"

fun undisturbed :: "(u32 \<Rightarrow> bool) \<Rightarrow> judge \<Rightarrow> load_event list \<Rightarrow> prog_state \<Rightarrow> bool" where
  "undisturbed alloc judge [] s \<longleftrightarrow> True"
| "undisturbed alloc judge (e # es) s \<longleftrightarrow> \<not> (is_hook e \<and> in_window s) \<and>
    (case prog_step alloc judge e s of None \<Rightarrow> True | Some (s, outs) \<Rightarrow> undisturbed alloc judge es s)"

text \<open>The tasks of an event are those of the table, throughout.\<close>

fun event_in :: "(TaskId \<Rightarrow> task_struct) \<Rightarrow> hook_event \<Rightarrow> bool" where
  "event_in procs (Ev_socket family t) = (procs (task_id t) = t)"
| "event_in procs (Ev_refresh c) = (\<forall>t. ic_task c = Some t \<longrightarrow> procs (task_id t) = t)"
| "event_in procs (Ev_dump c) = (\<forall>t. ic_task c = Some t \<longrightarrow> procs (task_id t) = t)"

lemma hook_run_append:
  "hook_run alloc judge (xs @ ys) s =
    Option.bind (hook_run alloc judge xs s) (\<lambda>(s, outs). map_option (\<lambda>(s, outs'). (s, outs @ outs')) (hook_run alloc judge ys s))"
proof (induction xs arbitrary: s)
  case Nil
  show ?case by (cases "hook_run alloc judge ys s") auto
next
  case (Cons x xs)
  have "map_option (\<lambda>(s, outs'). (s, o1 @ outs')) (Option.bind m (\<lambda>(s, outs). map_option (\<lambda>(s, outs'). (s, outs @ outs')) (f s))) =
      Option.bind (map_option (\<lambda>(s, outs'). (s, o1 @ outs')) m) (\<lambda>(s, outs). map_option (\<lambda>(s, outs'). (s, outs @ outs')) (f s))"
    for o1 :: "hook_out list" and m :: "(prog_state \<times> hook_out list) option" and f :: "prog_state \<Rightarrow> (prog_state \<times> hook_out list) option"
    by (auto simp: map_option_case split: option.split bind_splits)
  with Cons show ?case by (cases "prog_step alloc judge x s") auto
qed

lemma undisturbed_append:
  "undisturbed alloc judge (xs @ ys) s \<longleftrightarrow> undisturbed alloc judge xs s \<and>
    (case hook_run alloc judge xs s of None \<Rightarrow> True | Some (s, outs) \<Rightarrow> undisturbed alloc judge ys s)"
proof (induction xs arbitrary: s)
  case (Cons x xs)
  show ?case
  proof (cases "prog_step alloc judge x s")
    case (Some p)
    then show ?thesis
      by (cases "hook_run alloc judge xs (fst p)") (auto simp: Cons split: prod.split)
  qed simp
qed simp

lemma undisturbed_hooks: "undisturbed alloc judge (map Ld_hook hs) (Load_done, c, g)"
  by (induction hs arbitrary: g) (auto split: prod.split)

fun load_event_in :: "(TaskId \<Rightarrow> task_struct) \<Rightarrow> load_event \<Rightarrow> bool" where
  "load_event_in procs (Ld_hook e) = event_in procs e"
| "load_event_in procs _ = True"

text \<open>A step of the loader does not look at the cache, and keeps it coherent; in the window it is empty.\<close>

definition load_core :: "prog_state \<Rightarrow> prog_state" where
  "load_core s = (case s of (pc, c, g) \<Rightarrow> (pc, c, core g))"

definition load_inv :: "(TaskId \<Rightarrow> task_struct) \<Rightarrow> prog_state \<Rightarrow> bool" where
  "load_inv procs s \<longleftrightarrow> (case s of (pc, c, g) \<Rightarrow> coherent procs g \<and> (in_window s \<longrightarrow> bg_cache g = (\<lambda>i. None)))"

lemma load_step_core: "load_step alloc c (pc, core g) = map_option (map_prod id core) (load_step alloc c (pc, g))"
  by (cases pc) (auto simp: core_def reload_config_def Let_def)

lemma load_step_inv:
  assumes "load_inv procs (pc, c, g)" and "load_step alloc c (pc, g) = Some (pc', g')"
  shows "load_inv procs (pc', c, g')"
  using assms by (cases pc)
    (auto simp: load_inv_def coherent_def verdict_def arena_mem_def reload_config_def split: if_splits)

lemma hook_step_gen: "bg_last_gen (fst (hook_step (judge_uncached alloc) e g)) = bg_last_gen g"
  by (cases e)
    (auto simp: socket_create_with_def refresh_socket_with_def dump_proc_with_def iter_judge_def judge_uncached_def Let_def
      split: option.split prod.split)

text \<open>What an uninterrupted load comes to.\<close>

lemma load_config_simps:
  "load_config alloc conf g =
    (let g = reload_config alloc (arena_npages (bf_arena_buf conf)) (g\<lparr>bg_config := conf\<rparr>)
     in if bg_last_gen g = bf_generation conf then Some g
        else let g = g\<lparr>bg_last_gen := bf_generation conf, bg_has_dfa := bf_has_dfa conf, bg_dfa := bf_dfa conf\<rparr>
          in if bf_arena_buf conf = [] \<or> \<not> bg_base g then Some g
             else if ARENA_SIZE < length (bf_arena_buf conf) then None
             else Some (g\<lparr>bg_mem := load_arena (bf_arena_buf conf) (bg_mem g)\<rparr>))"
  by (simp add: load_config_def eval_nat_numeral Let_def)

lemma load_config_cache: "load_config alloc conf g = Some g' \<Longrightarrow> bg_cache g' = (\<lambda>i. None)"
  by (auto simp: load_config_simps reload_config_def Let_def split: if_splits)

lemma core_empty: "bg_cache g = (\<lambda>i. None) \<Longrightarrow> core g = g"
  by (simp add: core_def)

context judging
begin

lemma step_ok:
  assumes "coherent procs g" and "event_in procs e" and "hook_step judge e g = (g', out)"
  shows "coherent procs g' \<and> hook_step (judge_uncached alloc) e (core g) = (core g', out)"
proof (cases e)
  case (Ev_socket family t)
  obtain g1 k where "socket_create_with judge family t g = (g1, k)" by fastforce
  with socket_create_ok [OF assms(1) _ this] assms(2,3) Ev_socket show ?thesis by auto
next
  case (Ev_refresh c)
  obtain g1 k where "refresh_socket_with judge c g = (g1, k)" by fastforce
  with refresh_socket_ok [OF assms(1) _ this] assms(2,3) Ev_refresh show ?thesis by auto
next
  case (Ev_dump c)
  obtain g1 k where "dump_proc_with judge c g = (g1, k)" by fastforce
  with dump_proc_ok [OF assms(1) _ this] assms(2,3) Ev_dump show ?thesis by auto
qed

lemma steps_ok:
  "coherent procs g \<Longrightarrow> list_all (event_in procs) es \<Longrightarrow> hook_steps judge es g = (g', outs) \<Longrightarrow>
    coherent procs g' \<and> hook_steps (judge_uncached alloc) es (core g) = (core g', outs)"
proof (induction es arbitrary: g g' outs)
  case (Cons e es)
  obtain g1 out where e: "hook_step judge e g = (g1, out)" by fastforce
  obtain g2 outs2 where es: "hook_steps judge es g1 = (g2, outs2)" by fastforce
  from step_ok [OF Cons.prems(1) _ e] Cons.IH [OF _ _ es] Cons.prems(2,3) e es show ?case by auto
qed auto

lemma prog_step_ok:
  assumes inv: "load_inv procs s" and ev: "load_event_in procs e" and free: "\<not> (is_hook e \<and> in_window s)"
  shows "prog_step alloc (judge_uncached alloc) e (load_core s) =
      map_option (\<lambda>(s, outs). (load_core s, outs)) (prog_step alloc judge e s)
    \<and> (\<forall>s' outs. prog_step alloc judge e s = Some (s', outs) \<longrightarrow> load_inv procs s')"
proof -
  obtain pc c g where s: "s = (pc, c, g)" by (cases s)
  have ok: "coherent procs g" using inv by (simp add: load_inv_def s)
  show ?thesis
  proof (cases e)
    case (Ld_begin conf)
    with ok show ?thesis by (simp add: s load_core_def load_inv_def)
  next
    case Ld_step
    with load_step_inv [of procs pc c g alloc] inv show ?thesis
      by (cases "load_step alloc c (pc, g)") (auto simp: s load_core_def load_step_core)
  next
    case (Ld_hook h)
    obtain g' out where h: "hook_step judge h g = (g', out)" by fastforce
    with step_ok [OF ok _ h] ev Ld_hook
    have step: "coherent procs g'" "hook_step (judge_uncached alloc) h (core g) = (core g', out)" by simp_all
    have gen: "bg_last_gen (core x) = bg_last_gen x" for x by (simp add: core_def)
    have "bg_last_gen g' = bg_last_gen g"
      using hook_step_gen [of alloc h "core g"] step(2) by (simp add: gen)
    with free Ld_hook step h show ?thesis by (auto simp: s load_core_def load_inv_def)
  qed
qed

lemma run_ok:
  "load_inv procs s \<Longrightarrow> list_all (load_event_in procs) es \<Longrightarrow> undisturbed alloc judge es s \<Longrightarrow>
    map_option (\<lambda>(s, outs). (load_core s, outs)) (hook_run alloc judge es s) = hook_run alloc (judge_uncached alloc) es (load_core s)"
proof (induction es arbitrary: s)
  case (Cons e es)
  then have e: "load_event_in procs e" "\<not> (is_hook e \<and> in_window s)" by simp_all
  show ?case
  proof (cases "prog_step alloc judge e s")
    case None
    with prog_step_ok [OF Cons.prems(1) e] show ?thesis by simp
  next
    case (Some p)
    obtain s' outs where p: "p = (s', outs)" by fastforce
    with Some prog_step_ok [OF Cons.prems(1) e]
    have s': "load_inv procs s'" "prog_step alloc (judge_uncached alloc) e (load_core s) = Some (load_core s', outs)" by simp_all
    from Cons.IH [OF s'(1)] Cons.prems(2,3) Some p
    have "map_option (\<lambda>(s, outs). (load_core s, outs)) (hook_run alloc judge es s') = hook_run alloc (judge_uncached alloc) es (load_core s')"
      by simp
    with Some p s'(2) show ?thesis
      by (cases "hook_run alloc judge es s'") (auto dest: sym)
  qed
qed simp

end

interpretation cached: judging alloc procs "needs_mark alloc keep" for alloc procs keep
  by unfold_locales (rule needs_mark_judges)

end
