(* ===== verification/Matches_Correct.thy ===== *)
theory Matches_Correct
  imports Matches_List Automata
begin

text \<open>
  The properties of the list of matches and of the resolver cache, stated on the model's
  definitions; the contract \<open>transactional\<close> carries the ones on sequences of operations.
\<close>

text \<open>Two DNS matches the witnesses use, which differ in their method only, and a path.\<close>

definition ex_dns :: Match where
  "ex_dns = match_default\<lparr>m_pattern := ''a.org'', m_kind := Kind_dns\<rparr>"

definition ex_dns_sub :: Match where
  "ex_dns_sub = ex_dns\<lparr>m_method := Method_substring\<rparr>"

definition ex_path :: Match where
  "ex_path = match_default\<lparr>m_pattern := ''/b'', m_kind := Kind_path\<rparr>"

lemmas ex_match_defs = ex_dns_def ex_dns_sub_def ex_path_def match_default_def matches_default_def

lemma ex_add_dns:
  "matches_add all_libs ms ex_dns =
    (ms\<lparr>ms_dns_count := ms_dns_count ms + 1, ms_matches := ms_matches ms @ [ex_dns],
        ms_generation := ms_generation ms + 1\<rparr>, Inr ())"
  by (simp add: matches_add_def try_parse_def with_pushed_def build_dns_dfa_def build_dfa_def
      all_libs_sel Let_def is_dns_def ex_dns_def match_default_def)

text \<open>
  C17: \<open>dns_count\<close>, a 32-bit counter that the operations adjust by one, is the number of
  DNS matches in the list (modulo its width) after any sequence of additions,
  replacements and deletions, successful or not, on a list that was loaded from disk.
\<close>

theorem dns_count_invariant:
  assumes "build_wf lib"
  shows "dns_count_ok (run_ops matches_step lib (matches_update ms) ops)"
  using assms by (rule mtx.run_inv) (simp add: dns_count_ok_def matches_update_def)

theorem dns_count_invariant_witness:
  "ms_dns_count (run_ops matches_step all_libs (matches_update matches_default) [OpAdd ex_dns, OpAdd ex_dns]) = 2"
  using dns_count_invariant [OF all_libs_wf, of matches_default "[OpAdd ex_dns, OpAdd ex_dns]"]
  by (simp add: run_ops_def ex_add_dns dns_count_ok_def matches_update_def matches_default_def)

text \<open>
  C18: an operation on the list is a transaction.  When it fails the list, the counter and
  the generation are what they were, although \<open>try_parse\<close> pushes the match on trial, and
  the failure is an error, never a panic; when it succeeds the generation goes up by one.
\<close>

theorem matches_step_transaction:
  assumes "build_wf lib"
  shows "case matches_step lib ms a of
      (ms', Inl e) \<Rightarrow> ms' = ms \<and> e \<noteq> Panic
    | (ms', Inr _) \<Rightarrow> ms_generation ms' = ms_generation ms + 1"
proof (cases "matches_step lib ms a")
  case (Pair ms' r)
  show ?thesis
  proof (cases r)
    case (Inl e)
    with Pair have "ms' = ms" using matches_step_fails [OF assms] by blast
    moreover have "e \<noteq> Panic" using Pair Inl matches_step_error [OF assms] by blast
    ultimately show ?thesis by (simp add: Pair Inl)
  next
    case (Inr u)
    with Pair matches_step_counts [OF assms, of ms a ms'] show ?thesis by simp
  qed
qed

theorem matches_step_transaction_witness:
  "matches_step all_libs matches_default (OpDel ex_dns) = (matches_default, Inl (Msg ''No such match''))"
proof -
  have "snd (matches_step all_libs matches_default (OpDel ex_dns)) = Inl (Msg ''No such match'')"
    by (simp add: matches_del_def try_parse_def with_pushed_def build_dns_dfa_def build_dfa_def
      all_libs_sel Let_def ex_match_defs)
  then show ?thesis
    using matches_step_transaction [OF all_libs_wf, of matches_default "OpDel ex_dns"]
    by (cases "matches_step all_libs matches_default (OpDel ex_dns)") simp
qed

text \<open>
  C19: on the bag of matches, a successful operation adds the new match, removes one match
  equal to the named one, or exchanges one such match for the new one; nothing else in the
  list changes.
\<close>

theorem matches_step_refines_bag:
  assumes "build_wf lib" and "matches_step lib ms a = (ms', Inr ())"
  shows "mset (ms_matches ms') \<in> bag_step (mset (ms_matches ms)) a"
  using assms by (rule matches_step_bag)

theorem matches_step_refines_bag_witness:
  "mset (ms_matches (fst (matches_step all_libs matches_default (OpAdd ex_dns)))) \<in> bag_step {#} (OpAdd ex_dns)"
  using matches_step_refines_bag [OF all_libs_wf, of matches_default "OpAdd ex_dns"
      "fst (matches_step all_libs matches_default (OpAdd ex_dns))"]
  by (simp add: ex_add_dns) (simp add: matches_default_def)

text \<open>
  The generation counts exactly the operations that succeeded, and replaying only
  those gives the same list, so a client may drop failed calls from its log.
\<close>

theorem matches_run_committed:
  assumes "build_wf lib"
  shows "ms_generation (run_ops matches_step lib ms ops) =
      ms_generation ms + of_nat (length (committed matches_step lib ms ops))
    \<and> run_ops matches_step lib ms (committed matches_step lib ms ops) = run_ops matches_step lib ms ops"
  using mtx.run_gen [OF assms] mtx.run_committed [OF assms] by blast

theorem matches_run_committed_witness:
  "ms_generation (run_ops matches_step all_libs matches_default [OpAdd ex_dns]) = 1"
  using matches_run_committed [OF all_libs_wf, of matches_default "[OpAdd ex_dns]"]
  by (simp add: ex_add_dns matches_default_def)

text \<open>
  C20: building the automaton of the per-process matches never panics, whatever is in the
  list: every pattern identifier leads to an index of the list and the assertions on the
  extracted table hold.
\<close>

theorem build_path_dfa_never_panics:
  assumes "build_wf lib"
  shows "build_path_dfa lib ms arena \<noteq> Inl Panic"
  using assms by (rule build_path_dfa_no_panic)

theorem build_path_dfa_never_panics_witness:
  "build_path_dfa all_libs (matches_default\<lparr>ms_matches := [ex_dns, ex_path]\<rparr>) [1] \<noteq> Inl Panic"
  using build_path_dfa_never_panics [OF all_libs_wf] .

text \<open>
  A match that \<open>add\<close> accepted does not break the next reload: with a per-process match
  the automaton for the eBPF program builds from the new list, with a DNS match the
  resolver cache is replaced by one built from the new list.
\<close>

theorem add_then_build:
  assumes wf: "build_wf lib" and add: "matches_add lib ms m = (ms', Inr ())"
  shows "(is_per_process m \<longrightarrow> is_ok (build_path_dfa lib ms' [])) \<and>
    (is_dns m \<longrightarrow> (\<exists>dfa. build_dns_dfa lib ms' = Inr dfa \<and> dns_cache_update lib c ms' = c\<lparr>dc_dfa := Some dfa\<rparr>))"
proof (rule conjI)
  from matches_add_ok [OF wf add] have ok: "snd (try_parse lib ms m) = Inr ()"
    and list: "ms_matches ms' = ms_matches ms @ [m]" by auto
  define p where "p = ms\<lparr>ms_matches := ms_matches ms @ [m]\<rparr>"
  have same: "build_path_dfa lib ms' [] = build_path_dfa lib p []" "build_dns_dfa lib ms' = build_dns_dfa lib p"
    using list by (simp_all add: build_matches_only p_def)
  note np = build_path_dfa_no_panic [OF wf, of p "[]"] build_dns_dfa_no_panic [of lib p]
  show "is_per_process m \<longrightarrow> is_ok (build_path_dfa lib ms' [])"
    using ok np by (auto simp: same is_per_process_def try_parse_def with_pushed_eq p_def [symmetric]
        is_ok_iff rbind_eq_Inr split: Kind.splits)
  show "is_dns m \<longrightarrow> (\<exists>dfa. build_dns_dfa lib ms' = Inr dfa \<and> dns_cache_update lib c ms' = c\<lparr>dc_dfa := Some dfa\<rparr>)"
    using ok np by (auto simp: same is_dns_def try_parse_def with_pushed_eq p_def [symmetric]
        rbind_eq_Inr dns_cache_update_def split: Kind.splits)
qed

theorem add_then_build_witness:
  "\<exists>dfa. dns_cache_update all_libs \<lparr>dc_dfa = None\<rparr> (fst (matches_add all_libs matches_default ex_dns)) = \<lparr>dc_dfa = Some dfa\<rparr>"
proof -
  have "matches_add all_libs matches_default ex_dns = (fst (matches_add all_libs matches_default ex_dns), Inr ())"
    by (simp add: ex_add_dns)
  from add_then_build [OF all_libs_wf this, of "\<lparr>dc_dfa = None\<rparr>"] show ?thesis
    by (auto simp: is_dns_def ex_match_defs)
qed

text \<open>
  Looking a name up in a cache built from the list never panics; an answer is the index
  of a DNS match of the list with the direction of the answer, and a name that the bypass
  automaton finds is answered by a bypass match even if a redirect match finds it too.
\<close>

theorem dns_cache_get_sound:
  assumes "build_wf lib" and "build_dns_dfa lib ms = Inr dfa"
    and c'_def: "c' = dns_cache_update lib c ms"
  shows "(dns_cache_get c' name = Inr None \<or>
      (\<exists>dir i. dns_cache_get c' name = Inr (Some (dir, i)) \<and> i < length (ms_matches ms) \<and>
        is_dns (ms_matches ms ! i) \<and> m_direction (ms_matches ms ! i) = dir)) \<and>
    (d_search (dd_bypass dfa) name = Inr (Some p) \<longrightarrow>
      (\<exists>i. dns_cache_get c' name = Inr (Some (Direction_bypass, i))))"
proof (rule conjI)
  have c': "dc_dfa c' = Some dfa" by (simp add: c'_def dns_cache_update_def assms(2))
  have ok: "dns_dfa_ok (ms_matches ms) dfa" using assms(1,2) by (rule build_dns_dfa_ok)
  show "dns_cache_get c' name = Inr None \<or>
      (\<exists>dir i. dns_cache_get c' name = Inr (Some (dir, i)) \<and> i < length (ms_matches ms) \<and>
        is_dns (ms_matches ms ! i) \<and> m_direction (ms_matches ms ! i) = dir)"
    by (rule dns_cache_get_ok [OF c' ok])
  show "d_search (dd_bypass dfa) name = Inr (Some p) \<longrightarrow>
      (\<exists>i. dns_cache_get c' name = Inr (Some (Direction_bypass, i)))"
    using c' ok by (auto simp: dns_cache_get_def dns_dfa_ok_def patterns_wf_def idx_def)
qed

theorem dns_cache_get_sound_witness:
  "\<exists>i. dns_cache_get (dns_cache_update all_libs \<lparr>dc_dfa = None\<rparr>
      (matches_default\<lparr>ms_matches := [ex_dns, ex_dns\<lparr>m_direction := Direction_bypass\<rparr>]\<rparr>)) ''a.org.''
    = Inr (Some (Direction_bypass, i))"
proof -
  let ?ms = "matches_default\<lparr>ms_matches := [ex_dns, ex_dns\<lparr>m_direction := Direction_bypass\<rparr>]\<rparr>"
  have "\<exists>dfa. build_dns_dfa all_libs ?ms = Inr dfa \<and> d_search (dd_bypass dfa) ''a.org.'' = Inr (Some 0)"
    by (simp add: build_dns_dfa_def build_dfa_def all_libs_sel Let_def ex_match_defs dns_regex_def
        method_regex_def dns_sets_empty_def all_dense_def table_dense_sel)
  then obtain dfa where "build_dns_dfa all_libs ?ms = Inr dfa" "d_search (dd_bypass dfa) ''a.org.'' = Inr (Some 0)"
    by blast
  with dns_cache_get_sound [OF all_libs_wf _ refl, of ?ms dfa "\<lparr>dc_dfa = None\<rparr>" "''a.org.''" 0] show ?thesis
    by blast
qed

text \<open>
  Two matches that differ in their method only are the same match to \<open>is_eq_to\<close>, so
  deleting the one deletes the other.
\<close>

theorem del_ignores_method:
  "m_method ex_dns \<noteq> m_method ex_dns_sub \<and>
    (\<exists>ms'. matches_del all_libs (matches_default\<lparr>ms_matches := [ex_dns_sub]\<rparr>) ex_dns = (ms', Inr ()) \<and> ms_matches ms' = [])"
  by (simp add: matches_del_def try_parse_def with_pushed_def build_dns_dfa_def build_dfa_def
      all_libs_sel Let_def ex_match_defs is_eq_to_def remove_at_def)

end
