(* ===== verification/Reload_Correct.thy ===== *)
theory Reload_Correct
  imports Reload Automata Matches_Correct
begin

text \<open>
  Properties of the reload: which requests it sends, what it leaves for the next reload to
  remove, and that the retry loop of the DNAT rule ends.
\<close>

section \<open>A kernel that accepts every request\<close>

definition accepts :: "kernel \<Rightarrow> bool" where
  "accepts k \<longleftrightarrow> (\<forall>log. kn_sent k log = Inr () \<and> kn_ack k log = Inr ())"

lemma silent_accepts [simp]: "accepts silent_kernel"
  by (simp add: accepts_def silent_kernel_def)

lemma io_request_accepts: "accepts k \<Longrightarrow> io_request k r log = (log @ [r], Inr ())"
  by (simp add: accepts_def io_request_def io_bind_def io_send_def io_recv_def)

lemma io_iter_accepts:
  "accepts k \<Longrightarrow> io_iter (\<lambda>x. io_request k (f x)) xs log = (log @ map f xs, Inr ())"
  by (induction xs arbitrary: log) (simp_all add: io_ret_def io_bind_def io_request_accepts)

lemma io_iter_option_accepts:
  "accepts k \<Longrightarrow> io_iter (\<lambda>x. case f x of None \<Rightarrow> io_ret () | Some r \<Rightarrow> io_request k r) xs log =
    (log @ List.map_filter f xs, Inr ())"
  by (induction xs arbitrary: log)
    (simp_all add: io_ret_def io_bind_def io_request_accepts List.map_filter_simps split: option.split)

section \<open>Requests judged by what came before them\<close>

text \<open>Each request of \<open>new\<close> satisfies \<open>P\<close> with the log before it.\<close>

fun all_steps :: "(nl_request list \<Rightarrow> nl_request \<Rightarrow> bool) \<Rightarrow> nl_request list \<Rightarrow> nl_request list \<Rightarrow> bool" where
  "all_steps P log [] = True"
| "all_steps P log (r # rs) = (P log r \<and> all_steps P (log @ [r]) rs)"

lemma all_steps_append [simp]: "all_steps P log (xs @ ys) \<longleftrightarrow> all_steps P log xs \<and> all_steps P (log @ xs) ys"
  by (induction xs arbitrary: log) simp_all

lemma all_steps_each: "list_all Q rs \<Longrightarrow> (\<And>log r. Q r \<Longrightarrow> P log r) \<Longrightarrow> all_steps P log rs"
  by (induction rs arbitrary: log) simp_all

definition oio_steps :: "(nl_request list \<Rightarrow> nl_request \<Rightarrow> bool) \<Rightarrow> 'a oio \<Rightarrow> bool" where
  "oio_steps P m \<longleftrightarrow> (\<forall>log log' r. m log = Some (log', r) \<longrightarrow> (\<exists>new. log' = log @ new \<and> all_steps P log new))"

named_theorems oio_steps_intros \<open>composition rules of \<open>oio_steps\<close>\<close>

lemma oio_stepsD: "oio_steps P m \<Longrightarrow> m log = Some (log', r) \<Longrightarrow> \<exists>new. log' = log @ new \<and> all_steps P log new"
  unfolding oio_steps_def by blast

lemma oio_steps_of: "io_sends Q m \<Longrightarrow> (\<And>log r. Q r \<Longrightarrow> P log r) \<Longrightarrow> oio_steps P (oio_of m)"
  unfolding oio_steps_def oio_of_def by (metis all_steps_each io_sendsD option.inject)

lemma oio_steps_ret [oio_steps_intros]: "oio_steps P (oio_of (io_ret x))"
  by (simp add: oio_steps_def oio_of_def io_ret_def)

lemma oio_steps_try [oio_steps_intros]: "oio_steps P m \<Longrightarrow> oio_steps P (oio_try m)"
  unfolding oio_steps_def oio_try_def by (auto split: option.splits)

lemma oio_steps_if [oio_steps_intros]: "oio_steps P m \<Longrightarrow> oio_steps P n \<Longrightarrow> oio_steps P (if b then m else n)"
  by simp

lemma oio_steps_bind [oio_steps_intros]:
  assumes "oio_steps P m" and "\<And>x. oio_steps P (f x)"
  shows "oio_steps P (oio_bind m f)"
  unfolding oio_steps_def
proof (intro allI impI)
  fix log log' r assume run: "oio_bind m f log = Some (log', r)"
  then obtain log1 r1 where m: "m log = Some (log1, r1)" by (auto simp: oio_bind_def split: option.splits)
  from oio_stepsD [OF assms(1) this] obtain new where new: "log1 = log @ new" "all_steps P log new" by blast
  show "\<exists>new. log' = log @ new \<and> all_steps P log new"
  proof (cases r1)
    case (Inl e)
    with run m new show ?thesis by (auto simp: oio_bind_def)
  next
    case (Inr x)
    with run m have "f x log1 = Some (log', r)" by (simp add: oio_bind_def)
    from oio_stepsD [OF assms(2) this] new show ?thesis by auto
  qed
qed

section \<open>What belongs to a mark\<close>

text \<open>
  The requests that remove what belongs to \<open>mark\<close>, or only read.  A rule of the \<^verbatim>\<open>nat\<close> table goes by its
  handle: it is that of a rule with the mark as its user data in the dump, requested just before.
\<close>

fun cleans_mark :: "kernel \<Rightarrow> u32 \<Rightarrow> nl_request list \<Rightarrow> nl_request \<Rightarrow> bool" where
  "cleans_mark k mark log (ReqDelRule r) = (rr_table r = Some mark \<or> rr_fwmark r = Some mark)"
| "cleans_mark k mark log (ReqDelRoute r) = (q_table r = Some mark)"
| "cleans_mark k mark log (ReqNftBatch g t c (NftDelRule h)) =
    (t = ''nat'' \<and> c = ''OUTPUT'' \<and> log \<noteq> [] \<and> last log = ReqNftGetRules t c \<and>
     (\<exists>m. Inr m \<in> set (kn_rules k log) \<and> n_userdata m = Some (to_ne_bytes mark) \<and> n_handle m = Some h))"
| "cleans_mark k mark log (ReqGetRoutes r) = True"
| "cleans_mark k mark log ReqNftGetGen = True"
| "cleans_mark k mark log (ReqNftGetRules t c) = True"
| "cleans_mark k mark log _ = False"

text \<open>
  The requests that add something a later \<open>clear_rules\<close> of \<open>mark\<close> finds again: a rule by
  its table or by its masked-out mark, a route by its table, the DNAT rule by its user
  data; or that only read.
\<close>

fun owned_by :: "nl_lib \<Rightarrow> u32 \<Rightarrow> nl_request \<Rightarrow> bool" where
  "owned_by nb mark (ReqNewRule r) =
    (rr_table r = Some mark \<or> rr_fwmark r = Some mark \<and> rr_fwmask r = Some 0)"
| "owned_by nb mark (ReqNewRoute r) = (q_table r = Some mark)"
| "owned_by nb mark (ReqRaw t buf) = (t = 24 \<and> (\<exists>m. clone_bytes nb m mark = Inr buf))"
| "owned_by nb mark (ReqNftBatch g t c (NftNewRule userdata e)) =
    (t = ''nat'' \<and> c = ''OUTPUT'' \<and> userdata = to_ne_bytes mark \<and> (\<exists>addr port. e = dnat_exprs mark addr port))"
| "owned_by nb mark (ReqGetRoutes r) = True"
| "owned_by nb mark ReqNftGetGen = True"
| "owned_by nb mark _ = False"

text \<open>The part of the clean-up that does not depend on the log.\<close>

fun cleans_table :: "u32 \<Rightarrow> nl_request \<Rightarrow> bool" where
  "cleans_table mark (ReqDelRule r) = (rr_table r = Some mark \<or> rr_fwmark r = Some mark)"
| "cleans_table mark (ReqDelRoute r) = (q_table r = Some mark)"
| "cleans_table mark r = (r = ReqNftGetGen \<or> (\<exists>q. r = ReqGetRoutes q))"

lemma cleans_table_mark: "cleans_table mark r \<Longrightarrow> cleans_mark k mark log r"
  by (cases r) auto

lemma clear_table_cleans: "io_sends (cleans_table mark) (clear_table k mark)"
  unfolding clear_table_def
  by (intro io_sends_intros) (simp_all add: dump_table_req_def del_route_req_def)

lemma del_until_err_cleans: "P r \<Longrightarrow> io_sends P (del_until_err k r n)"
  by (induction n) (auto intro!: io_sends_intros)

lemma get_latest_genid_sends: "P ReqNftGetGen \<Longrightarrow> io_sends P (get_latest_genid k)"
  unfolding get_latest_genid_def by (intro io_sends_intros)

lemma io_sends_case_option:
  "io_sends P m \<Longrightarrow> (\<And>x. io_sends P (f x)) \<Longrightarrow> io_sends P (case y of None \<Rightarrow> m | Some x \<Rightarrow> f x)"
  by (cases y) auto

lemma io_sends_bind_gives:
  assumes "io_sends P m" and "\<And>log log' x. m log = (log', Inr x) \<Longrightarrow> Q x" and "\<And>x. Q x \<Longrightarrow> io_sends P (f x)"
  shows "io_sends P (io_bind m f)"
  unfolding io_sends_def
proof
  fix log
  from assms(1) obtain new where new: "fst (m log) = log @ new" "list_all P new"
    unfolding io_sends_def by blast
  show "\<exists>new. fst (io_bind m f log) = log @ new \<and> list_all P new"
  proof (cases "m log")
    case (Pair log' r)
    show ?thesis
    proof (cases r)
      case (Inl e)
      with Pair new show ?thesis by (simp add: io_bind_def)
    next
      case (Inr x)
      with Pair assms(2,3) have "io_sends P (f x)" by blast
      then obtain more where "fst (f x log') = log' @ more" "list_all P more" unfolding io_sends_def by blast
      with Pair Inr new show ?thesis by (intro exI [of _ "new @ more"]) (simp add: io_bind_def)
    qed
  qed
qed

text \<open>The retry loop keeps sending what one attempt sends.\<close>

lemma iptables_rule_sends:
  assumes "io_sends P (iptables_rule_try k ins mark addr port)"
  shows "oio_sends P (iptables_rule k ins mark addr port)"
  unfolding oio_sends_def
proof (intro allI impI)
  fix log log' r
  assume run: "iptables_rule k ins mark addr port log = Some (log', r)"
  have "io_sends P (iptables_rule_try k ins mark addr port) \<longrightarrow>
      (\<exists>new. fst (log', r) = log @ new \<and> list_all P new)"
  proof (rule iptables_rule.raw_induct [OF _ run, where P = "\<lambda>k ins mark addr port log y.
      io_sends P (iptables_rule_try k ins mark addr port) \<longrightarrow> (\<exists>new. fst y = log @ new \<and> list_all P new)"],
      rule impI, goal_cases)
    case (1 rec k ins mark addr port log y)
    obtain log1 r1 where once: "iptables_rule_try k ins mark addr port log = (log1, r1)" by fastforce
    from io_sendsD [OF 1(3) this] obtain new where new: "log1 = log @ new" "list_all P new" by blast
    show ?case
    proof (cases "r1 = Inl Interrupted")
      case True
      with 1(2) once have "rec k ins mark addr port log1 = Some y" by simp
      with 1(1,3) obtain more where "fst y = log1 @ more" "list_all P more" by blast
      with new show ?thesis by (intro exI [of _ "new @ more"]) simp
    next
      case False
      with 1(2) once new show ?thesis by auto
    qed
  qed
  with assms show "\<exists>new. log' = log @ new \<and> list_all P new" by simp
qed

lemma iptables_batch_sends:
  "P (ReqNftBatch genid ''nat'' ''OUTPUT'' op) \<Longrightarrow>
    io_sends P (io_bind (io_send k (ReqNftBatch genid ''nat'' ''OUTPUT'' op)) (\<lambda>_. io_recv (kn_batch k)))"
  by (intro io_sends_intros)

lemma iptables_try_owned: "io_sends (owned_by nb mark) (iptables_rule_try k True mark addr port)"
proof -
  have "io_sends (owned_by nb mark) (io_bind (iptables_op k True mark addr port) (\<lambda>op.
    io_bind (io_send k (ReqNftBatch genid ''nat'' ''OUTPUT'' op)) (\<lambda>_. io_recv (kn_batch k))))" for genid
    by (rule io_sends_bind_gives [where Q = "\<lambda>op. op = NftNewRule (to_ne_bytes mark) (dnat_exprs mark addr port)"])
      (auto simp: iptables_op_def io_ret_def intro!: iptables_batch_sends exI [of _ addr] exI [of _ port] io_sends_ret [unfolded io_ret_def])
  then show ?thesis
    unfolding iptables_rule_try_def by - (rule io_sends_bind [OF get_latest_genid_sends]; simp)
qed

text \<open>The handle is that of a rule with the mark, found in the dump before the batch.\<close>

lemma find_handle_marked:
  "find_handle mark dump = Inr (Some h) \<Longrightarrow>
    \<exists>m. Inr m \<in> set dump \<and> n_userdata m = Some (to_ne_bytes mark) \<and> n_handle m = Some h"
proof (induction mark dump rule: find_handle.induct)
  case (3 mark m rs)
  then show ?case by (cases "n_handle m") (auto split: if_splits)
qed auto

lemma iptables_try_cleans:
  assumes "iptables_rule_try k False mark addr port log = (log', r)"
  shows "\<exists>new. log' = log @ new \<and> all_steps (cleans_mark k mark) log new"
proof -
  obtain log1 g where gen: "get_latest_genid k log = (log1, g)" by fastforce
  then obtain new where new: "log1 = log @ new" "all_steps (cleans_mark k mark) log new"
    using io_sendsD [OF get_latest_genid_sends [of "cleans_table mark"] gen] all_steps_each [OF _ cleans_table_mark]
    by auto
  let ?get = "ReqNftGetRules ''nat'' ''OUTPUT''"
  show ?thesis
  proof (cases "\<exists>genid h. g = Inr genid \<and> kn_sent k (log1 @ [?get]) = Inr () \<and> find_handle mark (kn_rules k (log1 @ [?get])) = Inr (Some h)")
    case True
    then obtain genid h where h: "g = Inr genid" "kn_sent k (log1 @ [?get]) = Inr ()"
      "find_handle mark (kn_rules k (log1 @ [?get])) = Inr (Some h)" by blast
    with assms gen have "log' = log1 @ [?get, ReqNftBatch genid ''nat'' ''OUTPUT'' (NftDelRule h)]"
      by (auto simp: iptables_rule_try_def iptables_op_def io_bind_def io_unwrap_def io_send_def io_dump_def io_lift_def
          io_ret_def io_recv_def split: sum.splits)
    with new find_handle_marked [OF h(3)] show ?thesis
      by (intro exI [of _ "new @ [?get, ReqNftBatch genid ''nat'' ''OUTPUT'' (NftDelRule h)]"]) simp
  next
    case False
    with assms gen have "log' \<in> {log1, log1 @ [?get]}"
      by (cases g; cases "kn_sent k (log1 @ [?get])"; cases "find_handle mark (kn_rules k (log1 @ [?get]))")
        (auto simp: iptables_rule_try_def iptables_op_def io_bind_def io_unwrap_def io_send_def io_dump_def io_lift_def
          io_err_def split: option.splits)
    with new show ?thesis by (auto intro: exI [of _ new] exI [of _ "new @ [?get]"])
  qed
qed

lemma iptables_rule_cleans: "oio_steps (cleans_mark k mark) (iptables_rule k False mark addr port)"
  unfolding oio_steps_def
proof (intro allI impI)
  fix log log' r
  assume run: "iptables_rule k False mark addr port log = Some (log', r)"
  have "\<not> False \<longrightarrow> (\<exists>new. fst (log', r) = log @ new \<and> all_steps (cleans_mark k mark) log new)"
  proof (rule iptables_rule.raw_induct [OF _ run, where P = "\<lambda>k ins mark addr port log y.
      \<not> ins \<longrightarrow> (\<exists>new. fst y = log @ new \<and> all_steps (cleans_mark k mark) log new)"], rule impI, goal_cases)
    case (1 rec k ins mark addr port log y)
    obtain log1 r1 where once: "iptables_rule_try k ins mark addr port log = (log1, r1)" by fastforce
    with 1(3) iptables_try_cleans obtain new where new: "log1 = log @ new" "all_steps (cleans_mark k mark) log new"
      by (metis (full_types))
    show ?case
    proof (cases "r1 = Inl Interrupted")
      case True
      with 1(2) once have "rec k ins mark addr port log1 = Some y" by simp
      with 1(1,3) obtain more where "fst y = log1 @ more" "all_steps (cleans_mark k mark) log1 more" by blast
      with new show ?thesis by (intro exI [of _ "new @ more"]) simp
    next
      case False
      with 1(2) once new show ?thesis by auto
    qed
  qed
  then show "\<exists>new. log' = log @ new \<and> all_steps (cleans_mark k mark) log new" by simp
qed

lemma clear_rules_cleans: "oio_steps (cleans_mark k mark) (clear_rules k mark)"
proof -
  have "oio_steps (cleans_mark k mark) (del_iptables k mark n)" for n
    by (induction n) (auto intro!: oio_steps_intros iptables_rule_cleans)
  then show ?thesis
    unfolding clear_rules_def
    by (intro oio_steps_intros oio_steps_of [OF clear_table_cleans cleans_table_mark]
        oio_steps_of [OF del_until_err_cleans [of "cleans_table mark"] cleans_table_mark])
      (simp_all add: del_rule_table_def del_rule_mark_def)
qed

lemma clone_loop_owned: "io_sends (owned_by nb mark) (clone_loop k nb mark ms)"
proof (induction k nb mark ms rule: clone_loop.induct)
  case (3 k nb mark m ms)
  have "io_sends (owned_by nb mark) (io_bind (io_lift (clone_bytes nb m mark)) (\<lambda>buf.
          io_bind (io_request k (ReqRaw 24 buf)) (\<lambda>_. clone_loop k nb mark ms)))" if "clonable m"
    by (rule io_sends_bind_gives [where Q = "\<lambda>buf. clone_bytes nb m mark = Inr buf"])
      (use 3(2) that in \<open>auto simp: io_lift_def intro!: io_sends_intros io_sends_lift [unfolded io_lift_def]\<close>)
  with 3 show ?case by auto
qed (auto intro: io_sends_intros)

lemma attach_rules_owned: "oio_sends (owned_by nb mark) (attach_rules k nb lib conf to_r mark)"
proof -
  have "io_sends (owned_by nb mark) (case match_rule lib mark m of None \<Rightarrow> io_ret () | Some r \<Rightarrow> io_request k r)" for m
    by (auto simp: match_rule_def rule_to_addr_def split: option.split intro!: io_sends_intros)
  then show ?thesis
    unfolding attach_rules_def clone_routes_def
    by (intro io_sends_intros clone_loop_owned iptables_rule_sends iptables_try_owned)
      (simp_all add: rule_from_addr_def rule_fwmark_def default_route_req_def rule_unreachable_def dump_main_req_def)
qed

lemma reload_rules_owned: "oio_sends (owned_by nb mark) (reload_rules k nb lib conf routes mark)"
proof -
  have "oio_sends (owned_by nb mark) (case routes of
           Some to_r \<Rightarrow> if e then attach_rules k nb lib conf to_r mark else oio_of (io_ret ())
         | None \<Rightarrow> oio_of (io_ret ()))" for e
    by (auto split: option.split intro!: io_sends_intros attach_rules_owned)
  then show ?thesis
    unfolding reload_rules_def Let_def case_prod_beta
    by (intro io_sends_intros) (simp_all add: rule_unreachable_def)
qed

section \<open>The retry loop\<close>

lemma send_grows:
  assumes "io_sends P m" and "io_bind (io_send k r) (\<lambda>_. m) log = (log', x)"
  shows "length log < length log'"
proof (cases "kn_sent k (log @ [r])")
  case (Inr u)
  with assms(2) have "m (log @ [r]) = (log', x)" by (simp add: io_bind_def io_send_def)
  from io_sendsD [OF assms(1) this] show ?thesis by auto
qed (use assms(2) in \<open>auto simp: io_bind_def io_send_def\<close>)

lemma iptables_try_grows:
  "iptables_rule_try k ins mark addr port log = (log', r) \<Longrightarrow> length log < length log'"
proof -
  assume run: "iptables_rule_try k ins mark addr port log = (log', r)"
  have "io_sends (\<lambda>_. True) (io_bind (io_recv (kn_genid k)) (\<lambda>g. io_bind (io_lift (ok_or (Msg ''missing id'') g)) (\<lambda>genid.
      io_bind (iptables_op k ins mark addr port) (\<lambda>op.
      io_bind (io_send k (ReqNftBatch genid ''nat'' ''OUTPUT'' op)) (\<lambda>_. io_recv (kn_batch k))))))" (is "io_sends _ ?rest")
    unfolding iptables_op_def by (intro io_sends_intros io_sends_case_option) simp_all
  moreover have "iptables_rule_try k ins mark addr port log = io_bind (io_send k ReqNftGetGen) (\<lambda>_. ?rest) log"
    by (simp add: iptables_rule_try_def get_latest_genid_def io_bind_def split: prod.split sum.split)
  ultimately show ?thesis
    using run send_grows [of "\<lambda>_. True" ?rest k ReqNftGetGen log log' r] by simp
qed

lemma iptables_rule_ends:
  assumes "\<forall>log. n \<le> length log \<longrightarrow> snd (iptables_rule_try k ins mark addr port log) \<noteq> Inl Interrupted"
  shows "\<exists>log' r. iptables_rule k ins mark addr port log = Some (log', r) \<and> r \<noteq> Inl Interrupted"
proof (induction "n - length log" arbitrary: log rule: less_induct)
  case less
  obtain log1 r1 where once: "iptables_rule_try k ins mark addr port log = (log1, r1)" by fastforce
  show ?case
  proof (cases "r1 = Inl Interrupted")
    case True
    with assms once have "length log < n" by (metis not_le snd_conv)
    with less [of log1] iptables_try_grows [OF once] have
      "\<exists>log' r. iptables_rule k ins mark addr port log1 = Some (log', r) \<and> r \<noteq> Inl Interrupted" by auto
    with True once show ?thesis by (simp add: iptables_rule.simps [of k ins mark addr port log])
  next
    case False
    with once show ?thesis by (simp add: iptables_rule.simps [of k ins mark addr port log])
  qed
qed

section \<open>Properties\<close>

text \<open>A reload is the clean-up of the old mark, if it has one, then requests of the new one.\<close>

lemma reload_splits:
  assumes "watch_reload_step k nb lib conf routes new_mark ctx log = Some (log', ctx', res)"
  shows "bc_mark ctx' = Some new_mark \<and>
    (\<exists>log1 r1 add. (case bc_mark ctx of None \<Rightarrow> Some (log, Inr ()) | Some m \<Rightarrow> clear_rules k m log) = Some (log1, r1)
      \<and> log' = log1 @ add \<and> list_all (owned_by nb new_mark) add)"
proof -
  define first where "first = (case bc_mark ctx of None \<Rightarrow> Some (log, Inr ()) | Some m \<Rightarrow> clear_rules k m log)"
  obtain log1 r1 where first: "first = Some (log1, r1)"
    using assms by (auto simp: watch_reload_step_def first_def Let_def split: option.splits)
  have run: "watch_reload_step k nb lib conf routes new_mark ctx log =
    (case r1 of Inl e \<Rightarrow> Some (log1, ctx\<lparr>bc_mark := Some new_mark\<rparr>, Inl e)
     | Inr _ \<Rightarrow> (case reload_rules k nb lib conf routes new_mark log1 of
             None \<Rightarrow> None
           | Some (log, Inl e) \<Rightarrow> Some (log, ctx\<lparr>bc_mark := Some new_mark\<rparr>, Inl e)
           | Some (log, Inr (enable, blocker)) \<Rightarrow>
             (case bpf_reload lib (ctx\<lparr>bc_mark := Some new_mark\<rparr>) conf enable new_mark of
                Inl e \<Rightarrow> Some (log, ctx\<lparr>bc_mark := Some new_mark\<rparr>, Inl e)
              | Inr (ctx, bpf) \<Rightarrow> Some (log, ctx, Inr (bpf, blocker)))))"
    using first by (simp add: watch_reload_step_def first_def Let_def split: sum.split)
  have keep: "bc_mark c = Some new_mark" if "bpf_reload lib (ctx\<lparr>bc_mark := Some new_mark\<rparr>) conf e new_mark = Inr (c, b)" for c b e
    using that by (auto simp: bpf_reload_def Let_def split: if_splits sum.splits error.splits)
  show ?thesis
  proof (cases r1)
    case (Inl e)
    with assms run first show ?thesis unfolding first_def by (intro conjI exI [of _ log1] exI [of _ r1] exI [of _ "[]"]) auto
  next
    case (Inr u)
    with assms run obtain log2 r2 where rules: "reload_rules k nb lib conf routes new_mark log1 = Some (log2, r2)"
      by (auto split: option.splits)
    with reload_rules_owned [of nb new_mark k lib conf routes] obtain add
      where add: "log2 = log1 @ add" "list_all (owned_by nb new_mark) add" unfolding oio_sends_def by blast
    have "log' = log2 \<and> bc_mark ctx' = Some new_mark"
      using assms run Inr rules keep by (auto split: sum.splits)
    with add first show ?thesis unfolding first_def by blast
  qed
qed

text \<open>
  C21: a reload first removes what belongs to the previous mark and touches nothing else
  while it does: rules and routes by that mark, and in the \<^verbatim>\<open>nat\<close> table only rules whose user data, in the
  dump just before, is that mark, by the handle that the dump gives for them.  Then it adds only what
  belongs to the new mark: every rule carries the new table or the masked-out new mark, every route the
  new table, the DNAT rule the mark as its user data, so that the next reload finds and removes all of
  it, whether or not a request fails on the way.
\<close>

theorem reload_owns_what_it_adds:
  assumes "watch_reload_step k nb lib conf routes new_mark ctx log = Some (log', ctx', res)"
  shows "bc_mark ctx' = Some new_mark \<and>
    (\<exists>del add. log' = log @ del @ add \<and> list_all (owned_by nb new_mark) add \<and>
      (case bc_mark ctx of None \<Rightarrow> del = [] | Some old \<Rightarrow> all_steps (cleans_mark k old) log del))"
proof -
  from reload_splits [OF assms] obtain log1 r1 add where mark: "bc_mark ctx' = Some new_mark"
    and first: "(case bc_mark ctx of None \<Rightarrow> Some (log, Inr ()) | Some m \<Rightarrow> clear_rules k m log) = Some (log1, r1)"
    and add: "log' = log1 @ add" "list_all (owned_by nb new_mark) add" by blast
  have "\<exists>del. log1 = log @ del \<and> (case bc_mark ctx of None \<Rightarrow> del = [] | Some old \<Rightarrow> all_steps (cleans_mark k old) log del)"
  proof (cases "bc_mark ctx")
    case None
    with first show ?thesis by simp
  next
    case (Some old)
    with first show ?thesis using oio_stepsD [OF clear_rules_cleans] by simp
  qed
  with mark add show ?thesis by (metis append.assoc)
qed

text \<open>Values for the witnesses.\<close>

definition ex_nl_lib :: nl_lib where
  "ex_nl_lib = \<lparr>nb_rtmsg = (\<lambda>h. replicate 12 0), nb_chunks = (\<lambda>buf. [(15, 4)])\<rparr>"

definition ex_ctx :: BpfCtx where
  "ex_ctx = \<lparr>bc_mark = None, bc_matches_time = 0, bc_matches = [], bc_last_gen = 0, bc_arena = []\<rparr>"

definition ex_drop :: State where
  "ex_drop = state_default\<lparr>st_enable := True,
     st_config := config_default\<lparr>c_drop_egress_without_output := True\<rparr>\<rparr>"

lemma ex_drop_run:
  "watch_reload_step silent_kernel nb lib ex_drop None 70000 ex_ctx [] =
    Some ([rule_unreachable 70000 None], ex_ctx\<lparr>bc_mark := Some 70000\<rparr>,
      Inr (\<lparr>bf_enable = False, bf_enable_dns = False, bf_mark = 70000, bf_arena_buf = [],
            bf_has_dfa = False, bf_dfa = bpf_dfa_zero, bf_generation = 0\<rparr>,
           ''Output interface not found (dropping traffic)''))"
  by (simp add: watch_reload_step_def reload_rules_def reload_blocker_def bpf_reload_def oio_bind_def oio_of_def
      io_ret_def io_request_accepts ex_drop_def ex_ctx_def state_default_def config_default_def matches_default_def Let_def)

theorem reload_owns_what_it_adds_witness:
  "\<exists>log' ctx' res. watch_reload_step silent_kernel ex_nl_lib all_libs ex_drop None 70000 ex_ctx [] = Some (log', ctx', res)
    \<and> bc_mark ctx' = Some 70000 \<and> list_all (owned_by ex_nl_lib 70000) log'"
  using reload_owns_what_it_adds [OF ex_drop_run [of ex_nl_lib all_libs]]
  by (auto simp: ex_drop_run) (simp_all add: ex_ctx_def)

text \<open>
  C22: the kill switch.  When the output is missing or down although the daemon is enabled,
  and the user asked to drop traffic then, a reload that succeeds has made packets with
  the new mark unreachable, turns marking of new sockets off, and says so in the blocker.
\<close>

theorem reload_drops_without_output:
  assumes "watch_reload_step k nb lib conf routes new_mark ctx log = Some (log', ctx', Inr (bpf, blocker))"
    and "st_enable conf" and "c_drop_egress_without_output (st_config conf)"
    and "\<forall>r. routes = Some r \<longrightarrow> \<not> r_is_up r"
  shows "log' \<noteq> [] \<and> last log' = rule_unreachable new_mark None \<and> \<not> bf_enable bpf \<and> \<not> bf_enable_dns bpf
    \<and> blocker \<in> {''Output interface is down (dropping traffic)'', ''Output interface not found (dropping traffic)''}"
proof -
  have blk: "\<exists>b. reload_blocker conf routes = (False, b) \<and> b \<in> {''Output interface is down'', ''Output interface not found''}"
    using assms(2,4) by (auto simp: reload_blocker_def split: option.split)
  then obtain b where b: "reload_blocker conf routes = (False, b)" "b \<noteq> ''''"
    "b \<in> {''Output interface is down'', ''Output interface not found''}" by auto
  have rules: "reload_rules k nb lib conf routes new_mark log1 =
    oio_bind (oio_of (io_request k (rule_unreachable new_mark None))) (\<lambda>_.
      oio_of (io_ret (False, b @ '' (dropping traffic)''))) log1" for log1
    using b(2) assms(3) by (simp add: reload_rules_def b(1) oio_bind_def oio_of_def io_ret_def split: option.split)
  have req: "last log2 = rule_unreachable new_mark None \<and> log2 \<noteq> []"
    if "io_request k (rule_unreachable new_mark None) log1 = (log2, r)" for log1 log2 r
    using that by (auto simp: io_request_def io_bind_def io_send_def io_recv_def split: sum.splits)
  have off: "\<not> bf_enable bpf \<and> \<not> bf_enable_dns bpf" if "bpf_reload lib c conf False new_mark = Inr (ctx', bpf)" for c
    using that by (auto simp: bpf_reload_def Let_def split: if_splits sum.splits error.splits)
  show ?thesis
    using assms(1) b(3) req off
    by (auto simp: watch_reload_step_def Let_def rules oio_bind_def oio_of_def io_ret_def
        split: option.splits sum.splits prod.splits)
qed

theorem reload_drops_without_output_witness:
  "\<exists>log' ctx' bpf blocker.
    watch_reload_step silent_kernel ex_nl_lib all_libs ex_drop None 70000 ex_ctx [] = Some (log', ctx', Inr (bpf, blocker))
    \<and> last log' = rule_unreachable 70000 None \<and> \<not> bf_enable bpf"
  using reload_drops_without_output [OF ex_drop_run [of ex_nl_lib all_libs]]
  by (simp add: ex_drop_run ex_drop_def [THEN arg_cong [where f = st_enable]]
      ex_drop_def [THEN arg_cong [where f = st_config]])

text \<open>
  With a kernel that accepts every request, an output that is up, the local network
  not allowed and no DNS spoofing, a reload sends exactly one rule for each address of the
  device, the rule for the mark, one rule for each IPv4 match whose pattern parses, with
  the new table for a redirect and the main table for a bypass, in the order of the list,
  then the default route and the rule that makes the rest unreachable.
\<close>

theorem reload_rules_exact:
  assumes k: "accepts k" and up: "r_is_up to_r" "st_enable conf"
    and conf: "\<not> c_allow_lan (st_config conf)" "\<not> c_spoof_dns (st_config conf)"
  shows "reload_rules k nb lib conf (Some to_r) mark log =
    Some (log @ map (rule_from_addr mark) (r_addrs to_r) @ [rule_fwmark mark]
      @ List.map_filter (match_rule lib mark) (ms_matches (st_matches conf))
      @ [default_route_req mark to_r, rule_unreachable mark (Some 0)], Inr (True, ''''))"
  using up conf
  by (simp add: reload_rules_def reload_blocker_def attach_rules_def oio_bind_def oio_of_def
      io_iter_accepts [OF k] io_iter_option_accepts [OF k] io_request_accepts [OF k]) (simp add: io_ret_def)

definition ex_route :: Route where
  "ex_route = \<lparr>r_is_up = True, r_ifindex = 3, r_ifname = ''wg0'', r_addrs = [V4 (Ipv4 10 0 0 2)], r_gateway = None\<rparr>"

definition ex_ip :: Match where
  "ex_ip = match_default\<lparr>m_pattern := ''1.1.1.1'', m_kind := Kind_ipv4, m_direction := Direction_bypass\<rparr>"

definition ex_up :: State where
  "ex_up = state_default\<lparr>st_enable := True, st_config := config_default\<lparr>c_allow_lan := False\<rparr>,
     st_matches := matches_default\<lparr>ms_matches := [ex_ip, ex_dns]\<rparr>\<rparr>"

theorem reload_rules_exact_witness:
  "reload_rules silent_kernel ex_nl_lib all_libs ex_up (Some ex_route) 70000 [] =
    Some ([rule_from_addr 70000 (V4 (Ipv4 10 0 0 2)), rule_fwmark 70000,
      rule_to_addr 70000 Direction_bypass (Ipv4 1 1 1 1, 32),
      default_route_req 70000 ex_route, rule_unreachable 70000 (Some 0)], Inr (True, ''''))"
proof -
  have "parse_ipv4 (show_ipv4 (Ipv4 1 1 1 1)) = Some (Ipv4 1 1 1 1)" by (rule parse_show_ipv4)
  moreover have "show_ipv4 (Ipv4 1 1 1 1) = ''1.1.1.1''" by code_simp
  ultimately have "parse_ipv4 ''1.1.1.1'' = Some (Ipv4 1 1 1 1)" by simp
  then show ?thesis
    by (subst reload_rules_exact)
      (simp_all add: ex_up_def ex_route_def state_default_def config_default_def matches_default_def
        List.map_filter_simps match_rule_def match_addr_def ex_ip_def ex_dns_def match_default_def)
qed

text \<open>
  The retry loop around the DNAT rule returns, and never with an interruption, as soon
  as the kernel stops interrupting after some number of requests.
\<close>

theorem iptables_rule_returns:
  assumes "\<forall>log. n \<le> length log \<longrightarrow> snd (iptables_rule_try k ins mark addr port log) \<noteq> Inl Interrupted"
  shows "\<exists>log' r. iptables_rule k ins mark addr port log = Some (log', r) \<and> r \<noteq> Inl Interrupted"
  using assms by (rule iptables_rule_ends)

definition intr_kernel :: kernel where
  "intr_kernel = silent_kernel\<lparr>kn_batch := (\<lambda>log. if length log < 5 then Inl Interrupted else Inr ())\<rparr>"

theorem iptables_rule_returns_witness:
  "snd (iptables_rule_try intr_kernel True 1 (Ipv4 8 8 8 8) 53 []) = Inl Interrupted \<and>
    (\<exists>log' r. iptables_rule intr_kernel True 1 (Ipv4 8 8 8 8) 53 [] = Some (log', r) \<and> r \<noteq> Inl Interrupted)"
proof -
  have run: "snd (iptables_rule_try intr_kernel True 1 (Ipv4 8 8 8 8) 53 log) =
      (if length log < 3 then Inl Interrupted else Inr ())" for log
    by (simp add: iptables_rule_try_def get_latest_genid_def iptables_op_def io_bind_def io_send_def io_recv_def
        io_ret_def io_lift_def intr_kernel_def silent_kernel_def)
  then show ?thesis
    using iptables_rule_returns [of 3 intr_kernel True 1 "Ipv4 8 8 8 8" 53 "[]"] by simp
qed

section \<open>The arena\<close>

lemma build_path_dfa_arena:
  assumes "align_wf (l_align lib)" and "build_path_dfa lib ms [] = Inr (arena, dfa)"
  shows "arena \<noteq> []"
proof -
  obtain pats pim where "encode_dfa lib pats [] pim ms = Inr (arena, dfa)"
    using assms(2) by (auto simp: build_path_dfa_def split: prod.splits)
  from encode_dfa_layout [OF this assms(1)] show ?thesis by force
qed

text \<open>
  A subnet of the other address family is accepted when the match is added, because
  \<open>try_parse\<close> takes any \<^verbatim>\<open>IpNet\<close>, and has no effect afterwards, because the reload parses
  an \<^verbatim>\<open>Ipv4Net\<close> and skips what it cannot parse.
\<close>

theorem subnet_accepted_without_rule:
  assumes "l_parse_ipnet lib p = Inr ()" and "l_parse_ipv4net lib p = Inl e"
    and "m = match_default\<lparr>m_pattern := p, m_kind := Kind_ipv4, m_method := Method_subnet\<rparr>"
  shows "snd (matches_add lib ms m) = Inr () \<and> match_rule lib mark m = None"
  using assms by (simp add: matches_add_def try_parse_def match_rule_def match_addr_def match_default_def)

theorem subnet_accepted_without_rule_witness:
  "snd (matches_add (all_libs\<lparr>l_parse_ipv4net := (\<lambda>p. Inl ''invalid'')\<rparr>) matches_default
      (match_default\<lparr>m_pattern := ''fd00::/8'', m_kind := Kind_ipv4, m_method := Method_subnet\<rparr>)) = Inr ()"
  using subnet_accepted_without_rule [of "all_libs\<lparr>l_parse_ipv4net := (\<lambda>p. Inl ''invalid'')\<rparr>" "''fd00::/8''"
      "''invalid''" _ matches_default 1, OF _ _ refl]
  by (simp add: all_libs_def)

text \<open>
  A change of the main routing table does nothing.  The kernel puts the table of a route
  in its notification, 254 for the main table, and the handler skips every route whose
  table attribute is not zero, so neither the default route nor the clones are refreshed.
\<close>

theorem main_table_change_ignored:
  assumes "g_table attrs = Some (of_nat RT_TABLE_MAIN)"
  shows "watch_multicast_step k state default_route routes RTM_NEWROUTE attrs l log = (log, Inr mc_nothing)"
  using assms by (simp add: watch_multicast_step_def multicast_newroute_def RTM_NEWROUTE_def RT_TABLE_MAIN_def io_ret_def)

theorem main_table_change_ignored_witness:
  "watch_multicast_step silent_kernel ex_up None (Some ex_route) RTM_NEWROUTE
    \<lparr>g_hdr = \<lparr>h_dst_len = 0, h_src_len = 0, h_tos = 0, h_table = 254, h_protocol = 3, h_scope = 0, h_type = 1, h_flags = 0\<rparr>,
     g_table = Some 254, g_dst = None, g_oif = Some 3, g_prefsrc = None, g_gateway = None, g_buf = []\<rparr>
    \<lparr>k_index = 0, k_flags = 0, k_ifname = None, k_stats64 = None\<rparr> [] = ([], Inr mc_nothing)"
  by (rule main_table_change_ignored) (simp add: RT_TABLE_MAIN_def)

end
