(* ===== verification/History.thy ===== *)
theory History
  imports Hooks_Correct Matches_Correct Reload_Correct
begin

text \<open>
  The list of matches, the reload, the loader and the hooks together: the history of a daemon as the
  eBPF program sees it.
\<close>

section \<open>The automaton in force\<close>

text \<open>
  The program has the automaton of the list \<open>ms\<close>, or none where it cannot be built.  An arena beyond the
  limit is not copied.
\<close>

definition in_force :: "libs \<Rightarrow> Matches \<Rightarrow> bpf_globals \<Rightarrow> bool" where
  "in_force lib ms g =
    (case build_path_dfa lib ms [] of
       Inr (arena, dfa) \<Rightarrow> bg_has_dfa g \<and> bg_dfa g = dfa \<and>
         (length arena \<le> ARENA_SIZE \<longrightarrow> bg_base g \<and> (\<exists>mem. bg_mem g = load_arena arena mem))
     | Inl e \<Rightarrow> \<not> bg_has_dfa g)"

text \<open>The kernel gives pages up to the size of the map.\<close>

definition pages_free :: "(u32 \<Rightarrow> bool) \<Rightarrow> bool" where
  "pages_free alloc \<longleftrightarrow> (\<forall>n. 0 < n \<longrightarrow> n \<le> 512 \<longrightarrow> alloc n)"

text \<open>Daemon and loader agree, and the pages cover the arena that the daemon holds.\<close>

definition synced :: "BpfCtx \<Rightarrow> bpf_globals \<Rightarrow> bool" where
  "synced ctx g \<longleftrightarrow> bg_last_gen g = bc_last_gen ctx \<and> arena_npages (bc_arena ctx) \<le> bg_pages g"

lemma in_force_config [simp]: "in_force lib ms (g\<lparr>bg_config := conf\<rparr>) = in_force lib ms g"
  by (simp add: in_force_def split: sum.split prod.split)

lemma in_force_cache [simp]: "in_force lib ms (g\<lparr>bg_cache := c\<rparr>) = in_force lib ms g"
  by (simp add: in_force_def split: sum.split prod.split)

lemma synced_cache [simp]: "synced ctx (g\<lparr>bg_cache := c\<rparr>) = synced ctx g"
  by (simp add: synced_def)

lemma load_synced:
  assumes sync: "synced ctx g" and reload: "bpf_reload lib ctx conf enable mark = Inr (ctx', bpf)"
    and load: "load_config alloc bpf g = Some g'"
  shows "synced ctx' g' \<and> bc_last_gen ctx' = ms_generation (st_matches conf) \<and> bg_config g' = bpf
    \<and> bg_cache g' = (\<lambda>i. None)"
proof -
  have gen: "bf_generation bpf = ms_generation (st_matches conf)" "bc_last_gen ctx' = ms_generation (st_matches conf)"
    "bf_arena_buf bpf = bc_arena ctx'"
    using reload by (auto simp: bpf_reload_def Let_def split: if_splits sum.splits error.splits)
  have "bg_last_gen g' = bf_generation bpf \<and> arena_npages (bf_arena_buf bpf) \<le> bg_pages g' \<and> bg_config g' = bpf"
    using load by (auto simp: load_config_simps reload_config_def Let_def split: if_splits)
  with gen load_config_cache [OF load] show ?thesis by (simp add: synced_def)
qed

lemma load_in_force:
  assumes al: "align_wf (l_align lib)" and pages: "pages_free alloc" and sync: "synced ctx g"
    and reload: "bpf_reload lib ctx conf enable mark = Inr (ctx', bpf)"
    and load: "load_config alloc bpf g = Some g'"
    and same: "bc_last_gen ctx = ms_generation (st_matches conf) \<Longrightarrow> in_force lib (st_matches conf) g"
  shows "in_force lib (st_matches conf) g'"
proof (cases "bc_last_gen ctx = ms_generation (st_matches conf)")
  case True
  then have conf: "bf_generation bpf = bc_last_gen ctx" "bf_arena_buf bpf = bc_arena ctx"
    using reload by (auto simp: bpf_reload_def Let_def)
  have g': "bg_has_dfa g' = bg_has_dfa g" "bg_dfa g' = bg_dfa g"
    "bg_base g \<Longrightarrow> bg_base g' \<and> bg_mem g' = bg_mem g"
    using load sync conf by (auto simp: synced_def load_config_simps reload_config_def Let_def not_less split: if_splits)
  with same [OF True] show ?thesis
    by (auto simp: in_force_def split: sum.splits prod.splits)
next
  case False
  show ?thesis
  proof (cases "build_path_dfa lib (st_matches conf) []")
    case (Inl e)
    with False reload have "\<not> bf_has_dfa bpf" "bf_arena_buf bpf = []" "bf_generation bpf \<noteq> bc_last_gen ctx"
      by (auto simp: bpf_reload_def Let_def split: error.splits)
    with load sync Inl show ?thesis
      by (auto simp: synced_def load_config_simps reload_config_def Let_def in_force_def split: if_splits)
  next
    case (Inr r)
    obtain arena dfa where r: "r = (arena, dfa)" by fastforce
    with Inr build_path_dfa_arena [OF al, of "st_matches conf"] have ne: "arena \<noteq> []" by blast
    have bpf: "bf_has_dfa bpf" "bf_dfa bpf = dfa" "bf_arena_buf bpf = arena" "bf_generation bpf \<noteq> bc_last_gen ctx"
      using False reload Inr r by (auto simp: bpf_reload_def Let_def)
    have "alloc (arena_npages arena)" if "length arena \<le> ARENA_SIZE"
      using pages arena_npages_small [OF ne that] by (simp add: pages_free_def)
    with bpf load sync Inr r ne show ?thesis
      by (auto simp: synced_def load_config_simps reload_config_def Let_def in_force_def split: if_splits)
  qed
qed

text \<open>Tables that do not fit are reported as loaded only where there is no arena.\<close>

lemma load_oversized:
  assumes "synced ctx g" and "bpf_reload lib ctx conf enable mark = Inr (ctx', bpf)" and "load_config alloc bpf g = Some g'"
    and "bc_last_gen ctx \<noteq> ms_generation (st_matches conf)"
    and "build_path_dfa lib (st_matches conf) [] = Inr (arena, dfa)" "ARENA_SIZE < length arena"
  shows "\<not> bg_base g'"
  using assms by (auto simp: bpf_reload_def synced_def load_config_simps reload_config_def Let_def split: if_splits)

text \<open>What a hook changes: the cache, and the arena only from nothing to zeroed pages.\<close>

lemma needs_mark_frame:
  "needs_mark alloc keep t m g = (g', r, m') \<Longrightarrow> \<exists>c. g' = g\<lparr>bg_cache := c\<rparr> \<or> g' = (get_arena alloc g)\<lparr>bg_cache := c\<rparr>"
  by (auto simp: needs_mark_def walk_arena_def Let_def split: option.splits prod.splits if_splits)
    (metis bpf_globals.surjective bpf_globals.update_convs(7))+

lemma hook_step_frame:
  assumes "hook_step (needs_mark alloc keep) e g = (g', out)"
  shows "\<exists>c. g' = g\<lparr>bg_cache := c\<rparr> \<or> g' = (get_arena alloc g)\<lparr>bg_cache := c\<rparr>"
proof -
  have same: "\<exists>c. g = g\<lparr>bg_cache := c\<rparr>" by (metis bpf_globals.surjective bpf_globals.update_convs(7))
  show ?thesis
    using assms same
    by (cases e)
      (auto simp: socket_create_with_def refresh_socket_with_def dump_proc_with_def iter_judge_def
        split: if_splits prod.splits option.splits dest!: needs_mark_frame)
qed

lemma hook_step_keeps:
  assumes "hook_step (needs_mark alloc keep) e g = (g', out)"
  shows "synced ctx g \<Longrightarrow> synced ctx g'" and "in_force lib ms g \<Longrightarrow> in_force lib ms g'" and "bg_config g' = bg_config g"
proof -
  have pages: "bg_pages g \<le> bg_pages (get_arena alloc g)"
    by (simp add: get_arena_def Let_def)
  obtain c where "g' = g\<lparr>bg_cache := c\<rparr> \<or> g' = (get_arena alloc g)\<lparr>bg_cache := c\<rparr>"
    using hook_step_frame [OF assms] by blast
  then show "synced ctx g \<Longrightarrow> synced ctx g'" and "in_force lib ms g \<Longrightarrow> in_force lib ms g'"
    and "bg_config g' = bg_config g"
    using pages by (auto simp: synced_def in_force_def get_arena_def Let_def split: sum.splits prod.splits if_splits)
qed

lemma in_force_arena:
  assumes force: "in_force lib ms g" and pats: "path_loop_set lib 0 (ms_matches ms) ([], []) = (pats, pim)"
    and built: "build_path_dfa lib ms [] = Inr (arena, dfa)" and size: "length arena \<le> ARENA_SIZE"
  obtains mem where "bg_has_dfa g" and "bg_dfa g = dfa" and "arena_mem g = load_arena arena mem"
    and "encode_dfa lib pats [] pim ms = Inr (arena, dfa)"
  using assms by (auto simp: in_force_def built arena_mem_def build_path_dfa_def)

section \<open>Histories of a daemon\<close>

text \<open>
  Operations on the list of matches, through whatever call of the service; reloads, which build the
  configuration and load it; and hooks.  \<open>None\<close> is a failed \<^verbatim>\<open>EXPECT\<close> of the loader or a panic of the
  build.
\<close>

datatype hist_event = EvOp matches_op | EvReload bool u32 | EvHook hook_event

type_synonym sys = "State \<times> BpfCtx \<times> bpf_globals"

fun event_step :: "libs \<Rightarrow> (u32 \<Rightarrow> bool) \<Rightarrow> lru \<Rightarrow> hist_event \<Rightarrow> sys \<Rightarrow> sys option" where
  "event_step lib alloc keep (EvOp a) (st, ctx, g) =
    Some (st\<lparr>st_matches := fst (matches_step lib (st_matches st) a)\<rparr>, ctx, g)"
| "event_step lib alloc keep (EvReload enable mark) (st, ctx, g) =
    (case bpf_reload lib ctx st enable mark of
       Inl e \<Rightarrow> None
     | Inr (ctx, bpf) \<Rightarrow> (case load_config alloc bpf g of None \<Rightarrow> None | Some g \<Rightarrow> Some (st, ctx, g)))"
| "event_step lib alloc keep (EvHook e) (st, ctx, g) = Some (st, ctx, fst (hook_step (needs_mark alloc keep) e g))"

fun event_run :: "libs \<Rightarrow> (u32 \<Rightarrow> bool) \<Rightarrow> lru \<Rightarrow> hist_event list \<Rightarrow> sys \<Rightarrow> sys option" where
  "event_run lib alloc keep [] s = Some s"
| "event_run lib alloc keep (e # es) s = Option.bind (event_step lib alloc keep e s) (event_run lib alloc keep es)"

lemma event_run_append:
  "event_run lib alloc keep (es @ fs) s = Option.bind (event_run lib alloc keep es s) (event_run lib alloc keep fs)"
  by (induction es arbitrary: s) (auto split: bind_splits)

lemma event_run_hooks:
  "event_run lib alloc keep (map EvHook hs) (st, ctx, g) = Some (st, ctx, fst (hook_steps (needs_mark alloc keep) hs g))"
  by (induction hs arbitrary: g) (auto simp: split_def Let_def)

text \<open>
  After \<open>k\<close> events: the daemon and the loader agree on the generation they loaded last; it is either
  none at all or that of an earlier list, which is in force and, if nothing was changed since, the
  present one.
\<close>

definition tracks :: "libs \<Rightarrow> u64 \<Rightarrow> nat \<Rightarrow> sys \<Rightarrow> bool" where
  "tracks lib g0 k s = (case s of (st, ctx, g) \<Rightarrow>
     synced ctx g \<and>
     (\<exists>c \<le> k. ms_generation (st_matches st) = g0 + of_nat c \<and>
       (bc_last_gen ctx = 0 \<or>
        (\<exists>j \<le> c. bc_last_gen ctx = g0 + of_nat j \<and> (j = c \<longrightarrow> in_force lib (st_matches st) g)))))"

lemma tracksI:
  assumes "synced ctx g" and "c \<le> k" and "ms_generation (st_matches st) = g0 + of_nat c"
    and "bc_last_gen ctx = 0 \<or> (\<exists>j \<le> c. bc_last_gen ctx = g0 + of_nat j \<and> (j = c \<longrightarrow> in_force lib (st_matches st) g))"
  shows "tracks lib g0 k (st, ctx, g)"
  using assms unfolding tracks_def by blast

lemma tracksE:
  assumes "tracks lib g0 k (st, ctx, g)"
  obtains c where "synced ctx g" and "c \<le> k" and "ms_generation (st_matches st) = g0 + of_nat c"
    and "bc_last_gen ctx = 0 \<or> (\<exists>j \<le> c. bc_last_gen ctx = g0 + of_nat j \<and> (j = c \<longrightarrow> in_force lib (st_matches st) g))"
  using assms unfolding tracks_def by blast

lemma gen_inj:
  assumes "(g0 :: u64) + of_nat j = g0 + of_nat c" and "j \<le> c" and "c < 2 ^ 64"
  shows "j = c"
  using assms by (simp add: word_of_nat_eq_iff take_bit_nat_eq_self)

lemma tracks_op:
  assumes "build_wf lib" and "tracks lib g0 k (st, ctx, g)"
  shows "tracks lib g0 (Suc k) (st\<lparr>st_matches := fst (matches_step lib (st_matches st) a)\<rparr>, ctx, g)"
proof -
  obtain c where c: "synced ctx g" "c \<le> k" "ms_generation (st_matches st) = g0 + of_nat c"
    and last: "bc_last_gen ctx = 0 \<or> (\<exists>j \<le> c. bc_last_gen ctx = g0 + of_nat j \<and> (j = c \<longrightarrow> in_force lib (st_matches st) g))"
    using assms(2) by (rule tracksE)
  show ?thesis
  proof (rule mtx.step_cases [OF assms(1), of "st_matches st" a])
    fix err assume "matches_step lib (st_matches st) a = (st_matches st, Inl err)"
    with c last show ?thesis
      by (intro tracksI [of _ _ c]) simp_all
  next
    fix ms' assume ms': "matches_step lib (st_matches st) a = (ms', Inr ())"
      and gen: "ms_generation ms' = ms_generation (st_matches st) + 1"
    have "bc_last_gen ctx = 0 \<or>
        (\<exists>j \<le> Suc c. bc_last_gen ctx = g0 + of_nat j \<and> (j = Suc c \<longrightarrow> in_force lib ms' g))"
      using last le_SucI not_less_eq_eq by blast
    with ms' gen c show ?thesis
      by (intro tracksI [of _ _ "Suc c"]) simp_all
  qed
qed

lemma tracks_hook:
  assumes "tracks lib g0 k (st, ctx, g)"
  shows "tracks lib g0 (Suc k) (st, ctx, fst (hook_step (needs_mark alloc keep) e g))"
proof -
  obtain g' out where h: "hook_step (needs_mark alloc keep) e g = (g', out)" by fastforce
  obtain c where c: "synced ctx g" "c \<le> k" "ms_generation (st_matches st) = g0 + of_nat c"
    and last: "bc_last_gen ctx = 0 \<or> (\<exists>j \<le> c. bc_last_gen ctx = g0 + of_nat j \<and> (j = c \<longrightarrow> in_force lib (st_matches st) g))"
    using assms by (rule tracksE)
  then have "tracks lib g0 (Suc k) (st, ctx, g')"
    using hook_step_keeps(1) [OF h c(1)] hook_step_keeps(2) [OF h, of lib "st_matches st"]
    by (intro tracksI [of _ _ c]) auto
  with h show ?thesis by simp
qed

lemma event_reload:
  assumes "event_step lib alloc keep (EvReload enable mark) (st, ctx, g) = Some (st', ctx', g')"
  obtains bpf where "bpf_reload lib ctx st enable mark = Inr (ctx', bpf)" and "load_config alloc bpf g = Some g'" and "st' = st"
  using assms by (auto split: sum.splits option.splits)

lemma tracks_reload:
  assumes "align_wf (l_align lib)" and "pages_free alloc" and "tracks lib g0 k (st, ctx, g)" and "unat g0 + k < 2 ^ 64"
    and "event_step lib alloc keep (EvReload enable mark) (st, ctx, g) = Some (st', ctx', g')"
  shows "tracks lib g0 (Suc k) (st', ctx', g')"
    and "ms_generation (st_matches st) \<noteq> 0 \<Longrightarrow> in_force lib (st_matches st') g'"
proof -
  obtain bpf where run: "bpf_reload lib ctx st enable mark = Inr (ctx', bpf)" "load_config alloc bpf g = Some g'" "st' = st"
    using assms(5) by (rule event_reload)
  obtain c where c: "synced ctx g" "c \<le> k" "ms_generation (st_matches st) = g0 + of_nat c"
    and last: "bc_last_gen ctx = 0 \<or> (\<exists>j \<le> c. bc_last_gen ctx = g0 + of_nat j \<and> (j = c \<longrightarrow> in_force lib (st_matches st) g))"
    using assms(3) by (rule tracksE)
  have "in_force lib (st_matches st) g" if "bc_last_gen ctx = ms_generation (st_matches st)" "ms_generation (st_matches st) \<noteq> 0"
    using that last assms(4) c gen_inj [of g0 _ c] by auto
  then show new: "ms_generation (st_matches st) \<noteq> 0 \<Longrightarrow> in_force lib (st_matches st') g'"
    using load_in_force [OF assms(1,2) c(1) run(1,2)] run(3) by simp
  show "tracks lib g0 (Suc k) (st', ctx', g')"
    using load_synced [OF c(1) run(1,2)] new c run(3)
    by (intro tracksI [of _ _ c]) auto
qed

lemma tracks_step:
  assumes "build_wf lib" and "pages_free alloc" and "tracks lib g0 k s" and "unat g0 + k < 2 ^ 64"
    and "event_step lib alloc keep e s = Some s'"
  shows "tracks lib g0 (Suc k) s'"
proof -
  obtain st ctx g where s: "s = (st, ctx, g)" by (cases s)
  have "align_wf (l_align lib)" using assms(1) unfolding build_wf_def by blast
  with assms s tracks_reload(1) [of lib alloc g0 k st ctx g keep] tracks_op [of lib g0 k st ctx g] tracks_hook [of lib g0 k st ctx g]
  show ?thesis by (cases e; cases s') auto
qed

lemma tracks_run:
  "build_wf lib \<Longrightarrow> pages_free alloc \<Longrightarrow> tracks lib g0 k s \<Longrightarrow> unat g0 + k + length es < 2 ^ 64 \<Longrightarrow>
    event_run lib alloc keep es s = Some s' \<Longrightarrow> tracks lib g0 (k + length es) s'"
proof (induction es arbitrary: k s)
  case (Cons e es)
  then obtain t where t: "event_step lib alloc keep e s = Some t" "event_run lib alloc keep es t = Some s'"
    by (auto simp: bind_eq_Some_conv)
  have "tracks lib g0 (Suc k) t"
    using Cons.prems t(1) by (intro tracks_step) auto
  with Cons.IH [of "Suc k" t] Cons.prems t(2) show ?case by simp
qed simp

text \<open>Hooks after the last reload leave the automaton, the configuration and a coherent cache.\<close>

lemma hook_steps_keep:
  "hook_steps (needs_mark alloc keep) hs g = (g', outs) \<Longrightarrow>
    (in_force lib ms g \<longrightarrow> in_force lib ms g') \<and> bg_config g' = bg_config g"
proof (induction hs arbitrary: g g' outs)
  case (Cons e es)
  obtain g1 out where e: "hook_step (needs_mark alloc keep) e g = (g1, out)" by fastforce
  obtain g2 outs2 where es: "hook_steps (needs_mark alloc keep) es g1 = (g2, outs2)" by fastforce
  with Cons.IH [OF es] Cons.prems e hook_step_keeps(2,3) [OF e] show ?case by simp
qed simp

text \<open>
  A history that ends with a reload and hooks: the automaton of the present list is in force, the
  configuration is the one of the reload, and the hooks ran with a cache that was empty.
\<close>

lemma reload_then_hooks:
  assumes wf: "build_wf lib" "pages_free alloc"
    and start: "bc_last_gen ctx = 0" "bg_last_gen g = 0" "bc_arena ctx = []"
    and bound: "unat (ms_generation (st_matches st)) + length es < 2 ^ 64"
    and run: "event_run lib alloc keep (es @ EvReload enable mark # map EvHook hs) (st, ctx, g) = Some (st', ctx', g')"
    and gen: "ms_generation (st_matches st') \<noteq> 0"
  shows "in_force lib (st_matches st') g' \<and> bf_enable (bg_config g') = enable \<and> bf_mark (bg_config g') = mark \<and>
    (\<exists>g1. bg_cache g1 = (\<lambda>i. None) \<and> g' = fst (hook_steps (needs_mark alloc keep) hs g1))"
proof -
  let ?g = "ms_generation (st_matches st)"
  obtain t where t: "event_run lib alloc keep es (st, ctx, g) = Some t"
    "event_run lib alloc keep (EvReload enable mark # map EvHook hs) t = Some (st', ctx', g')"
    using run by (auto simp: event_run_append bind_eq_Some_conv)
  obtain u v w where tuvw: "t = (u, v, w)" by (cases t)
  obtain u1 v1 g1 where s1: "event_step lib alloc keep (EvReload enable mark) (u, v, w) = Some (u1, v1, g1)"
    "event_run lib alloc keep (map EvHook hs) (u1, v1, g1) = Some (st', ctx', g')"
    using t(2) unfolding tuvw by (auto simp: bind_eq_Some_conv simp del: event_step.simps)
  obtain bpf where bpf: "bpf_reload lib v u enable mark = Inr (v1, bpf)" "load_config alloc bpf w = Some g1" "u1 = u"
    using s1(1) by (rule event_reload)
  have hooks: "st' = u" "g' = fst (hook_steps (needs_mark alloc keep) hs g1)"
    using s1(2) bpf(3) by (simp_all add: event_run_hooks)
  have al: "align_wf (l_align lib)" using wf(1) unfolding build_wf_def by blast
  have "tracks lib ?g 0 (st, ctx, g)"
    using start by (intro tracksI [of _ _ 0]) (simp_all add: synced_def)
  then have tr: "tracks lib ?g (length es) (u, v, w)"
    using tracks_run [OF wf _ _ t(1), of ?g 0] bound tuvw by simp
  have "in_force lib (st_matches u) g1"
    using tracks_reload(2) [OF al wf(2) tr _ s1(1)] bound gen hooks(1) bpf(3) by simp
  moreover have "bg_config g1 = bpf" "bg_cache g1 = (\<lambda>i. None)"
    using tr load_synced [OF _ bpf(1,2)] by (auto elim: tracksE)
  moreover have "bf_enable bpf = enable" "bf_mark bpf = mark"
    using bpf(1) by (auto simp: bpf_reload_def Let_def split: if_splits sum.splits error.splits)
  ultimately show ?thesis
    using hooks hook_steps_keep [of alloc keep hs g1] by (metis prod.collapse)
qed

section \<open>An example\<close>

text \<open>A builder whose automata accept every path for pattern 0, and a list with one match.\<close>

definition two_libs :: libs where
  "two_libs = (table_libs none_dense)\<lparr>l_build_many :=
    (\<lambda>reverse limit pats. Inr (if pats = [] then none_dense else two_dense [0] [0]))\<rparr>"

definition uid_match :: "u32 \<Rightarrow> State" where
  "uid_match uid = state_default\<lparr>st_matches := matches_default\<lparr>ms_matches := [ex_path\<lparr>m_uid := uid\<rparr>], ms_generation := 1\<rparr>\<rparr>"

abbreviation one_match :: State where "one_match \<equiv> uid_match 0"

definition no_ctx :: BpfCtx where
  "no_ctx = \<lparr>bc_mark = None, bc_matches_time = 0, bc_matches = [], bc_last_gen = 0, bc_arena = []\<rparr>"

lemma two_libs_align: "align_wf (l_align two_libs)"
  using table_libs_align [of none_dense] by (simp add: two_libs_def)

lemma two_dense_search: "two_dense [0] [0] = all_dense\<lparr>d_search := (\<lambda>s. Inr None)\<rparr>"
  by (simp add: all_dense_def two_dense_def table_dense_def)

lemma dense_layout_search: "dense_layout (d\<lparr>d_search := f\<rparr>) n = dense_layout d n"
  by (cases d) (simp only: dense_layout_def dense.simps)

lemma patterns_wf_search: "patterns_wf d n \<Longrightarrow> patterns_wf (d\<lparr>d_search := (\<lambda>s. Inr None)\<rparr>) n"
  by (cases d) (simp add: patterns_wf_def)

lemma two_libs_wf: "build_wf two_libs"
  unfolding build_wf_def
proof (intro conjI allI impI)
  fix reverse pats d assume "l_build_many two_libs reverse DFA_MAX_SIZE pats = Inr d"
  then have d: "pats = [] \<and> d = none_dense \<or> pats \<noteq> [] \<and> d = two_dense [0] [0]"
    by (simp add: two_libs_def split: if_splits)
  have two: "dense_wf (two_dense [0] [0])" "dense_layout (two_dense [0] [0]) 10" "patterns_wf (two_dense [0] [0]) (Suc n)" for n
    using all_dense_wf by (simp_all add: two_dense_search dense_wf_search dense_layout_search patterns_wf_search)
  from d show "dense_wf d" "\<exists>n. dense_layout d n"
    using two none_dense_wf(1,2) by auto
  from d show "patterns_wf d (length pats)"
    using two(3) none_dense_wf(3) by (cases pats) auto
qed (rule two_libs_align)

lemma two_libs_patterns:
  obtains pat where "path_loop_set two_libs 0 (ms_matches (st_matches (uid_match uid))) ([], []) = ([pat], [0])"
  by (simp add: uid_match_def ex_path_def match_default_def path_regex_def method_regex_def two_libs_def table_libs_def)

lemma two_libs_build:
  obtains arena dfa where "build_path_dfa two_libs (st_matches (uid_match uid)) [] = Inr (arena, dfa)" "arena \<noteq> []"
    "length arena \<le> ARENA_SIZE"
proof -
  obtain pat where pats: "path_loop_set two_libs 0 (ms_matches (st_matches (uid_match uid))) ([], []) = ([pat], [0])"
    by (rule two_libs_patterns)
  have "extract_dfa two_libs [pat] = dfa_extract (two_dense [0] [0]) True"
    by (simp add: extract_dfa_def build_dfa_def two_libs_def)
  then obtain arena dfa where "encode_dfa two_libs [pat] [] [0] (st_matches (uid_match uid)) = Inr (arena, dfa)"
    "length arena \<le> ARENA_SIZE"
    using two_extract [of "[0]" "[0]"]
    by (auto elim!: encode_dfa_ok [of two_libs "[pat]" _ "[0]" "st_matches (uid_match uid)" "two_dense [0] [0]"]
        simp: two_libs_align ARENA_SIZE_def pat_ok_def uid_match_def)
  moreover from this have "build_path_dfa two_libs (st_matches (uid_match uid)) [] = Inr (arena, dfa)"
    by (simp add: build_path_dfa_def pats)
  ultimately show thesis
    using build_path_dfa_arena [OF two_libs_align] that by blast
qed

text \<open>A program that has loaded the automaton for user \<open>uid\<close>, and a task with an executable.\<close>

definition loaded_globals :: "u8 list \<Rightarrow> bpf_DFA \<Rightarrow> bpf_globals" where
  "loaded_globals arena dfa = bpf_globals_zero\<lparr>bg_config := (bg_config bpf_globals_zero)\<lparr>bf_enable := True, bf_mark := 5\<rparr>,
     bg_has_dfa := True, bg_dfa := dfa, bg_base := True, bg_pages := 512, bg_mem := load_arena arena (\<lambda>a. 0)\<rparr>"

definition ex_task :: "u32 \<Rightarrow> task_struct" where
  "ex_task uid = \<lparr>ta_pid = 1, ta_start_boottime = 0, ta_uid = uid, ta_exe = Some [[98], [SLASH]]\<rparr>"

lemma two_one_pattern: "\<forall>s. d_is_match (two_dense [0] [0]) s \<longrightarrow> d_match_len (two_dense [0] [0]) s = 1"
proof -
  have "(s - 4) div 2 = 0 \<or> (s - 4) div 2 = 1" if "4 \<le> s \<and> s \<le> 6" for s :: nat using that by linarith
  then show ?thesis by (force simp: two_dense_def table_dense_def)
qed

lemma loaded_verdict:
  assumes "build_path_dfa two_libs (st_matches (uid_match uid)) [] = Inr (arena, dfa)" "length arena \<le> ARENA_SIZE"
    and "bg_dfa g = dfa" "arena_mem g = load_arena arena mem"
  shows "fst (verdict g (ex_task u)) = (if uid = 0 \<or> uid = u then 1 else -1)"
proof -
  obtain pat where pats: "path_loop_set two_libs 0 (ms_matches (st_matches (uid_match uid))) ([], []) = ([pat], [0])"
    by (rule two_libs_patterns)
  have enc: "encode_dfa two_libs [pat] [] [0] (st_matches (uid_match uid)) = Inr (arena, dfa)"
    using assms(1) by (simp add: build_path_dfa_def pats)
  have d: "l_build_many two_libs True DFA_MAX_SIZE [pat] = Inr (two_dense [0] [0])"
    by (simp add: two_libs_def)
  have path: "full_path [[98], [SLASH]] \<noteq> []" by (simp add: full_path_def SLASH_def)
  show ?thesis
    using verdict_single [OF enc two_libs_align d two_dense_wf assms(2) _ _ _ two_one_pattern, of "[[98], [SLASH]]" 2 mem u] path
    by (simp add: verdict_def assms(3,4) ex_task_def two_sel two_dense_final walkable_def NAME_MAX_def PATH_MAX_def
        two_pattern pat_match_def uid_match_def ex_path_def match_default_def uid_applies_def)
qed

section \<open>The cache in a history\<close>

text \<open>
  C10: the cache is not observable, in any interleaving of new sockets and iterations with the steps of
  the loads, whatever the LRU map drops, under two conditions: the tasks keep executable and user, and no
  hook runs in the window of a load of a new generation, after the cache has been emptied and before the
  last assignment.  The outcomes are those of the program that judges each task anew, and the same
  globals are left apart from the cache.  (\<open>Hooks_Stale\<close> shows what happens when either condition fails;
  the loader does nothing to ensure the second.)
\<close>

theorem cache_transparent:
  assumes "bg_cache g = (\<lambda>i. None)" and "list_all (load_event_in procs) es"
    and "undisturbed alloc (needs_mark alloc keep) es (pc, conf, g)"
  shows "map_option (\<lambda>(s, outs). (load_core s, outs)) (hook_run alloc (needs_mark alloc keep) es (pc, conf, g)) =
    hook_run alloc (judge_uncached alloc) es (pc, conf, g)"
  using cached.run_ok [of procs "(pc, conf, g)" es alloc keep] coherent_empty [OF assms(1)] assms
  by (simp add: load_inv_def load_core_def core_empty [OF assms(1)])

text \<open>
  A first load with a socket of a task before the program of the load has run, two after it, the second
  judged from the cache, and one of another family.
\<close>

abbreviation ex_load :: "BpfConfig \<Rightarrow> load_event list" where
  "ex_load conf \<equiv> [Ld_begin conf, Ld_step, Ld_hook (Ev_socket 2 (ex_task 7)), Ld_step, Ld_step, Ld_step, Ld_step, Ld_step]"

abbreviation ex_sockets :: "load_event list" where
  "ex_sockets \<equiv> map Ld_hook [Ev_socket 2 (ex_task 7), Ev_socket 2 (ex_task 7), Ev_socket 1 (ex_task 7)]"

theorem cache_transparent_witness:
  "\<exists>conf. map_option snd (hook_run (\<lambda>n. True) (needs_mark (\<lambda>n. True) (\<lambda>c k i. True)) (ex_load conf @ ex_sockets)
      (Load_done, conf, bpf_globals_zero)) = Some [Out_mark None, Out_mark (Some 5), Out_mark (Some 5), Out_mark None]"
proof -
  obtain arena dfa where b: "build_path_dfa two_libs (st_matches (uid_match 7)) [] = Inr (arena, dfa)" "arena \<noteq> []"
    "length arena \<le> ARENA_SIZE"
    by (rule two_libs_build)
  define conf where "conf = \<lparr>bf_enable = True, bf_enable_dns = False, bf_mark = 5, bf_arena_buf = arena, bf_has_dfa = True,
    bf_dfa = dfa, bf_generation = 1\<rparr>"
  define g where "g = bpf_globals_zero\<lparr>bg_config := conf, bg_has_dfa := True, bg_dfa := dfa, bg_base := True,
    bg_pages := arena_npages arena, bg_mem := load_arena arena (\<lambda>a. 0), bg_last_gen := 1\<rparr>"
  have v: "fst (verdict g (ex_task 7)) = 1"
    using loaded_verdict [OF b(1,3), of g "\<lambda>a. 0"] by (simp add: g_def arena_mem_def)
  have g: "walk_arena (\<lambda>n. True) (ex_task 7) g = g" "bf_enable (bg_config g)" "bf_mark (bg_config g) = 5" "bg_has_dfa g"
    by (simp_all add: g_def conf_def)
  have first: "hook_step judge (Ev_socket 2 (ex_task 7)) (bpf_globals_zero\<lparr>bg_config := conf\<rparr>) =
      (bpf_globals_zero\<lparr>bg_config := conf\<rparr>, Out_mark None)" for judge
    by (simp add: socket_create_with_def bpf_globals_zero_def)
  have load: "hook_run (\<lambda>n. True) judge (ex_load conf) (Load_done, conf, bpf_globals_zero) = Some ((Load_done, conf, g), [Out_mark None])"
    "undisturbed (\<lambda>n. True) judge (ex_load conf) (Load_done, conf, bpf_globals_zero)" for judge
    using b(2,3) first by (simp_all del: hook_step.simps add: g_def reload_config_def)
      (simp_all add: bpf_globals_zero_def conf_def)
  have empty: "bg_cache bpf_globals_zero = (\<lambda>i. None)" by (simp add: bpf_globals_zero_def)
  have procs: "list_all (load_event_in (\<lambda>i. ex_task 7)) (ex_load conf @ ex_sockets)" by simp
  have free: "undisturbed (\<lambda>n. True) (needs_mark (\<lambda>n. True) (\<lambda>c k i. True)) (ex_load conf @ ex_sockets) (Load_done, conf, bpf_globals_zero)"
    by (simp only: undisturbed_append load undisturbed_hooks option.case prod.case simp_thms)
  have "hook_run (\<lambda>n. True) (judge_uncached (\<lambda>n. True)) ex_sockets (Load_done, conf, g) =
      Some ((Load_done, conf, g), [Out_mark (Some 5), Out_mark (Some 5), Out_mark None])"
    using v g by (auto simp: socket_create_with_def judge_uncached_def verdict_def is_inet_def AF_INET6_def Let_def split: prod.splits)
  then have "map_option snd (hook_run (\<lambda>n. True) (judge_uncached (\<lambda>n. True)) (ex_load conf @ ex_sockets) (Load_done, conf, bpf_globals_zero)) =
      Some [Out_mark None, Out_mark (Some 5), Out_mark (Some 5), Out_mark None]"
    unfolding hook_run_append load by simp
  then show ?thesis
    unfolding cache_transparent [OF empty procs free, symmetric]
    by (intro exI [of _ conf]) (simp only: option.map_comp o_def case_prod_beta snd_conv)
qed

end
