(* ===== verification/Daemon.thy ===== *)
theory Daemon
  imports Hooks
begin

text \<open>
  \<^verbatim>\<open>rebpf/main.rs\<close>: the user the daemon runs as, the state files it starts from and keeps
  writing, the exchange with the helper that keeps its privileges, a whole round of a reload,
  how a run starts and what it takes down when it ends.  \<^verbatim>\<open>serde_json\<close>, the user database and the
  file system are parameters.
\<close>

section \<open>Watch channels\<close>

text \<open>
  \<^verbatim>\<open>Watch\<close> of \<^verbatim>\<open>lib.rs\<close>: a value and the number of times it was sent.  A receiver keeps the
  number it has seen.
\<close>

record 'a watch =
  w_value :: 'a
  w_version :: nat

definition watch_new :: "'a \<Rightarrow> 'a watch" where
  "watch_new v = \<lparr>w_value = v, w_version = 0\<rparr>"

definition watch_send :: "'a \<Rightarrow> 'a watch \<Rightarrow> 'a watch" where
  "watch_send v w = w\<lparr>w_value := v, w_version := Suc (w_version w)\<rparr>"

definition watch_send_if_changed :: "'a \<Rightarrow> 'a watch \<Rightarrow> 'a watch" where
  "watch_send_if_changed v w = (if w_value w \<noteq> v then watch_send v w else w)"

section \<open>Start-up\<close>

record CliArgs =
  ca_enable :: bool
  ca_disable :: bool
  ca_state_dir :: "string option"
  ca_verbose :: bool
  ca_dbus_user :: "string option"

record passwd =
  pw_uid :: u32
  pw_gid :: u32

text \<open>\<open>getpwnam\<close> looks a user up; \<open>own\<close> is \<^verbatim>\<open>(getuid(), getgid())\<close>.\<close>

definition daemon_user :: "(string \<Rightarrow> passwd option) \<Rightarrow> u32 \<times> u32 \<Rightarrow> CliArgs \<Rightarrow> (u32 \<times> u32) result" where
  "daemon_user getpwnam own args =
    (case ca_dbus_user args of
       None \<Rightarrow> Inr own
     | Some name \<Rightarrow>
       if list_all is_digit name then
         rbind (ok_or (ParseFailed name) (parse_u32 name)) (\<lambda>uid. Inr (uid, uid))
       else
         (case getpwnam name of None \<Rightarrow> Inl (Msg ''Can't get user'') | Some pw \<Rightarrow> Inr (pw_uid pw, pw_uid pw)))"

text \<open>The switches of the command line, on the state that was loaded.\<close>

definition apply_args :: "CliArgs \<Rightarrow> State watch \<Rightarrow> State watch result" where
  "apply_args args w =
    (if ca_enable args \<and> ca_disable args then Inl (Msg ''Can't simultaneously set --enable and --disable'')
     else if (ca_enable args \<or> ca_disable args) \<and> st_enable (w_value w) \<noteq> ca_enable args
     then Inr (watch_send ((w_value w)\<lparr>st_enable := ca_enable args\<rparr>) w)
     else Inr w)"

definition bpf_ctx_new :: "nat \<Rightarrow> BpfCtx" where
  "bpf_ctx_new now = \<lparr>bc_mark = None, bc_matches_time = now, bc_matches = [], bc_last_gen = 0, bc_arena = []\<rparr>"

text \<open>\<open>uname\<close> as system name and release; whether the daemon warns.\<close>

definition split_dot :: "string \<Rightarrow> string" where
  "split_dot ver = (if CHR ''.'' \<in> set ver then takeWhile (\<lambda>c. c \<noteq> CHR ''.'') ver else '''')"

definition check_kernel_version :: "(string \<Rightarrow> string) \<Rightarrow> (string \<times> string) result \<Rightarrow> bool result" where
  "check_kernel_version ascii_lower uts =
    rbind uts (\<lambda>(os, ver).
    rbind (ok_or (ParseFailed ver) (parse_u32 (split_dot ver))) (\<lambda>major.
    Inr (ascii_lower os \<noteq> ''linux'' \<or> major < 7)))"

section \<open>State files\<close>

record serde =
  sd_utf8 :: "u8 list \<Rightarrow> string option"
  sd_from_str :: "string \<Rightarrow> string + State"
  sd_to_vec :: "State \<Rightarrow> u8 list"

text \<open>The slots by their contents; \<open>fi_seen\<close> belongs to the receiver \<^verbatim>\<open>rx\<close>.\<close>

record Files =
  fi_seen :: nat
  fi_files :: "u8 list list"
  fi_last_i :: nat

text \<open>One file that cannot be opened and none is used.\<close>

fun open_slots :: "(nat \<Rightarrow> u8 list option) \<Rightarrow> nat list \<Rightarrow> u8 list list \<Rightarrow> u8 list list" where
  "open_slots fs [] files = files"
| "open_slots fs (i # is) files =
    (case fs i of Some c \<Rightarrow> open_slots fs is (files @ [c]) | None \<Rightarrow> [])"

definition load_slot ::
  "serde \<Rightarrow> State watch \<times> nat \<times> u64 \<Rightarrow> nat \<times> u8 list \<Rightarrow> (State watch \<times> nat \<times> u64) result" where
  "load_slot sd acc slot =
    (let (state, last_i, last_gen) = acc; (i, c) = slot
     in rbind (ok_or (Msg ''stream did not contain valid UTF-8'') (sd_utf8 sd c)) (\<lambda>buf.
        case sd_from_str sd buf of
          Inl e \<Rightarrow> Inr acc
        | Inr next \<Rightarrow>
            if last_gen \<le> st_generation next
            then Inr (watch_send (next\<lparr>st_matches := matches_update (st_matches next)\<rparr>) state, i, st_generation next)
            else Inr acc))"

definition load_state :: "serde \<Rightarrow> (nat \<Rightarrow> u8 list option) \<Rightarrow> (State watch \<times> Files option) result" where
  "load_state sd fs =
    (let files = open_slots fs [0..<2] []; state = watch_new state_default
     in if files = [] then Inr (state, None)
        else rbind (rfoldl (load_slot sd) (state, 0, 0) (enumerate 0 files)) (\<lambda>(state, last_i, last_gen).
             Inr (state, Some \<lparr>fi_seen = w_version state, fi_files = files, fi_last_i = last_i\<rparr>)))"

text \<open>The task that saves: its files and the generation it counts.\<close>

record saver =
  sa_files :: Files
  sa_generation :: u64

definition save_begin :: "State watch \<Rightarrow> Files \<Rightarrow> saver" where
  "save_begin w f = \<lparr>sa_files = f, sa_generation = st_generation (w_value w)\<rparr>"

text \<open>A write at the start of a file that ends after \<open>n\<close> bytes.\<close>

definition write_at :: "nat \<Rightarrow> u8 list \<Rightarrow> u8 list \<Rightarrow> u8 list" where
  "write_at n buf old = take n buf @ drop n old"

text \<open>
  One round of the loop of \<^verbatim>\<open>save_state\<close> after \<^verbatim>\<open>changed()\<close>.  \<open>torn\<close> is the number of bytes
  after which seeking, writing or flushing fails, if it does; \<open>trunc\<close> whether
  \<^verbatim>\<open>ftruncate\<close>, whose result is ignored, works.
\<close>

definition save_round :: "serde \<Rightarrow> nat option \<Rightarrow> bool \<Rightarrow> State watch \<Rightarrow> saver \<Rightarrow> saver \<times> unit result" where
  "save_round sd torn trunc w sa =
    (let files = (sa_files sa)\<lparr>fi_seen := w_version w\<rparr>; generation = sa_generation sa + 1;
         buf = sd_to_vec sd ((w_value w)\<lparr>st_generation := generation\<rparr>); i = fi_last_i files
     in case idx (fi_files files) i of
          Inl e \<Rightarrow> (\<lparr>sa_files = files, sa_generation = generation\<rparr>, Inl e)
        | Inr old \<Rightarrow>
          (case torn of
             Some n \<Rightarrow>
               (\<lparr>sa_files = files\<lparr>fi_files := (fi_files files)[i := write_at (min n (length buf)) buf old]\<rparr>,
                 sa_generation = generation\<rparr>, Inl (Msg ''write failed''))
           | None \<Rightarrow>
               let new = (if trunc then buf else write_at (length buf) buf old)
               in (\<lparr>sa_files = files\<lparr>fi_files := (fi_files files)[i := new],
                      fi_last_i := (i + 1) mod length (fi_files files)\<rparr>,
                    sa_generation = generation\<rparr>, Inr ())))"

section \<open>The helper process\<close>

text \<open>
  The process that keeps its privileges: a turn of its loop reads a mark, re-marks the sockets with
  it and answers four bytes.  \<open>read_exact4\<close> is \<^verbatim>\<open>read_exact\<close> on what the other end wrote.
\<close>

definition read_exact4 :: "u8 list \<Rightarrow> u32 result" where
  "read_exact4 buf =
    (case buf of [a, b, c, d] \<Rightarrow> Inr (from_ne_bytes a b c d) | _ \<Rightarrow> Inl (Msg ''failed to fill whole buffer''))"

definition helper_turn :: "u8 list \<Rightarrow> (u32 \<times> u8 list) result" where
  "helper_turn buf = rbind (read_exact4 buf) (\<lambda>mark. Inr (mark, to_ne_bytes 0))"

text \<open>The exchange of a reload with the helper; the mark that the sockets have afterwards.\<close>

definition refresh_exchange :: "u32 \<Rightarrow> u32 result" where
  "refresh_exchange new_mark =
    rbind (helper_turn (to_ne_bytes new_mark)) (\<lambda>(mark, reply). rbind (read_exact4 reply) (\<lambda>_. Inr mark))"

section \<open>A whole reload\<close>

text \<open>
  What a round of \<^verbatim>\<open>watch_reload\<close> leaves beside the requests: the context, the globals of the
  eBPF program, the mark of the sockets, the channels \<^verbatim>\<open>attached\<close> and \<^verbatim>\<open>blocker\<close>, and the signals sent.
\<close>

record reload_world =
  rw_ctx :: BpfCtx
  rw_bpf :: bpf_globals
  rw_sockets :: u32
  rw_attached :: "bool watch"
  rw_blocker :: "string watch"
  rw_signals :: nat

text \<open>\<open>iface\<close> is the lookup of the service's interface, whose error ends the task; a failed signal does not.\<close>

definition reload_publish :: "unit result \<Rightarrow> string \<Rightarrow> reload_world \<Rightarrow> reload_world \<times> unit result" where
  "reload_publish iface blocker w =
    (let w = w\<lparr>rw_attached := watch_send True (rw_attached w), rw_blocker := watch_send blocker (rw_blocker w)\<rparr>
     in case iface of Inl e \<Rightarrow> (w, Inl e) | Inr _ \<Rightarrow> (w\<lparr>rw_signals := Suc (rw_signals w)\<rparr>, Inr ()))"

text \<open>\<open>None\<close> is a loop over the DNAT rule that does not end, or the loader aborting the process.\<close>

definition watch_reload_round ::
  "kernel \<Rightarrow> nl_lib \<Rightarrow> libs \<Rightarrow> (u32 \<Rightarrow> bool) \<Rightarrow> unit result \<Rightarrow> State \<Rightarrow> Route option \<Rightarrow> u32 \<Rightarrow> reload_world \<Rightarrow> nl_request list
    \<Rightarrow> (nl_request list \<times> reload_world \<times> unit result) option" where
  "watch_reload_round k nb lib alloc iface conf routes new_mark w log =
    (case watch_reload_step k nb lib conf routes new_mark (rw_ctx w) log of
       None \<Rightarrow> None
     | Some (log, ctx, Inl e) \<Rightarrow> Some (log, w\<lparr>rw_ctx := ctx\<rparr>, Inl e)
     | Some (log, ctx, Inr (bpf, blocker)) \<Rightarrow>
       (case load_config alloc bpf (rw_bpf w) of
          None \<Rightarrow> None
        | Some g \<Rightarrow>
          let w = w\<lparr>rw_ctx := ctx, rw_bpf := g\<rparr>
          in case refresh_exchange new_mark of
               Inl e \<Rightarrow> Some (log, w, Inl e)
             | Inr mark \<Rightarrow>
               (case reload_publish iface blocker (w\<lparr>rw_sockets := mark\<rparr>) of (w, r) \<Rightarrow> Some (log, w, r))))"

section \<open>Connecting to the bus\<close>

text \<open>
  \<open>connect\<close> opens a socket, by its path or its abstract name; a daemon without a user of its own
  connects before it drops its privileges.
\<close>

datatype bus_transport = Unix_file string | Unix_abstract string | Unix_other | Not_unix

definition root_conn :: "u32 \<Rightarrow> bus_transport result \<Rightarrow> (bus_transport \<Rightarrow> nat result) \<Rightarrow> (nat \<times> u32) option result" where
  "root_conn uid transport connect =
    (if uid = 0 then
       rbind transport (\<lambda>t. case t of
           Unix_file _ \<Rightarrow> rbind (connect t) (\<lambda>sock. Inr (Some (sock, uid)))
         | Unix_abstract _ \<Rightarrow> rbind (connect t) (\<lambda>sock. Inr (Some (sock, uid)))
         | Unix_other \<Rightarrow> Inl (Msg ''Unknown dbus transport'')
         | Not_unix \<Rightarrow> Inl (Msg ''Unknown dbus transport''))
     else Inr None)"

text \<open>
  \<^verbatim>\<open>run\<close> up to its tasks: the results of connecting, of serving the object and of taking the name,
  in between the switches of the command line, at last the static rules.
\<close>

definition run_start ::
  "kernel \<Rightarrow> u32 \<Rightarrow> CliArgs \<Rightarrow> unit result \<Rightarrow> unit result \<Rightarrow> unit result \<Rightarrow> State watch \<Rightarrow> nl_request list
    \<Rightarrow> nl_request list \<times> State watch result" where
  "run_start k dns_table args conn serve name w log =
    (case rbind conn (\<lambda>_. rbind (apply_args args w) (\<lambda>w. rbind serve (\<lambda>_. rbind name (\<lambda>_. Inr w)))) of
       Inl e \<Rightarrow> (log, Inl e)
     | Inr w \<Rightarrow>
       (case setup_static_rules k dns_table log of
          (log, Inl e) \<Rightarrow> (log, Inl e)
        | (log, Inr _) \<Rightarrow> (log, Inr w)))"

text \<open>The tasks of \<^verbatim>\<open>run\<close>, each ended by its result; only a signal ends with success.\<close>

datatype ended = SignalReceived | TaskEnded error

definition run_result :: "ended \<Rightarrow> unit result" where
  "run_result t = (case t of SignalReceived \<Rightarrow> Inr () | TaskEnded e \<Rightarrow> Inl e)"

definition exit_code :: "unit result \<Rightarrow> nat" where
  "exit_code r = (case r of Inl _ \<Rightarrow> 1 | Inr _ \<Rightarrow> 0)"

section \<open>The end\<close>

text \<open>What \<^verbatim>\<open>run\<close> takes down after the first task has ended.\<close>

definition shutdown :: "kernel \<Rightarrow> u32 \<Rightarrow> BpfCtx \<Rightarrow> unit oio" where
  "shutdown k dns_table ctx =
    oio_bind (case bc_mark ctx of
        None \<Rightarrow> oio_of (io_ret (Inr ()))
      | Some mark \<Rightarrow> oio_try (clear_rules k mark)) (\<lambda>_.
    oio_bind (oio_try (oio_of (clear_static_rules k dns_table))) (\<lambda>_. oio_of (io_ret ())))"

section \<open>Laws\<close>

text \<open>The helper marks the sockets with the mark of the reload.\<close>

lemma refresh_exchange_mark [simp]: "refresh_exchange m = Inr m"
proof -
  obtain a b c d where b: "to_ne_bytes m = [a, b, c, d]"
    by (simp add: to_ne_bytes_def)
  then have "from_ne_bytes a b c d = m"
    using from_to_ne_bytes [of m] by simp
  with b show ?thesis
    by (simp add: refresh_exchange_def helper_turn_def read_exact4_def to_ne_bytes_def [of 0])
qed

text \<open>A round that ends well: the step before the exchange, the loader, then the channels.\<close>

lemma watch_reload_round_ok:
  assumes "watch_reload_round k nb lib alloc iface conf routes new_mark w log = Some (log', w', Inr ())"
  obtains ctx bpf g b where
    "watch_reload_step k nb lib conf routes new_mark (rw_ctx w) log = Some (log', ctx, Inr (bpf, b))"
    and "load_config alloc bpf (rw_bpf w) = Some g"
    and "w' = w\<lparr>rw_ctx := ctx, rw_bpf := g, rw_sockets := new_mark, rw_attached := watch_send True (rw_attached w),
      rw_blocker := watch_send b (rw_blocker w), rw_signals := Suc (rw_signals w)\<rparr>"
  using assms by (auto simp: watch_reload_round_def reload_publish_def Let_def split: option.splits prod.splits sum.splits)

lemma reload_rules_ok:
  assumes "reload_rules k nb lib conf routes new_mark log = Some (log', Inr (enable, b))"
  shows "enable = fst (reload_blocker conf routes)
    \<and> b = snd (reload_blocker conf routes) @
        (if \<not> enable \<and> snd (reload_blocker conf routes) \<noteq> '''' \<and> c_drop_egress_without_output (st_config conf)
         then '' (dropping traffic)'' else '''')"
  using assms by (auto simp: reload_rules_def oio_bind_def oio_of_def io_ret_def
      split: prod.splits option.splits sum.splits if_splits)

lemma watch_reload_step_ok:
  assumes "watch_reload_step k nb lib conf routes new_mark ctx log = Some (log', ctx', Inr (bpf, b))"
  obtains enable log1 where "reload_rules k nb lib conf routes new_mark log1 = Some (log', Inr (enable, b))"
    and "bpf_reload lib (ctx\<lparr>bc_mark := Some new_mark\<rparr>) conf enable new_mark = Inr (ctx', bpf)"
  using assms by (auto simp: watch_reload_step_def Let_def split: option.splits sum.splits prod.splits)

lemma bpf_reload_ok:
  assumes "bpf_reload lib ctx conf enable mark = Inr (ctx', bpf)"
  shows "bc_mark ctx' = bc_mark ctx \<and> bf_mark bpf = mark \<and> bf_enable bpf = enable
    \<and> bf_enable_dns bpf = (enable \<and> 0 < sint (ms_dns_count (st_matches conf)))"
  using assms by (auto simp: bpf_reload_def Let_def split: if_splits sum.splits error.splits)

end
