(* ===== verification/Dns.thy ===== *)
theory Dns
  imports Netlink
begin

text \<open>
  \<^verbatim>\<open>rebpf/dns.rs\<close>: the addresses that observed DNS answers gave for the names of DNS
  matches, each with a route of its own until it expires.  A heap orders the records by
  expiry, a hash map holds the newest expiry of each.  An \<^verbatim>\<open>Instant\<close> is a number of
  nanoseconds.
\<close>

section \<open>Names and messages\<close>

text \<open>
  A \<^verbatim>\<open>hickory_proto\<close> name is opaque: \<open>nm_key\<close> stands for the crate's equality and hash (two
  names are equal when their keys are), \<open>nm_show\<close> for \<^verbatim>\<open>to_string\<close>, \<open>nm_fqdn\<close> for
  \<^verbatim>\<open>set_fqdn(true)\<close>, \<open>nm_parse\<close> for \<^verbatim>\<open>from_str_relaxed\<close>, \<open>nm_message\<close> for the decoder.
\<close>

type_synonym name = string

record dns_answer =
  an_name :: name
  an_ttl :: u32
  an_a :: "ipv4 option"

record dns_message =
  dm_queries :: nat
  dm_answers :: "dns_answer list"
  dm_response :: bool
  dm_no_error :: bool

record names =
  nm_key :: "name \<Rightarrow> string"
  nm_show :: "name \<Rightarrow> string"
  nm_fqdn :: "name \<Rightarrow> name"
  nm_parse :: "string \<Rightarrow> string + name"
  nm_message :: "u8 list \<Rightarrow> string + dns_message"

section \<open>State\<close>

record DnsRecord =
  rec_ttl_expire :: nat
  rec_dest :: ipv4
  rec_name :: name

text \<open>
  The order of \<^verbatim>\<open>DnsRecord\<close> reverses the order of the expiries, so the maximum of the
  \<^verbatim>\<open>BinaryHeap\<close> is a record that expires first.  The heap is the list of its records;
  among equal ones the first is taken.
\<close>

definition dns_record_cmp_le :: "DnsRecord \<Rightarrow> DnsRecord \<Rightarrow> bool" where
  "dns_record_cmp_le a b \<longleftrightarrow> rec_ttl_expire b \<le> rec_ttl_expire a"

fun heap_peek :: "DnsRecord list \<Rightarrow> DnsRecord option" where
  "heap_peek [] = None"
| "heap_peek (r # rs) =
    (case heap_peek rs of None \<Rightarrow> Some r | Some s \<Rightarrow> if dns_record_cmp_le s r then Some r else Some s)"

definition heap_pop :: "DnsRecord list \<Rightarrow> (DnsRecord \<times> DnsRecord list) option" where
  "heap_pop h = map_option (\<lambda>r. (r, remove1 r h)) (heap_peek h)"

definition heap_push :: "DnsRecord \<Rightarrow> DnsRecord list \<Rightarrow> DnsRecord list" where
  "heap_push r h = h @ [r]"

text \<open>The hash map keeps, with each key, the name it was inserted with.\<close>

type_synonym dns_hash = "string \<times> ipv4 \<rightharpoonup> name \<times> nat"

record DnsState =
  dn_ttl_sleeper :: "nat option"
  dn_heap :: "DnsRecord list"
  dn_hash :: dns_hash
  dn_cache :: DnsCache

definition rec_key :: "names \<Rightarrow> DnsRecord \<Rightarrow> string \<times> ipv4" where
  "rec_key nm r = (nm_key nm (rec_name r), rec_dest r)"

text \<open>\<^verbatim>\<open>HashMap::insert\<close> keeps the old key and replaces the value.\<close>

definition hash_insert :: "names \<Rightarrow> name \<Rightarrow> ipv4 \<Rightarrow> nat \<Rightarrow> dns_hash \<Rightarrow> dns_hash" where
  "hash_insert nm n d t hash =
    (let key = (nm_key nm n, d)
     in hash(key \<mapsto> (case hash key of None \<Rightarrow> (n, t) | Some (n', _) \<Rightarrow> (n', t))))"

section \<open>Routes of a record\<close>

definition del_record_req :: "u32 \<Rightarrow> DnsRecord \<Rightarrow> nl_request" where
  "del_record_req table r = ReqDelRoute (route_default\<lparr>q_dst_len := 32, q_type := RTN_UNICAST,
     q_dst := Some (V4 (rec_dest r)), q_table := Some table\<rparr>)"

definition remove_record :: "kernel \<Rightarrow> u32 \<Rightarrow> DnsRecord \<Rightarrow> unit io" where
  "remove_record k table r =
    io_bind (io_send k (del_record_req table r)) (\<lambda>_.
    io_bind (io_try (io_recv (kn_ack k))) (\<lambda>_. io_ret ()))"

definition add_record_req :: "u32 \<Rightarrow> Route \<Rightarrow> DnsRecord \<Rightarrow> nl_request" where
  "add_record_req table route r = ReqNewRoute (route_default\<lparr>q_create := True, q_excl := True, q_dst_len := 32,
     q_protocol := RTPROT_BOOT, q_type := RTN_UNICAST, q_dst := Some (V4 (rec_dest r)), q_table := Some table,
     q_oif := Some (r_ifindex route), q_prefsrc := (case r_addrs route of [] \<Rightarrow> None | a # _ \<Rightarrow> Some a),
     q_gateway := r_gateway route\<rparr>)"

text \<open>\<open>redir\<close> and \<open>def\<close> are what \<^verbatim>\<open>routes_changed\<close> and \<^verbatim>\<open>default_route_changed\<close> hold.\<close>

definition setup_record ::
  "kernel \<Rightarrow> u32 \<Rightarrow> Route option \<Rightarrow> Route option \<Rightarrow> DnsRecord \<Rightarrow> Direction \<Rightarrow> unit io" where
  "setup_record k table redir def r dir =
    (case (case dir of Direction_redirect \<Rightarrow> redir | Direction_bypass \<Rightarrow> def) of
       None \<Rightarrow> io_ret ()
     | Some route \<Rightarrow> io_request k (add_record_req table route r))"

section \<open>Expiry\<close>

definition due :: "nat \<Rightarrow> DnsRecord \<Rightarrow> bool" where
  "due now r \<longleftrightarrow> rec_ttl_expire r \<le> now"

text \<open>The new expiry of a popped record, where the map has one in the future.\<close>

definition renewal :: "nat \<Rightarrow> (name \<times> nat) option \<Rightarrow> nat option" where
  "renewal now expires =
    (case expires of Some (_, t) \<Rightarrow> if now < t then Some t else None | None \<Rightarrow> None)"

section \<open>The heap as a priority queue\<close>

text \<open>What the code relies on of \<^verbatim>\<open>BinaryHeap\<close>, on the bag of its elements.\<close>

locale expiry_queue =
  fixes peek :: "'h \<Rightarrow> 'a option" and pop :: "'h \<Rightarrow> ('a \<times> 'h) option" and push :: "'a \<Rightarrow> 'h \<Rightarrow> 'h"
    and bag :: "'h \<Rightarrow> 'a multiset" and key :: "'a \<Rightarrow> nat"
  assumes peek_None: "peek h = None \<longleftrightarrow> bag h = {#}"
    and peek_min: "peek h = Some r \<Longrightarrow> r \<in># bag h \<and> (\<forall>x \<in># bag h. key r \<le> key x)"
    and pop_peek: "map_option fst (pop h) = peek h"
    and pop_bag: "pop h = Some (r, h') \<Longrightarrow> bag h = add_mset r (bag h')"
    and push_bag: "bag (push r h) = add_mset r (bag h)"
begin

lemma pop_some: "peek h = Some r \<Longrightarrow> \<exists>h'. pop h = Some (r, h')"
  using pop_peek [of h] by auto

lemma pop_top: "pop h = Some (r, h') \<Longrightarrow> peek h = Some r"
  using pop_peek [of h] by simp

lemma none_due: "peek h = Some r \<Longrightarrow> \<not> key r \<le> now \<Longrightarrow> \<forall>x \<in># bag h. \<not> key x \<le> now"
  using peek_min by fastforce

lemma pop_fewer:
  "pop h = Some (r, h') \<Longrightarrow> key r \<le> now \<Longrightarrow>
    size (filter_mset (\<lambda>x. key x \<le> now) (bag h')) < size (filter_mset (\<lambda>x. key x \<le> now) (bag h))"
  by (simp add: pop_bag)

lemma renew_fewer:
  "pop h = Some (r, h') \<Longrightarrow> key r \<le> now \<Longrightarrow> now < key r' \<Longrightarrow>
    size (filter_mset (\<lambda>x. key x \<le> now) (bag (push r' h'))) < size (filter_mset (\<lambda>x. key x \<le> now) (bag h))"
  by (simp add: pop_bag push_bag)

end

lemma heap_peek_None: "heap_peek h = None \<longleftrightarrow> h = []"
  by (cases h) (auto split: option.splits)

lemma heap_peek_min: "heap_peek h = Some r \<Longrightarrow> r \<in> set h \<and> (\<forall>x \<in> set h. rec_ttl_expire r \<le> rec_ttl_expire x)"
proof (induction h arbitrary: r)
  case (Cons a h)
  then show ?case
    by (cases "heap_peek h") (force simp: heap_peek_None dns_record_cmp_le_def split: if_splits)+
qed simp

interpretation hq: expiry_queue heap_peek heap_pop heap_push mset rec_ttl_expire
  by unfold_locales
    (auto simp: heap_peek_None heap_peek_min heap_pop_def heap_push_def option.map_comp o_def option.map_ident
      dest: heap_peek_min)

section \<open>The sweep\<close>

text \<open>The \<^verbatim>\<open>while\<close> loop of \<^verbatim>\<open>watch_dns_ttl\<close>; it ends, since every round leaves fewer records that are due.\<close>

function ttl_sweep ::
  "kernel \<Rightarrow> names \<Rightarrow> u32 \<Rightarrow> nat \<Rightarrow> DnsState \<Rightarrow> nl_request list \<Rightarrow> DnsState \<times> nl_request list \<times> unit result" where
  "ttl_sweep k nm table now dns log =
    (case heap_peek (dn_heap dns) of
       None \<Rightarrow> (dns, log, Inr ())
     | Some first \<Rightarrow>
       if \<not> due now first then (dns, log, Inr ())
       else case heap_pop (dn_heap dns) of
         None \<Rightarrow> (dns, log, Inl Panic)
       | Some (r, heap) \<Rightarrow>
         let hash = (dn_hash dns)(rec_key nm r := None)
         in case renewal now (dn_hash dns (rec_key nm r)) of
              Some t \<Rightarrow>
                ttl_sweep k nm table now
                  (dns\<lparr>dn_heap := heap_push (r\<lparr>rec_ttl_expire := t\<rparr>) heap,
                       dn_hash := hash_insert nm (rec_name r) (rec_dest r) t hash\<rparr>) log
            | None \<Rightarrow>
                (case remove_record k table r log of
                   (log', Inl e) \<Rightarrow> (dns\<lparr>dn_heap := heap, dn_hash := hash\<rparr>, log', Inl e)
                 | (log', Inr _) \<Rightarrow> ttl_sweep k nm table now (dns\<lparr>dn_heap := heap, dn_hash := hash\<rparr>) log'))"
  by pat_completeness auto

termination
proof (relation "measure (\<lambda>(k, nm, table, now, dns, log). size (filter_mset (due now) (mset (dn_heap dns))))", goal_cases)
  case 1
  then show ?case by simp
next
  case (2 k nm table now dns log first p r heap)
  with hq.pop_top [of "dn_heap dns" r heap] hq.pop_fewer [of "dn_heap dns" r heap now] show ?case
    by (auto simp: due_def [abs_def])
next
  case (3 k nm table now dns log first p r heap hash t)
  then have "now < t" by (auto simp: renewal_def split: option.splits if_splits)
  with 3 hq.pop_top [of "dn_heap dns" r heap] hq.renew_fewer [of "dn_heap dns" r heap now "r\<lparr>rec_ttl_expire := t\<rparr>"]
  show ?case by (auto simp: due_def [abs_def])
qed

declare ttl_sweep.simps [simp del]

text \<open>
  One round of \<^verbatim>\<open>watch_dns_ttl\<close>: nothing while the channel is empty or has changed during
  the wait; otherwise, at \<open>now\<close>, the sweep and the next wake-up.
\<close>

definition watch_dns_ttl_step ::
  "kernel \<Rightarrow> names \<Rightarrow> u32 \<Rightarrow> nat \<Rightarrow> bool \<Rightarrow> DnsState \<Rightarrow> nl_request list \<Rightarrow> DnsState \<times> nl_request list \<times> unit result" where
  "watch_dns_ttl_step k nm table now changed dns log =
    (case dn_ttl_sleeper dns of
       None \<Rightarrow> (dns, log, Inr ())
     | Some next \<Rightarrow>
       if changed then (dns, log, Inr ())
       else case ttl_sweep k nm table now dns log of
          (dns, log, Inl e) \<Rightarrow> (dns, log, Inl e)
        | (dns, log, Inr _) \<Rightarrow>
            (dns\<lparr>dn_ttl_sleeper := map_option rec_ttl_expire (heap_peek (dn_heap dns))\<rparr>, log, Inr ()))"

section \<open>Removal on request\<close>

definition record_selected :: "names \<Rightarrow> name option \<Rightarrow> ipv4 option \<Rightarrow> DnsRecord \<Rightarrow> bool" where
  "record_selected nm name dest r \<longleftrightarrow>
    (case name of None \<Rightarrow> True | Some n \<Rightarrow> nm_key nm (rec_name r) = nm_key nm n) \<and>
    (case dest of None \<Rightarrow> True | Some d \<Rightarrow> rec_dest r = d)"

text \<open>\<^verbatim>\<open>heap.retain\<close> with the closure of \<^verbatim>\<open>remove_records\<close>.\<close>

fun retain_records ::
  "kernel \<Rightarrow> names \<Rightarrow> u32 \<Rightarrow> name option \<Rightarrow> ipv4 option \<Rightarrow> DnsRecord list \<Rightarrow> dns_hash \<Rightarrow> nl_request list
    \<Rightarrow> DnsRecord list \<times> dns_hash \<times> bool \<times> nl_request list" where
  "retain_records k nm table name dest [] hash log = ([], hash, False, log)"
| "retain_records k nm table name dest (r # rs) hash log =
    (if record_selected nm name dest r then
       (case retain_records k nm table name dest rs (hash(rec_key nm r := None)) (fst (remove_record k table r log)) of
          (heap, hash, found, log) \<Rightarrow> (heap, hash, True, log))
     else
       (case retain_records k nm table name dest rs hash log of
          (heap, hash, found, log) \<Rightarrow> (r # heap, hash, found, log)))"

definition remove_records ::
  "kernel \<Rightarrow> names \<Rightarrow> u32 \<Rightarrow> name option \<Rightarrow> ipv4 option \<Rightarrow> DnsState \<Rightarrow> nl_request list
    \<Rightarrow> DnsState \<times> nl_request list \<times> bool" where
  "remove_records k nm table name dest dns log =
    (case retain_records k nm table name dest (dn_heap dns) (dn_hash dns) log of
       (heap, hash, found, log) \<Rightarrow> (dns\<lparr>dn_heap := heap, dn_hash := hash\<rparr>, log, found))"

section \<open>New answers\<close>

definition NANOS :: nat where "NANOS = 1000000000"

text \<open>One answer of the loop of \<^verbatim>\<open>parse\<close>; \<open>Inl\<close> only for the panic of an index in the cache.\<close>

definition parse_answer ::
  "kernel \<Rightarrow> names \<Rightarrow> u32 \<Rightarrow> Route option \<Rightarrow> Route option \<Rightarrow> nat \<Rightarrow> u32 \<Rightarrow> DnsState \<times> nl_request list \<Rightarrow> dns_answer
    \<Rightarrow> (DnsState \<times> nl_request list) result" where
  "parse_answer k nm table redir def now max_ttl st ans =
    (case an_a ans of
       None \<Rightarrow> Inr st
     | Some dest \<Rightarrow>
       let dns = fst st; log = snd st; name = nm_fqdn nm (an_name ans)
       in rbind (dns_cache_get (dn_cache dns) (nm_show nm name)) (\<lambda>hit.
          case hit of None \<Rightarrow> Inr st
          | Some (dir, _) \<Rightarrow>
            let ttl_expire = now + unat (min (an_ttl ans) max_ttl) * NANOS;
                rec = \<lparr>rec_ttl_expire = ttl_expire, rec_dest = dest, rec_name = name\<rparr>;
                known = (dn_hash dns (rec_key nm rec) \<noteq> None);
                dns = dns\<lparr>dn_hash := hash_insert nm name dest ttl_expire (dn_hash dns)\<rparr>
            in if known then Inr (dns, log)
               else
                 let heap = heap_push rec (dn_heap dns);
                     dns = dns\<lparr>dn_heap := heap, dn_ttl_sleeper := map_option rec_ttl_expire (heap_peek heap)\<rparr>
                 in Inr (dns, fst (setup_record k table redir def rec dir log))))"

definition dns_parse ::
  "kernel \<Rightarrow> names \<Rightarrow> u32 \<Rightarrow> Route option \<Rightarrow> Route option \<Rightarrow> nat \<Rightarrow> u32 \<Rightarrow> u8 list \<Rightarrow> DnsState \<times> nl_request list
    \<Rightarrow> (DnsState \<times> nl_request list) result" where
  "dns_parse k nm table redir def now max_ttl data st =
    (case nm_message nm data of
       Inl e \<Rightarrow> Inl (Msg e)
     | Inr m \<Rightarrow>
       if dm_queries m = 0 \<and> dm_answers m = [] then Inl (Msg ''Can't parse any queries nor answers'')
       else if \<not> dm_response m then Inl (Msg ''Not a response'')
       else if \<not> dm_no_error m then Inl (Msg ''Has errors'')
       else rfoldl (parse_answer k nm table redir def now max_ttl) st (dm_answers m))"

text \<open>\<^verbatim>\<open>callback\<close>: an error of \<^verbatim>\<open>parse\<close> is logged, the state stays; a panic is passed on.\<close>

definition dns_callback ::
  "kernel \<Rightarrow> names \<Rightarrow> u32 \<Rightarrow> Route option \<Rightarrow> Route option \<Rightarrow> nat \<Rightarrow> u32 \<Rightarrow> u8 list \<Rightarrow> DnsState \<times> nl_request list
    \<Rightarrow> (DnsState \<times> nl_request list) result" where
  "dns_callback k nm table redir def now max_ttl data st =
    (case dns_parse k nm table redir def now max_ttl data st of
       Inl e \<Rightarrow> if e = Panic then Inl Panic else Inr st
     | Inr st' \<Rightarrow> Inr st')"

section \<open>Reconfiguration\<close>

definition cache_has :: "DnsCache \<Rightarrow> string \<Rightarrow> bool result" where
  "cache_has c n = rbind (dns_cache_get c n) (\<lambda>hit. Inr (hit \<noteq> None))"

fun retain_if :: "('a \<Rightarrow> bool result) \<Rightarrow> 'a list \<Rightarrow> 'a list result" where
  "retain_if p [] = Inr []"
| "retain_if p (x # xs) = rbind (p x) (\<lambda>b. rbind (retain_if p xs) (\<lambda>ys. Inr (if b then x # ys else ys)))"

text \<open>
  \<^verbatim>\<open>hash.retain\<close> runs after the records of the heap, whose names are those of the map, have
  been looked up without a panic.
\<close>

definition hash_retain :: "DnsCache \<Rightarrow> names \<Rightarrow> dns_hash \<Rightarrow> dns_hash" where
  "hash_retain c nm hash = (\<lambda>key. case hash key of
     Some (n, t) \<Rightarrow> if cache_has c (nm_show nm n) = Inr True then Some (n, t) else None
   | None \<Rightarrow> None)"

text \<open>The loop over the records: \<^verbatim>\<open>unwrap\<close> panics on a name without a match.\<close>

fun setup_all ::
  "kernel \<Rightarrow> names \<Rightarrow> u32 \<Rightarrow> Route option \<Rightarrow> Route option \<Rightarrow> DnsCache \<Rightarrow> DnsRecord list \<Rightarrow> unit io" where
  "setup_all k nm table redir def c [] = io_ret ()"
| "setup_all k nm table redir def c (r # rs) =
    io_bind (io_lift (dns_cache_get c (nm_show nm (rec_name r)))) (\<lambda>hit.
    case hit of None \<Rightarrow> io_err Panic
    | Some (dir, _) \<Rightarrow>
      io_bind (io_try (setup_record k table redir def r dir)) (\<lambda>_. setup_all k nm table redir def c rs))"

definition watch_dns_routes_step ::
  "kernel \<Rightarrow> libs \<Rightarrow> names \<Rightarrow> u32 \<Rightarrow> State \<Rightarrow> Route option \<Rightarrow> Route option \<Rightarrow> bool \<Rightarrow> DnsState \<Rightarrow> nl_request list
    \<Rightarrow> DnsState \<times> nl_request list \<times> unit result" where
  "watch_dns_routes_step k lib nm table conf redir def update_caches dns log =
    (let dns = (if update_caches then dns\<lparr>dn_cache := dns_cache_update lib (dn_cache dns) (st_matches conf)\<rparr> else dns);
         c = dn_cache dns
     in case retain_if (\<lambda>h. cache_has c (nm_show nm (rec_name h))) (dn_heap dns) of
          Inl e \<Rightarrow> (dns, log, Inl e)
        | Inr heap \<Rightarrow>
          let dns = dns\<lparr>dn_heap := heap, dn_hash := hash_retain c nm (dn_hash dns)\<rparr>
          in case io_bind (clear_table k table) (\<lambda>_.
                    if st_enable conf then setup_all k nm table redir def c heap else io_ret ()) log of
               (log, r) \<Rightarrow> (dns, log, r))"

end
