(* ===== verification/Dns_Correct.thy ===== *)
theory Dns_Correct
  imports Dns Matches_Correct
begin

text \<open>
  Properties of the DNS records: the heap and the hash map hold the same records at all
  times, the sweep removes exactly the expired ones, expiry is bounded by the
  configuration, and reconfiguration keeps only names that still match.
\<close>

section \<open>The invariant\<close>

definition dns_inv :: "names \<Rightarrow> DnsState \<Rightarrow> bool" where
  "dns_inv nm dns \<longleftrightarrow>
    distinct (map (rec_key nm) (dn_heap dns)) \<and> dom (dn_hash dns) = rec_key nm ` set (dn_heap dns) \<and>
    (\<forall>r \<in> set (dn_heap dns). \<exists>t. dn_hash dns (rec_key nm r) = Some (rec_name r, t))"

text \<open>A bag without repetition, by the list it comes from.\<close>

definition uniq :: "'a multiset \<Rightarrow> bool" where
  "uniq M \<longleftrightarrow> (\<forall>x \<in># M. count M x = 1)"

lemma uniq_add [simp]: "uniq (add_mset a M) \<longleftrightarrow> a \<notin># M \<and> uniq M"
  unfolding uniq_def by (auto simp: count_eq_zero_iff)

lemma uniq_empty [simp]: "uniq {#}"
  by (simp add: uniq_def)

lemma distinct_uniq: "distinct xs \<longleftrightarrow> uniq (mset xs)"
  by (induction xs) auto

text \<open>The invariant depends on the bag of records only.\<close>

definition bag_inv :: "names \<Rightarrow> DnsRecord multiset \<Rightarrow> dns_hash \<Rightarrow> bool" where
  "bag_inv nm H hash \<longleftrightarrow>
    uniq (image_mset (rec_key nm) H) \<and> dom hash = rec_key nm ` set_mset H \<and>
    (\<forall>r \<in># H. \<exists>t. hash (rec_key nm r) = Some (rec_name r, t))"

lemma dns_inv_bag: "dns_inv nm dns \<longleftrightarrow> bag_inv nm (mset (dn_heap dns)) (dn_hash dns)"
  by (simp add: dns_inv_def bag_inv_def distinct_uniq)

lemma bag_inv_hash: "bag_inv nm H hash \<Longrightarrow> r \<in># H \<Longrightarrow> \<exists>t. hash (rec_key nm r) = Some (rec_name r, t)"
  unfolding bag_inv_def by blast

lemma bag_inv_remove:
  assumes inv: "bag_inv nm (add_mset r H) hash"
  shows "bag_inv nm H (hash(rec_key nm r := None))" and "rec_key nm r \<notin> rec_key nm ` set_mset H"
proof -
  show new: "rec_key nm r \<notin> rec_key nm ` set_mset H" using inv by (simp add: bag_inv_def)
  then have "dom (hash(rec_key nm r := None)) = rec_key nm ` set_mset H" using inv by (simp add: bag_inv_def)
  moreover have "\<exists>t. (hash(rec_key nm r := None)) (rec_key nm x) = Some (rec_name x, t)" if "x \<in># H" for x
  proof -
    have "rec_key nm x \<noteq> rec_key nm r" using that new by (metis image_eqI)
    with bag_inv_hash [OF inv, of x] that show ?thesis by simp
  qed
  ultimately show "bag_inv nm H (hash(rec_key nm r := None))" using inv by (simp add: bag_inv_def)
qed

lemma bag_inv_add:
  assumes inv: "bag_inv nm H hash" and new: "hash (rec_key nm r) = None"
  shows "bag_inv nm (add_mset r H) (hash_insert nm (rec_name r) (rec_dest r) t hash)"
proof -
  have ins: "hash_insert nm (rec_name r) (rec_dest r) t hash = hash(rec_key nm r \<mapsto> (rec_name r, t))"
    using new by (simp add: hash_insert_def rec_key_def)
  have fresh: "rec_key nm r \<notin> rec_key nm ` set_mset H"
    using inv new unfolding bag_inv_def by (metis domIff)
  have "\<exists>t'. (hash(rec_key nm r \<mapsto> (rec_name r, t))) (rec_key nm x) = Some (rec_name x, t')" if "x \<in># H" for x
  proof -
    have "rec_key nm x \<noteq> rec_key nm r" using that fresh by (metis image_eqI)
    with bag_inv_hash [OF inv that] show ?thesis by simp
  qed
  with inv fresh show ?thesis unfolding bag_inv_def ins by simp
qed

lemma bag_inv_renew:
  assumes inv: "bag_inv nm H hash" and "r \<in># H" and "nm_key nm n = nm_key nm (rec_name r)"
  shows "bag_inv nm H (hash_insert nm n (rec_dest r) t hash)"
proof -
  obtain t0 where t0: "hash (rec_key nm r) = Some (rec_name r, t0)" using bag_inv_hash [OF assms(1,2)] by blast
  have ins: "hash_insert nm n (rec_dest r) t hash = hash(rec_key nm r \<mapsto> (rec_name r, t))"
    using t0 assms(3) by (simp add: hash_insert_def rec_key_def)
  have "\<exists>t'. (hash(rec_key nm r \<mapsto> (rec_name r, t))) (rec_key nm x) = Some (rec_name x, t')" if "x \<in># H" for x
  proof -
    from bag_inv_hash [OF inv that] obtain t1 where "hash (rec_key nm x) = Some (rec_name x, t1)" by blast
    with t0 show ?thesis by (cases "rec_key nm x = rec_key nm r") auto
  qed
  moreover have "rec_key nm r \<in> dom hash" using t0 by blast
  ultimately show ?thesis using inv unfolding ins bag_inv_def by (simp add: insert_absorb)
qed

section \<open>The sweep\<close>

text \<open>What becomes of a record at \<open>now\<close>: it stays, gets its newer expiry, or goes.\<close>

definition survivor :: "names \<Rightarrow> nat \<Rightarrow> dns_hash \<Rightarrow> DnsRecord \<Rightarrow> DnsRecord option" where
  "survivor nm now hash r =
    (if due now r then map_option (\<lambda>t. r\<lparr>rec_ttl_expire := t\<rparr>) (renewal now (hash (rec_key nm r))) else Some r)"

definition survivors :: "names \<Rightarrow> nat \<Rightarrow> dns_hash \<Rightarrow> DnsRecord multiset \<Rightarrow> DnsRecord multiset" where
  "survivors nm now hash H = image_mset the (filter_mset (\<lambda>x. x \<noteq> None) (image_mset (survivor nm now hash) H))"

lemma survivors_cong:
  assumes "\<And>r. r \<in># H \<Longrightarrow> hash' (rec_key nm r) = hash (rec_key nm r)"
  shows "survivors nm now hash' H = survivors nm now hash H"
proof -
  have "image_mset (survivor nm now hash') H = image_mset (survivor nm now hash) H"
    using assms by (intro image_mset_cong) (simp add: survivor_def)
  then show ?thesis by (simp add: survivors_def)
qed

lemma survivors_add [simp]:
  "survivors nm now hash (add_mset r H) =
    (case survivor nm now hash r of None \<Rightarrow> survivors nm now hash H | Some s \<Rightarrow> add_mset s (survivors nm now hash H))"
  by (simp add: survivors_def split: option.split)

lemma survivors_none_due:
  assumes "\<forall>r \<in># H. \<not> due now r"
  shows "survivors nm now hash H = H"
proof -
  have "image_mset (survivor nm now hash) H = image_mset Some H"
    using assms by (intro image_mset_cong) (simp add: survivor_def)
  then show ?thesis by (simp add: survivors_def filter_mset_image_mset multiset.map_comp o_def)
qed

lemma renewal_later: "renewal now x = Some t \<Longrightarrow> now < t"
  by (auto simp: renewal_def split: option.splits if_splits)

text \<open>One round of the loop, on the bag of records.\<close>

lemma ttl_sweep_cases:
  fixes k nm table now dns log
  defines "S \<equiv> ttl_sweep k nm table now"
  obtains
    (stop) "S dns log = (dns, log, Inr ())" "\<forall>x \<in># mset (dn_heap dns). \<not> due now x"
  | (renew) r H t dns' where "mset (dn_heap dns) = add_mset r H" "due now r"
      "renewal now (dn_hash dns (rec_key nm r)) = Some t" "S dns log = S dns' log"
      "mset (dn_heap dns') = add_mset (r\<lparr>rec_ttl_expire := t\<rparr>) H"
      "dn_hash dns' = hash_insert nm (rec_name r) (rec_dest r) t ((dn_hash dns)(rec_key nm r := None))"
  | (drop_ok) r H dns' log' where "mset (dn_heap dns) = add_mset r H" "due now r"
      "renewal now (dn_hash dns (rec_key nm r)) = None" "S dns log = S dns' log'"
      "remove_record k table r log = (log', Inr ())"
      "mset (dn_heap dns') = H" "dn_hash dns' = (dn_hash dns)(rec_key nm r := None)"
  | (drop_err) r H dns' log' e where "mset (dn_heap dns) = add_mset r H" "due now r"
      "S dns log = (dns', log', Inl e)" "mset (dn_heap dns') = H" "dn_hash dns' = (dn_hash dns)(rec_key nm r := None)"
      "remove_record k table r log = (log', Inl e)"
proof (cases "heap_peek (dn_heap dns)")
  case None
  then have "S dns log = (dns, log, Inr ())" by (simp add: S_def ttl_sweep.simps [of k nm table now dns log])
  moreover have "dn_heap dns = []" using None by (simp add: heap_peek_None)
  ultimately show thesis by (intro stop) simp_all
next
  case (Some r)
  show thesis
  proof (cases "due now r")
    case False
    with Some have "S dns log = (dns, log, Inr ())" by (simp add: S_def ttl_sweep.simps [of k nm table now dns log])
    moreover have "\<forall>x \<in># mset (dn_heap dns). \<not> due now x"
      using hq.none_due [OF Some, of now] False by (simp add: due_def)
    ultimately show thesis by (rule stop)
  next
    case True
    obtain h where pop: "heap_pop (dn_heap dns) = Some (r, h)" using hq.pop_some [OF Some] by blast
    have bag: "mset (dn_heap dns) = add_mset r (mset h)" using hq.pop_bag [OF pop] .
    let ?hash = "(dn_hash dns)(rec_key nm r := None)"
    note run = ttl_sweep.simps [of k nm table now dns log, unfolded Some option.case pop Let_def prod.case]
    show thesis
    proof (cases "renewal now (dn_hash dns (rec_key nm r))")
      case (Some t)
      with run True show thesis
        by (intro renew [OF bag True Some, of "dns\<lparr>dn_heap := heap_push (r\<lparr>rec_ttl_expire := t\<rparr>) h,
              dn_hash := hash_insert nm (rec_name r) (rec_dest r) t ?hash\<rparr>"])
          (simp_all add: S_def hq.push_bag)
    next
      case None
      obtain log' x where rem: "remove_record k table r log = (log', x)" by fastforce
      show thesis
      proof (cases x)
        case (Inl e)
        with run True None rem show thesis
          by (intro drop_err [OF bag True, of "dns\<lparr>dn_heap := h, dn_hash := ?hash\<rparr>" log' e]) (simp_all add: S_def)
      next
        case (Inr u)
        with run True None rem show thesis
          by (intro drop_ok [OF bag True None, of "dns\<lparr>dn_heap := h, dn_hash := ?hash\<rparr>" log']) (simp_all add: S_def)
      qed
    qed
  qed
qed

lemma size_due_renewed:
  "due now r \<Longrightarrow> now < t \<Longrightarrow>
    size (filter_mset (due now) (add_mset (r\<lparr>rec_ttl_expire := t\<rparr>) H)) < size (filter_mset (due now) (add_mset r H))"
  by (simp add: due_def)

lemma bag_inv_renewed:
  assumes "bag_inv nm (add_mset r H) hash"
  shows "bag_inv nm (add_mset (r\<lparr>rec_ttl_expire := t\<rparr>) H)
    (hash_insert nm (rec_name r) (rec_dest r) t (hash(rec_key nm r := None)))"
  using bag_inv_add [OF bag_inv_remove(1) [OF assms], of "r\<lparr>rec_ttl_expire := t\<rparr>" t]
  by (simp add: rec_key_def)

lemma ttl_sweep_inv: "dns_inv nm dns \<Longrightarrow> dns_inv nm (fst (ttl_sweep k nm table now dns log))"
proof (induction "size (filter_mset (due now) (mset (dn_heap dns)))" arbitrary: dns log rule: less_induct)
  case less
  show ?case
  proof (cases rule: ttl_sweep_cases [of k nm table now dns log])
    case stop
    with less.prems show ?thesis by simp
  next
    case (renew r H t dns')
    then have "dns_inv nm dns'" using less.prems bag_inv_renewed [of nm r H "dn_hash dns" t] by (simp add: dns_inv_bag)
    with less.hyps [of dns' log] renew size_due_renewed [of now r t H] renewal_later [OF renew(3)] show ?thesis by simp
  next
    case (drop_ok r H dns' log')
    then have "dns_inv nm dns'" using less.prems bag_inv_remove(1) [of nm r H "dn_hash dns"] by (simp add: dns_inv_bag)
    with less.hyps [of dns' log'] drop_ok show ?thesis by simp
  next
    case (drop_err r H dns' log' e)
    then show ?thesis using less.prems bag_inv_remove(1) [of nm r H "dn_hash dns"] by (simp add: dns_inv_bag)
  qed
qed

lemma ttl_sweep_exact:
  assumes "dns_inv nm dns" and "ttl_sweep k nm table now dns log = (dns', log', Inr ())"
  shows "mset (dn_heap dns') = survivors nm now (dn_hash dns) (mset (dn_heap dns))
    \<and> (\<forall>r \<in># mset (dn_heap dns'). \<not> due now r)"
  using assms
proof (induction "size (filter_mset (due now) (mset (dn_heap dns)))" arbitrary: dns log rule: less_induct)
  case less
  show ?case
  proof (cases rule: ttl_sweep_cases [of k nm table now dns log])
    case stop
    with less.prems survivors_none_due show ?thesis by simp
  next
    case (renew r H t dns1)
    have inv: "bag_inv nm (add_mset r H) (dn_hash dns)" using less.prems(1) renew(1) by (simp add: dns_inv_bag)
    then have inv1: "dns_inv nm dns1" using renew(5,6) bag_inv_renewed [of nm r H "dn_hash dns" t] by (simp add: dns_inv_bag)
    have lt: "size (filter_mset (due now) (mset (dn_heap dns1))) < size (filter_mset (due now) (mset (dn_heap dns)))"
      using size_due_renewed [OF renew(2) renewal_later [OF renew(3)], of H] renew(1,5) by simp
    note IH = less.hyps [OF lt inv1 less.prems(2) [unfolded renew(4)]]
    have "survivors nm now (dn_hash dns1) H = survivors nm now (dn_hash dns) H"
    proof (rule survivors_cong)
      fix x assume "x \<in># H"
      then have "rec_key nm x \<noteq> rec_key nm r" using bag_inv_remove(2) [OF inv] by (metis image_eqI)
      then show "dn_hash dns1 (rec_key nm x) = dn_hash dns (rec_key nm x)"
        by (simp add: renew(6) hash_insert_def flip: rec_key_def [of nm r])
    qed
    moreover have "survivor nm now (dn_hash dns1) (r\<lparr>rec_ttl_expire := t\<rparr>) = Some (r\<lparr>rec_ttl_expire := t\<rparr>)"
      using renewal_later [OF renew(3)] by (simp add: survivor_def due_def)
    moreover have "survivor nm now (dn_hash dns) r = Some (r\<lparr>rec_ttl_expire := t\<rparr>)"
      by (simp add: survivor_def renew(2,3))
    ultimately have "survivors nm now (dn_hash dns1) (mset (dn_heap dns1)) = survivors nm now (dn_hash dns) (mset (dn_heap dns))"
      by (simp add: renew(1,5))
    from IH [unfolded this] show ?thesis .
  next
    case (drop_ok r H dns1 log1)
    have inv: "bag_inv nm (add_mset r H) (dn_hash dns)" using less.prems(1) drop_ok(1) by (simp add: dns_inv_bag)
    then have inv1: "dns_inv nm dns1" using drop_ok(6,7) bag_inv_remove(1) by (simp add: dns_inv_bag)
    have lt: "size (filter_mset (due now) (mset (dn_heap dns1))) < size (filter_mset (due now) (mset (dn_heap dns)))"
      using drop_ok(1,2,6) by simp
    note IH = less.hyps [OF lt inv1 less.prems(2) [unfolded drop_ok(4)]]
    have "survivors nm now (dn_hash dns1) H = survivors nm now (dn_hash dns) H"
    proof (rule survivors_cong)
      fix x assume "x \<in># H"
      then have "rec_key nm x \<noteq> rec_key nm r" using bag_inv_remove(2) [OF inv] by (metis image_eqI)
      then show "dn_hash dns1 (rec_key nm x) = dn_hash dns (rec_key nm x)" by (simp add: drop_ok(7))
    qed
    moreover have "survivor nm now (dn_hash dns) r = None" by (simp add: survivor_def drop_ok(2,3))
    ultimately have "survivors nm now (dn_hash dns1) (mset (dn_heap dns1)) = survivors nm now (dn_hash dns) (mset (dn_heap dns))"
      by (simp add: drop_ok(1,6))
    from IH [unfolded this] show ?thesis .
  next
    case (drop_err r H dns1 log1 e)
    with less.prems(2) show ?thesis by simp
  qed
qed

section \<open>The other operations\<close>

lemma retain_records_eq:
  "\<exists>log'. retain_records k nm table name dest rs hash log =
    (filter (\<lambda>r. \<not> record_selected nm name dest r) rs,
     (\<lambda>key. if \<exists>r \<in> set rs. record_selected nm name dest r \<and> rec_key nm r = key then None else hash key),
     (\<exists>r \<in> set rs. record_selected nm name dest r), log')"
proof (induction rs arbitrary: hash log)
  case (Cons r rs)
  show ?case
  proof (cases "record_selected nm name dest r")
    case True
    obtain log' where "retain_records k nm table name dest rs (hash(rec_key nm r := None)) (fst (remove_record k table r log)) =
      (filter (\<lambda>r. \<not> record_selected nm name dest r) rs,
       (\<lambda>key. if \<exists>r \<in> set rs. record_selected nm name dest r \<and> rec_key nm r = key then None
              else (hash(rec_key nm r := None)) key),
       (\<exists>r \<in> set rs. record_selected nm name dest r), log')"
      using Cons.IH by blast
    with True show ?thesis by (auto simp: fun_eq_iff)
  next
    case False
    with Cons.IH [of hash log] show ?thesis by auto
  qed
qed simp

text \<open>Keeping the records that satisfy a predicate, and their entries in the map.\<close>

lemma bag_inv_filter:
  assumes inv: "dns_inv nm dns" and heap: "heap = filter P (dn_heap dns)"
    and keep: "\<And>r. r \<in> set (dn_heap dns) \<Longrightarrow> P r \<Longrightarrow> hash (rec_key nm r) = dn_hash dns (rec_key nm r)"
    and gone: "\<And>r. r \<in> set (dn_heap dns) \<Longrightarrow> \<not> P r \<Longrightarrow> hash (rec_key nm r) = None"
    and sub: "\<And>key. dn_hash dns key = None \<Longrightarrow> hash key = None"
  shows "dns_inv nm (dns\<lparr>dn_heap := heap, dn_hash := hash, dn_cache := c\<rparr>)"
proof -
  have d: "distinct (map (rec_key nm) (dn_heap dns))" and dom: "dom (dn_hash dns) = rec_key nm ` set (dn_heap dns)"
    and st: "\<And>r. r \<in> set (dn_heap dns) \<Longrightarrow> \<exists>t. dn_hash dns (rec_key nm r) = Some (rec_name r, t)"
    using inv by (auto simp: dns_inv_def)
  have "distinct (map (rec_key nm) heap)" unfolding heap by (rule distinct_map_filter [OF d])
  moreover have "dom hash = rec_key nm ` set heap"
  proof (intro set_eqI iffI)
    fix key assume "key \<in> dom hash"
    with sub [of key] have "key \<in> dom (dn_hash dns)" by (cases "dn_hash dns key") (simp_all add: domIff)
    with dom obtain r where "r \<in> set (dn_heap dns)" "key = rec_key nm r" by auto
    moreover from this gone \<open>key \<in> dom hash\<close> have "P r" by (metis domIff)
    ultimately show "key \<in> rec_key nm ` set heap" by (simp add: heap)
  next
    fix key assume "key \<in> rec_key nm ` set heap"
    then obtain r where r: "r \<in> set (dn_heap dns)" "P r" "key = rec_key nm r" by (auto simp: heap)
    with st [OF r(1)] keep [OF r(1,2)] show "key \<in> dom hash" by auto
  qed
  moreover have "\<forall>r \<in> set heap. \<exists>t. hash (rec_key nm r) = Some (rec_name r, t)"
    using st keep by (auto simp: heap)
  ultimately show ?thesis by (simp add: dns_inv_def)
qed

lemma remove_records_inv:
  assumes inv: "dns_inv nm dns"
  shows "dns_inv nm (fst (remove_records k nm table name dest dns log))"
proof -
  let ?P = "\<lambda>r. \<not> record_selected nm name dest r"
  let ?hash = "\<lambda>key. if \<exists>r \<in> set (dn_heap dns). record_selected nm name dest r \<and> rec_key nm r = key then None else dn_hash dns key"
  obtain log' where "retain_records k nm table name dest (dn_heap dns) (dn_hash dns) log =
    (filter ?P (dn_heap dns), ?hash, (\<exists>r \<in> set (dn_heap dns). record_selected nm name dest r), log')"
    using retain_records_eq by blast
  then have eq: "fst (remove_records k nm table name dest dns log) =
      dns\<lparr>dn_heap := filter ?P (dn_heap dns), dn_hash := ?hash, dn_cache := dn_cache dns\<rparr>"
    by (simp add: remove_records_def)
  have "inj_on (rec_key nm) (set (dn_heap dns))" using inv by (simp add: dns_inv_def distinct_map)
  then show ?thesis
    unfolding eq by (intro bag_inv_filter [OF inv, where P = ?P]) (auto dest: inj_onD)
qed

lemma retain_if_eq: "retain_if p xs = Inr ys \<Longrightarrow> ys = filter (\<lambda>x. p x = Inr True) xs"
  by (induction xs arbitrary: ys) (auto simp: rbind_eq_Inr)

lemma retain_if_total: "\<forall>x \<in> set xs. \<exists>b. p x = Inr b \<Longrightarrow> \<exists>ys. retain_if p xs = Inr ys"
  by (induction xs) auto

text \<open>A cache that some list built answers without a panic.\<close>

definition cache_ok :: "DnsCache \<Rightarrow> bool" where
  "cache_ok c \<longleftrightarrow> (case dc_dfa c of None \<Rightarrow> True | Some dfa \<Rightarrow> \<exists>ms. dns_dfa_ok ms dfa)"

lemma cache_ok_get:
  assumes "cache_ok c"
  shows "\<exists>hit. dns_cache_get c n = Inr hit"
proof (cases "dc_dfa c")
  case None
  then show ?thesis by (simp add: dns_cache_get_def)
next
  case (Some dfa)
  with assms obtain ms where "dns_dfa_ok ms dfa" by (auto simp: cache_ok_def)
  from dns_cache_get_ok [OF Some this, of n] show ?thesis by auto
qed

lemma cache_ok_update: "build_wf lib \<Longrightarrow> cache_ok c \<Longrightarrow> cache_ok (dns_cache_update lib c ms)"
  by (auto simp: dns_cache_update_def cache_ok_def split: sum.split intro: build_dns_dfa_ok)

lemma parse_answer_ok:
  assumes inv: "dns_inv nm (fst st)" and ok: "cache_ok (dn_cache (fst st))"
  shows "\<exists>st'. parse_answer k nm table redir def now max_ttl st ans = Inr st' \<and> dns_inv nm (fst st')
    \<and> dn_cache (fst st') = dn_cache (fst st)"
proof (cases "an_a ans")
  case None
  with inv show ?thesis by (simp add: parse_answer_def)
next
  case (Some dest)
  let ?n = "nm_fqdn nm (an_name ans)" and ?dns = "fst st"
  obtain hit where hit: "dns_cache_get (dn_cache ?dns) (nm_show nm ?n) = Inr hit" using cache_ok_get [OF ok] by blast
  show ?thesis
  proof (cases hit)
    case None
    with Some hit inv show ?thesis by (simp add: parse_answer_def Let_def)
  next
    case (Some p)
    obtain dir i where p: "p = (dir, i)" by fastforce
    let ?t = "now + unat (min (an_ttl ans) max_ttl) * NANOS"
    let ?r = "\<lparr>rec_ttl_expire = ?t, rec_dest = dest, rec_name = ?n\<rparr>"
    let ?hash = "hash_insert nm ?n dest ?t (dn_hash ?dns)"
    have bag: "bag_inv nm (mset (dn_heap ?dns)) (dn_hash ?dns)" using inv by (simp add: dns_inv_bag)
    show ?thesis
    proof (cases "dn_hash ?dns (rec_key nm ?r)")
      case None
      with bag_inv_add [OF bag, of ?r ?t] have "bag_inv nm (add_mset ?r (mset (dn_heap ?dns))) ?hash" by simp
      with None Some hit p \<open>an_a ans = Some dest\<close> show ?thesis
        by (simp add: parse_answer_def Let_def dns_inv_bag hq.push_bag)
    next
      case (Some v)
      then have "rec_key nm ?r \<in> rec_key nm ` set (dn_heap ?dns)" using bag by (auto simp: bag_inv_def)
      then obtain q where "q \<in># mset (dn_heap ?dns)" "rec_key nm q = rec_key nm ?r" by auto
      with bag_inv_renew [OF bag, of q ?n ?t] have "bag_inv nm (mset (dn_heap ?dns)) ?hash" by (simp add: rec_key_def)
      with Some \<open>hit = Some p\<close> hit p \<open>an_a ans = Some dest\<close> show ?thesis
        by (simp add: parse_answer_def Let_def dns_inv_bag)
    qed
  qed
qed

lemma parse_answers_ok:
  assumes "dns_inv nm (fst st)" and "cache_ok (dn_cache (fst st))"
  shows "\<exists>st'. rfoldl (parse_answer k nm table redir def now max_ttl) st as = Inr st' \<and> dns_inv nm (fst st')
    \<and> dn_cache (fst st') = dn_cache (fst st)"
  using assms
proof (induction as arbitrary: st)
  case (Cons a as)
  from parse_answer_ok [OF Cons.prems, of k table redir "def" now max_ttl a] obtain st1
    where st1: "parse_answer k nm table redir def now max_ttl st a = Inr st1" "dns_inv nm (fst st1)"
      "dn_cache (fst st1) = dn_cache (fst st)" by blast
  with Cons.IH [of st1] Cons.prems show ?case by auto
qed simp

lemma dns_callback_ok:
  assumes "dns_inv nm (fst st)" and "cache_ok (dn_cache (fst st))"
  shows "\<exists>st'. dns_callback k nm table redir def now max_ttl data st = Inr st' \<and> dns_inv nm (fst st')
    \<and> dn_cache (fst st') = dn_cache (fst st)"
proof (cases "dns_parse k nm table redir def now max_ttl data st")
  case (Inl e)
  have "rfoldl (parse_answer k nm table redir def now max_ttl) st as \<noteq> Inl Panic" for as
    using parse_answers_ok [OF assms, of k table redir "def" now max_ttl as] by (metis Inl_Inr_False)
  then have "e \<noteq> Panic"
    using Inl by (auto simp: dns_parse_def split: sum.splits if_splits)
  with Inl assms show ?thesis by (simp add: dns_callback_def)
next
  case (Inr st')
  then obtain as where "rfoldl (parse_answer k nm table redir def now max_ttl) st as = Inr st'"
    by (auto simp: dns_parse_def split: sum.splits if_splits)
  with parse_answers_ok [OF assms, of k table redir "def" now max_ttl as] Inr show ?thesis
    by (simp add: dns_callback_def)
qed

lemma dns_inv_sleeper [simp]: "dns_inv nm (dns\<lparr>dn_ttl_sleeper := x\<rparr>) = dns_inv nm dns"
  by (simp add: dns_inv_def)

lemma watch_dns_ttl_step_inv: "dns_inv nm dns \<Longrightarrow> dns_inv nm (fst (watch_dns_ttl_step k nm table now ch dns log))"
  using ttl_sweep_inv [of nm dns k table now log]
  by (auto simp: watch_dns_ttl_step_def split: option.split prod.split sum.split)

lemma ttl_sweep_cache: "dn_cache (fst (ttl_sweep k nm table now dns log)) = dn_cache dns"
proof (induction k nm table now dns log rule: ttl_sweep.induct)
  case (1 k nm table now dns log)
  show ?case
    by (subst ttl_sweep.simps)
      (auto simp: Let_def 1 split: option.split prod.split sum.split)
qed

lemma watch_dns_ttl_step_cache: "dn_cache (fst (watch_dns_ttl_step k nm table now ch dns log)) = dn_cache dns"
  using ttl_sweep_cache [of k nm table now dns log]
  by (auto simp: watch_dns_ttl_step_def split: option.split prod.split sum.split)

lemma table_routes_sane: "Inl Panic \<notin> set ms \<Longrightarrow> table_routes table ms \<noteq> Inl Panic"
  by (induction table ms rule: table_routes.induct) (auto simp: rbind_def split: sum.splits)

lemma clear_table_safe:
  assumes "kernel_sane k"
  shows "io_safe (clear_table k table)"
proof -
  have dump: "io_safe (io_bind (io_lift (table_routes table ms)) f)" if "Inl Panic \<notin> set ms" "\<And>x. io_safe (f x)" for ms f
    using that table_routes_sane by (intro io_safe_intros) auto
  show ?thesis
    unfolding clear_table_def
    by (intro io_safe_bind io_safe_send assms io_safe_bind_gives [where m = "io_dump (kn_routes k)"] io_safe_dump dump)
      (use assms in \<open>auto simp: io_dump_def kernel_sane_def intro!: io_safe_intros\<close>)
qed

lemma setup_all_safe:
  assumes k: "kernel_sane k" and "\<forall>r \<in> set rs. cache_has c (nm_show nm (rec_name r)) = Inr True"
  shows "io_safe (setup_all k nm table redir def c rs)"
  using assms(2)
proof (induction rs)
  case (Cons r rs)
  then obtain dir i where "dns_cache_get c (nm_show nm (rec_name r)) = Inr (Some (dir, i))"
    by (auto simp: cache_has_def rbind_eq_Inr)
  moreover have "io_safe (setup_record k table redir def r dir)"
    by (auto simp: setup_record_def split: option.split intro!: io_safe_intros k)
  ultimately show ?case
    using Cons by (auto simp: io_lift_def io_bind_def [of "\<lambda>log. (log, Inr x)" for x] intro!: io_safe_intros)
qed (simp add: io_safe_intros)

lemma watch_dns_routes_step_ok:
  assumes wf: "build_wf lib" and k: "kernel_sane k" and inv: "dns_inv nm dns" and ok: "cache_ok (dn_cache dns)"
    and run: "watch_dns_routes_step k lib nm table conf redir def upd dns log = (dns', log', r)"
  defines "c \<equiv> (if upd then dns_cache_update lib (dn_cache dns) (st_matches conf) else dn_cache dns)"
  shows "r \<noteq> Inl Panic \<and> dns_inv nm dns' \<and> dn_cache dns' = c \<and> cache_ok c
    \<and> dn_heap dns' = filter (\<lambda>h. cache_has c (nm_show nm (rec_name h)) = Inr True) (dn_heap dns)"
proof -
  have c: "cache_ok c" using ok cache_ok_update [OF wf ok] by (simp add: c_def)
  have get: "\<exists>b. cache_has c n = Inr b" for n using cache_ok_get [OF c, of n] by (auto simp: cache_has_def)
  let ?P = "\<lambda>h. cache_has c (nm_show nm (rec_name h)) = Inr True"
  obtain heap where heap: "retain_if (\<lambda>h. cache_has c (nm_show nm (rec_name h))) (dn_heap dns) = Inr heap"
    using retain_if_total [of "dn_heap dns" "\<lambda>h. cache_has c (nm_show nm (rec_name h))"] get by blast
  note eq = retain_if_eq [OF heap]
  define st where "st = dns\<lparr>dn_heap := heap, dn_hash := hash_retain c nm (dn_hash dns), dn_cache := c\<rparr>"
  have dns': "dns' = st" and r: "r = snd (io_bind (clear_table k table) (\<lambda>_.
      if st_enable conf then setup_all k nm table redir def c heap else io_ret ()) log)"
    using run heap by (auto simp: watch_dns_routes_step_def Let_def c_def st_def split: if_splits prod.splits)
  have name: "\<exists>t. dn_hash dns (rec_key nm h) = Some (rec_name h, t)" if "h \<in> set (dn_heap dns)" for h
    using inv that by (auto simp: dns_inv_def)
  have "dns_inv nm st"
    unfolding st_def
  proof (rule bag_inv_filter [OF inv eq])
    fix h assume h: "h \<in> set (dn_heap dns)"
    from name [OF h] obtain t where "dn_hash dns (rec_key nm h) = Some (rec_name h, t)" by blast
    then show "?P h \<Longrightarrow> hash_retain c nm (dn_hash dns) (rec_key nm h) = dn_hash dns (rec_key nm h)"
      "\<not> ?P h \<Longrightarrow> hash_retain c nm (dn_hash dns) (rec_key nm h) = None"
      by (simp_all add: hash_retain_def)
  qed (simp add: hash_retain_def)
  moreover have "io_safe (io_bind (clear_table k table) (\<lambda>_.
      if st_enable conf then setup_all k nm table redir def c heap else io_ret ()))"
    by (intro io_safe_intros clear_table_safe [OF k] setup_all_safe [OF k]) (simp add: eq)
  ultimately show ?thesis using c eq by (simp add: dns' r io_safe_def st_def)
qed

section \<open>The component as a whole\<close>

text \<open>What can happen to the state, in any order.\<close>

datatype dns_event =
    EvTtl nat bool
  | EvAnswer nat u32 "u8 list" "Route option" "Route option"
  | EvRoutes State "Route option" "Route option" bool
  | EvRetire "name option" "ipv4 option"

fun dns_step :: "kernel \<Rightarrow> libs \<Rightarrow> names \<Rightarrow> u32 \<Rightarrow> DnsState \<times> nl_request list \<Rightarrow> dns_event \<Rightarrow> (DnsState \<times> nl_request list) result" where
  "dns_step k lib nm table st (EvTtl now ch) =
    (case watch_dns_ttl_step k nm table now ch (fst st) (snd st) of (dns, log, _) \<Rightarrow> Inr (dns, log))"
| "dns_step k lib nm table st (EvAnswer now max_ttl data redir def) =
    dns_callback k nm table redir def now max_ttl data st"
| "dns_step k lib nm table st (EvRoutes conf redir def upd) =
    (case watch_dns_routes_step k lib nm table conf redir def upd (fst st) (snd st) of
       (dns, log, r) \<Rightarrow> if r = Inl Panic then Inl Panic else Inr (dns, log))"
| "dns_step k lib nm table st (EvRetire name dest) =
    (case remove_records k nm table name dest (fst st) (snd st) of (dns, log, _) \<Rightarrow> Inr (dns, log))"

definition dns_initial :: DnsState where
  "dns_initial = \<lparr>dn_ttl_sleeper = None, dn_heap = [], dn_hash = Map.empty, dn_cache = \<lparr>dc_dfa = None\<rparr>\<rparr>"

lemma dns_step_ok:
  assumes "build_wf lib" "kernel_sane k" "dns_inv nm (fst st)" "cache_ok (dn_cache (fst st))"
  shows "\<exists>st'. dns_step k lib nm table st ev = Inr st' \<and> dns_inv nm (fst st') \<and> cache_ok (dn_cache (fst st'))"
proof (cases ev)
  case (EvTtl now ch)
  with assms(3,4) watch_dns_ttl_step_inv [of nm "fst st" k table now ch "snd st"]
    watch_dns_ttl_step_cache [of k nm table now ch "fst st" "snd st"] show ?thesis
    by (auto split: prod.splits)
next
  case (EvAnswer now max_ttl data redir "def")
  with dns_callback_ok [OF assms(3,4), of k table redir "def" now max_ttl data] assms(4) show ?thesis by auto
next
  case (EvRoutes conf redir "def" upd)
  obtain dns' log' r where run: "watch_dns_routes_step k lib nm table conf redir def upd (fst st) (snd st) = (dns', log', r)"
    by (cases "watch_dns_routes_step k lib nm table conf redir def upd (fst st) (snd st)")
  from watch_dns_routes_step_ok [OF assms run] run EvRoutes show ?thesis by simp
next
  case (EvRetire name dest)
  have "dn_cache (fst (remove_records k nm table name dest (fst st) (snd st))) = dn_cache (fst st)"
    by (simp add: remove_records_def split: prod.split)
  with EvRetire assms(3,4) remove_records_inv [of nm "fst st" k table name dest "snd st"] show ?thesis
    by (auto split: prod.splits)
qed

lemma dns_run_ok:
  assumes "build_wf lib" "kernel_sane k"
  shows "\<exists>st. rfoldl (dns_step k lib nm table) (dns_initial, []) evs = Inr st \<and> dns_inv nm (fst st)"
proof -
  have "\<exists>st'. rfoldl (dns_step k lib nm table) st evs = Inr st' \<and> dns_inv nm (fst st') \<and> cache_ok (dn_cache (fst st'))"
    if "dns_inv nm (fst st)" "cache_ok (dn_cache (fst st))" for st
    using that
  proof (induction evs arbitrary: st)
    case (Cons ev evs)
    from dns_step_ok [OF assms Cons.prems, of table ev] obtain st1
      where "dns_step k lib nm table st ev = Inr st1" "dns_inv nm (fst st1)" "cache_ok (dn_cache (fst st1))" by blast
    with Cons.IH [of st1] show ?case by simp
  qed simp
  from this [of "(dns_initial, [])"] show ?thesis
    by (auto simp: dns_initial_def dns_inv_def cache_ok_def)
qed

section \<open>Properties\<close>

text \<open>Values for the witnesses: names that are their own key, a decoder with one answer.\<close>

definition ex_answer :: dns_message where
  "ex_answer = \<lparr>dm_queries = 1, dm_answers = [\<lparr>an_name = ''a.org'', an_ttl = 60, an_a = Some (Ipv4 1 2 3 4)\<rparr>],
    dm_response = True, dm_no_error = True\<rparr>"

definition ex_names :: names where
  "ex_names = \<lparr>nm_key = (\<lambda>n. n), nm_show = (\<lambda>n. n), nm_fqdn = (\<lambda>n. n), nm_parse = (\<lambda>n. Inr n),
    nm_message = (\<lambda>data. Inr ex_answer)\<rparr>"

definition ex_conf :: State where
  "ex_conf = state_default\<lparr>st_matches := matches_default\<lparr>ms_matches := [ex_dns]\<rparr>\<rparr>"

definition ex_dfa :: DnsDFA where
  "ex_dfa = \<lparr>dd_redir = all_dense, dd_redir_map = [0], dd_bypass = none_dense, dd_bypass_map = []\<rparr>"

lemma ex_conf_cache:
  "dns_cache_update all_libs c (st_matches ex_conf) = c\<lparr>dc_dfa := Some ex_dfa\<rparr>"
  "dns_cache_get (c\<lparr>dc_dfa := Some ex_dfa\<rparr>) n = Inr (Some (Direction_redirect, 0))"
  by (simp_all add: dns_cache_update_def build_dns_dfa_def build_dfa_def all_libs_sel Let_def ex_conf_def ex_match_defs
      dns_regex_def method_regex_def dns_sets_empty_def state_default_def ex_dfa_def)
    (simp add: dns_cache_get_def idx_def all_dense_def none_dense_def table_dense_sel)



text \<open>
  C24: the expiry sweep ends, and when no request fails it leaves exactly the records that
  are not due, together with those due whose newer expiry in the map lies in the future,
  which they get; no record that is due is left.
\<close>

theorem ttl_sweep_survivors:
  assumes "dns_inv nm dns" and "ttl_sweep k nm table now dns log = (dns', log', Inr ())"
  shows "mset (dn_heap dns') = survivors nm now (dn_hash dns) (mset (dn_heap dns))
    \<and> (\<forall>r \<in> set (dn_heap dns'). now < rec_ttl_expire r)"
  using ttl_sweep_exact [OF assms] by (auto simp: due_def)

definition ex_rec :: DnsRecord where
  "ex_rec = \<lparr>rec_ttl_expire = 5, rec_dest = Ipv4 1 2 3 4, rec_name = ''a.org''\<rparr>"

definition ex_dns_state :: DnsState where
  "ex_dns_state = dns_initial\<lparr>dn_heap := [ex_rec], dn_hash := [rec_key ex_names ex_rec \<mapsto> (''a.org'', 9)]\<rparr>"

lemma ex_sweep:
  "ttl_sweep silent_kernel ex_names 70000 7 ex_dns_state [] =
    (ex_dns_state\<lparr>dn_heap := [ex_rec\<lparr>rec_ttl_expire := 9\<rparr>]\<rparr>, [], Inr ())"
  by (simp add: ttl_sweep.simps ex_dns_state_def ex_rec_def dns_initial_def due_def heap_pop_def heap_push_def renewal_def
      rec_key_def hash_insert_def ex_names_def)

theorem ttl_sweep_survivors_witness:
  "survivors ex_names 7 (dn_hash ex_dns_state) (mset (dn_heap ex_dns_state)) = {#ex_rec\<lparr>rec_ttl_expire := 9\<rparr>#}"
proof -
  have "dns_inv ex_names ex_dns_state" by (simp add: dns_inv_def ex_dns_state_def ex_rec_def dns_initial_def)
  from ttl_sweep_survivors [OF this ex_sweep] show ?thesis by simp
qed

text \<open>
  After a round of the expiry task the next wake-up is the earliest expiry in the heap,
  which is later than now, and there is none exactly when no record is left: no record
  is forgotten.
\<close>

theorem ttl_wakeup:
  assumes "dns_inv nm dns" and "dn_ttl_sleeper dns \<noteq> None"
    and "watch_dns_ttl_step k nm table now False dns log = (dns', log', Inr ())"
  shows "case dn_ttl_sleeper dns' of
      None \<Rightarrow> dn_heap dns' = []
    | Some t \<Rightarrow> now < t \<and> t \<in> rec_ttl_expire ` set (dn_heap dns') \<and> (\<forall>r \<in> set (dn_heap dns'). t \<le> rec_ttl_expire r)"
proof -
  obtain dns1 log1 where sweep: "ttl_sweep k nm table now dns log = (dns1, log1, Inr ())"
    and dns': "dns' = dns1\<lparr>dn_ttl_sleeper := map_option rec_ttl_expire (heap_peek (dn_heap dns1))\<rparr>"
    using assms(2,3) by (auto simp: watch_dns_ttl_step_def split: option.splits prod.splits sum.splits)
  from ttl_sweep_exact [OF assms(1) sweep] have later: "\<forall>r \<in> set (dn_heap dns1). now < rec_ttl_expire r"
    by (auto simp: due_def)
  show ?thesis
    using later heap_peek_min [of "dn_heap dns1"] by (auto simp: dns' heap_peek_None split: option.split)
qed

theorem ttl_wakeup_witness:
  "dn_ttl_sleeper (fst (watch_dns_ttl_step silent_kernel ex_names 70000 7 False
      (ex_dns_state\<lparr>dn_ttl_sleeper := Some 5\<rparr>) [])) = Some 9"
proof -
  have upd: "ttl_sweep silent_kernel ex_names 70000 7 (ex_dns_state\<lparr>dn_ttl_sleeper := Some 5\<rparr>) [] =
      (ex_dns_state\<lparr>dn_heap := [ex_rec\<lparr>rec_ttl_expire := 9\<rparr>], dn_ttl_sleeper := Some 5\<rparr>, [], Inr ())"
    by (simp add: ttl_sweep.simps ex_dns_state_def ex_rec_def dns_initial_def due_def heap_pop_def heap_push_def renewal_def
      rec_key_def hash_insert_def ex_names_def)
  then obtain dns' where run: "watch_dns_ttl_step silent_kernel ex_names 70000 7 False
      (ex_dns_state\<lparr>dn_ttl_sleeper := Some 5\<rparr>) [] = (dns', [], Inr ())"
    and heap: "dn_heap dns' = [ex_rec\<lparr>rec_ttl_expire := 9\<rparr>]"
    by (simp add: watch_dns_ttl_step_def)
  have inv: "dns_inv ex_names (ex_dns_state\<lparr>dn_ttl_sleeper := Some 5\<rparr>)"
    by (simp add: dns_inv_def ex_dns_state_def ex_rec_def dns_initial_def)
  from ttl_wakeup [OF inv _ run] heap run show ?thesis by (auto split: option.splits)
qed

lemma hash_insert_val: "hash_insert nm n d t hash key = Some (n', t') \<Longrightarrow> t' = t \<or> hash key = Some (n', t')"
  by (cases "hash (nm_key nm n, d)"; cases "key = (nm_key nm n, d)") (auto simp: hash_insert_def)

lemma parse_answer_hash:
  assumes "parse_answer k nm table redir def now max_ttl st a = Inr st'"
  shows "dn_hash (fst st') = dn_hash (fst st) \<or> (\<exists>n d. dn_hash (fst st') =
    hash_insert nm n d (now + unat (min (an_ttl a) max_ttl) * NANOS) (dn_hash (fst st)))"
proof (cases "an_a a")
  case None
  with assms show ?thesis by (simp add: parse_answer_def)
next
  case (Some dest)
  with assms obtain hit where hit: "dns_cache_get (dn_cache (fst st)) (nm_show nm (nm_fqdn nm (an_name a))) = Inr hit"
    by (auto simp: parse_answer_def Let_def rbind_eq_Inr)
  show ?thesis
  proof (cases hit)
    case None
    with assms Some hit show ?thesis by (simp add: parse_answer_def Let_def)
  next
    case (Some p)
    with assms hit \<open>an_a a = Some dest\<close> have "dn_hash (fst st') =
        hash_insert nm (nm_fqdn nm (an_name a)) dest (now + unat (min (an_ttl a) max_ttl) * NANOS) (dn_hash (fst st))"
      by (cases p) (auto simp: parse_answer_def Let_def split: if_split_asm)
    then show ?thesis by blast
  qed
qed

lemma parse_answer_heap:
  assumes "parse_answer k nm table redir def now max_ttl st a = Inr st'" and "r \<in> set (dn_heap (fst st'))"
  shows "r \<in> set (dn_heap (fst st)) \<or> rec_ttl_expire r = now + unat (min (an_ttl a) max_ttl) * NANOS"
proof (cases "an_a a")
  case None
  with assms show ?thesis by (simp add: parse_answer_def)
next
  case (Some dest)
  with assms obtain hit where hit: "dns_cache_get (dn_cache (fst st)) (nm_show nm (nm_fqdn nm (an_name a))) = Inr hit"
    by (auto simp: parse_answer_def Let_def rbind_eq_Inr)
  show ?thesis
    by (cases hit) (use assms Some hit in \<open>auto simp: parse_answer_def Let_def heap_push_def split: if_split_asm\<close>)
qed

text \<open>The records and the entries of \<open>dns\<close> that \<open>old\<close> does not have expire at \<open>cap\<close> at the latest.\<close>

definition news_until :: "nat \<Rightarrow> DnsState \<Rightarrow> DnsState \<Rightarrow> bool" where
  "news_until cap old dns \<longleftrightarrow>
    (\<forall>r \<in> set (dn_heap dns). r \<in> set (dn_heap old) \<or> rec_ttl_expire r \<le> cap) \<and>
    (\<forall>key n t. dn_hash dns key = Some (n, t) \<longrightarrow> (\<exists>n'. dn_hash old key = Some (n', t)) \<or> t \<le> cap)"

lemma news_until_answer:
  assumes news: "news_until cap old (fst st)" and step: "parse_answer k nm table redir def now max_ttl st a = Inr st'"
    and cap: "now + unat max_ttl * NANOS \<le> cap"
  shows "news_until cap old (fst st')"
proof -
  have le: "now + unat (min (an_ttl a) max_ttl) * NANOS \<le> cap"
    using cap by (rule order_trans [rotated]) (simp add: min_def word_le_nat_alt)
  have "t \<le> cap \<or> dn_hash (fst st) key = Some (n, t)" if "dn_hash (fst st') key = Some (n, t)" for key n t
    using that parse_answer_hash [OF step] le hash_insert_val by metis
  then show ?thesis
    using news parse_answer_heap [OF step] le unfolding news_until_def by metis
qed

lemma news_until_parse:
  assumes "dns_parse k nm table redir def now max_ttl data (dns, log) = Inr (dns', log')"
  shows "news_until (now + unat max_ttl * NANOS) dns dns'"
proof -
  obtain as where run: "rfoldl (parse_answer k nm table redir def now max_ttl) (dns, log) as = Inr (dns', log')"
    using assms by (auto simp: dns_parse_def split: sum.splits if_splits)
  have "news_until (now + unat max_ttl * NANOS) dns (fst (dns', log'))"
    by (rule rfoldl_Inr_invariant [where P = "\<lambda>st. news_until (now + unat max_ttl * NANOS) dns (fst st)", OF run])
      (auto simp: news_until_def [of _ dns dns] intro: news_until_answer)
  then show ?thesis by simp
qed

text \<open>A sweep when the news have expired leaves what was known before them.\<close>

lemma news_until_sweep:
  assumes "news_until cap old dns" and "cap \<le> later" and "dns_inv nm dns"
    and "ttl_sweep k nm table later dns log = (dns', log', Inr ())" and "r \<in> set (dn_heap dns')"
  shows "r \<in> set (dn_heap old) \<or> (\<exists>n. dn_hash old (rec_key nm r) = Some (n, rec_ttl_expire r))"
proof -
  have key: "rec_key nm (q\<lparr>rec_ttl_expire := t\<rparr>) = rec_key nm q" for q t by (simp add: rec_key_def)
  from ttl_sweep_exact [OF assms(3,4)] assms(5) have "r \<in># survivors nm later (dn_hash dns) (mset (dn_heap dns))"
    by (metis set_mset_mset)
  then obtain q where q: "q \<in> set (dn_heap dns)" "survivor nm later (dn_hash dns) q = Some r"
    by (induction "mset (dn_heap dns)" arbitrary: thesis) (auto simp: survivors_def)
  show ?thesis
  proof (cases "due later q")
    case False
    with q have "r = q" by (simp add: survivor_def)
    with False q assms(1,2) show ?thesis by (auto simp: news_until_def due_def)
  next
    case True
    with q obtain n t where "r = q\<lparr>rec_ttl_expire := t\<rparr>" "dn_hash dns (rec_key nm q) = Some (n, t)" "later < t"
      by (auto simp: survivor_def renewal_def split: option.splits if_splits)
    moreover from this assms(1,2) have "\<exists>n'. dn_hash old (rec_key nm q) = Some (n', t)"
      unfolding news_until_def by (metis leD le_trans)
    ultimately show ?thesis by (simp add: key)
  qed
qed

text \<open>
  C25: an observed answer never keeps a record longer than the configured maximum, whatever the server
  said: after a packet every record of the heap, which orders the expiries, and every entry of the map,
  which renews them, is one from before or expires at most \<^verbatim>\<open>dns_max_ttl_sec\<close> from now; and a later
  sweep that ends well, \<^verbatim>\<open>dns_max_ttl_sec\<close> or more after the packet, leaves only records that were in the heap,
  or whose expiry was in the map, before it.
\<close>

theorem dns_ttl_capped:
  assumes "dns_parse k nm table redir def now max_ttl data (dns, log) = Inr (dns', log')"
  shows "(\<forall>r \<in> set (dn_heap dns'). r \<in> set (dn_heap dns) \<or> rec_ttl_expire r \<le> now + unat max_ttl * NANOS)
    \<and> (\<forall>key n t. dn_hash dns' key = Some (n, t) \<longrightarrow>
          (\<exists>n'. dn_hash dns key = Some (n', t)) \<or> t \<le> now + unat max_ttl * NANOS)
    \<and> (\<forall>later k table log1 dns2 log2. dns_inv nm dns' \<longrightarrow> now + unat max_ttl * NANOS \<le> later \<longrightarrow>
          ttl_sweep k nm table later dns' log1 = (dns2, log2, Inr ()) \<longrightarrow>
          (\<forall>r \<in> set (dn_heap dns2). r \<in> set (dn_heap dns) \<or>
            (\<exists>n. dn_hash dns (rec_key nm r) = Some (n, rec_ttl_expire r))))"
  using news_until_parse [OF assms] news_until_sweep [OF news_until_parse [OF assms]]
  unfolding news_until_def by blast

theorem dns_ttl_capped_witness:
  "\<exists>dns log r. dns_parse silent_kernel ex_names 70000 None None 100 30 []
      (dns_initial\<lparr>dn_cache := \<lparr>dc_dfa = Some ex_dfa\<rparr>\<rparr>, []) = Inr (dns, log)
    \<and> dn_heap dns = [r] \<and> rec_dest r = Ipv4 1 2 3 4 \<and> rec_ttl_expire r \<le> 100 + 30 * NANOS
    \<and> dn_hash dns (''a.org'', Ipv4 1 2 3 4) = Some (''a.org'', rec_ttl_expire r)"
proof -
  let ?st = "dns_initial\<lparr>dn_cache := \<lparr>dc_dfa = Some ex_dfa\<rparr>\<rparr>"
  have get: "dns_cache_get \<lparr>dc_dfa = Some ex_dfa\<rparr> n = Inr (Some (Direction_redirect, 0))" for n
    using ex_conf_cache(2) [of "\<lparr>dc_dfa = None\<rparr>" n] by simp
  have "\<exists>dns log r. dns_parse silent_kernel ex_names 70000 None None 100 30 [] (?st, []) = Inr (dns, log) \<and>
    dn_heap dns = [r] \<and> rec_dest r = Ipv4 1 2 3 4 \<and>
    dn_hash dns (''a.org'', Ipv4 1 2 3 4) = Some (''a.org'', rec_ttl_expire r)"
    by (simp add: dns_parse_def ex_names_def ex_answer_def parse_answer_def get Let_def rec_key_def hash_insert_def
        dns_initial_def heap_push_def)
  then obtain dns log r where run: "dns_parse silent_kernel ex_names 70000 None None 100 30 [] (?st, []) = Inr (dns, log)"
    and r: "dn_heap dns = [r]" "rec_dest r = Ipv4 1 2 3 4"
      "dn_hash dns (''a.org'', Ipv4 1 2 3 4) = Some (''a.org'', rec_ttl_expire r)"
    by blast
  from dns_ttl_capped [OF run] have "rec_ttl_expire r \<le> 100 + 30 * NANOS"
    using r(1) by (simp add: dns_initial_def)
  with r run show ?thesis by blast
qed

text \<open>
  C26: after a change of the configuration whose DNS automata build, the records left are exactly those
  whose name a DNS match of the new list finds, with the direction of that match; the heap and the
  map still hold the same records, and setting the routes up again does not panic.
\<close>

theorem dns_records_match_config:
  assumes "build_wf lib" "kernel_sane k" "dns_inv nm dns" "cache_ok (dn_cache dns)"
    and "build_dns_dfa lib (st_matches conf) = Inr dfa"
    and "watch_dns_routes_step k lib nm table conf redir def True dns log = (dns', log', r)"
  shows "r \<noteq> Inl Panic \<and> dns_inv nm dns' \<and> dc_dfa (dn_cache dns') = Some dfa \<and>
    (\<forall>rec. rec \<in> set (dn_heap dns') \<longleftrightarrow> rec \<in> set (dn_heap dns) \<and>
      (\<exists>dir i. dns_cache_get (dn_cache dns') (nm_show nm (rec_name rec)) = Inr (Some (dir, i)) \<and>
         i < length (ms_matches (st_matches conf)) \<and> is_dns (ms_matches (st_matches conf) ! i)
         \<and> m_direction (ms_matches (st_matches conf) ! i) = dir))"
proof -
  let ?c = "dns_cache_update lib (dn_cache dns) (st_matches conf)"
  from watch_dns_routes_step_ok [OF assms(1-4,6)] have r: "r \<noteq> Inl Panic" "dns_inv nm dns'" and c: "dn_cache dns' = ?c"
    and heap: "dn_heap dns' = filter (\<lambda>h. cache_has ?c (nm_show nm (rec_name h)) = Inr True) (dn_heap dns)"
    by simp_all
  have dfa: "dc_dfa ?c = Some dfa" by (simp add: dns_cache_update_def assms(5))
  have ok: "dns_dfa_ok (ms_matches (st_matches conf)) dfa" using assms(1,5) by (rule build_dns_dfa_ok)
  have "cache_has ?c n = Inr True \<longleftrightarrow> (\<exists>dir i. dns_cache_get ?c n = Inr (Some (dir, i)) \<and>
      i < length (ms_matches (st_matches conf)) \<and> is_dns (ms_matches (st_matches conf) ! i)
      \<and> m_direction (ms_matches (st_matches conf) ! i) = dir)" for n
    using dns_cache_get_ok [OF dfa ok, of n] by (auto simp: cache_has_def rbind_eq_Inr)
  with r show ?thesis by (simp add: c dfa heap conj_commute)
qed

theorem dns_records_match_config_witness:
  "snd (snd (watch_dns_routes_step silent_kernel all_libs ex_names 70000 ex_conf None None True ex_dns_state [])) \<noteq> Inl Panic"
proof -
  have inv: "dns_inv ex_names ex_dns_state" by (simp add: dns_inv_def ex_dns_state_def ex_rec_def dns_initial_def)
  have c: "cache_ok (dn_cache ex_dns_state)" by (simp add: cache_ok_def ex_dns_state_def dns_initial_def)
  have b: "build_dns_dfa all_libs (st_matches ex_conf) = Inr ex_dfa"
    by (simp add: build_dns_dfa_def build_dfa_def all_libs_sel Let_def ex_conf_def ex_match_defs
      dns_regex_def method_regex_def dns_sets_empty_def state_default_def ex_dfa_def)
  show ?thesis
    by (cases "watch_dns_routes_step silent_kernel all_libs ex_names 70000 ex_conf None None True ex_dns_state []")
      (use dns_records_match_config [OF all_libs_wf silent_sane inv c b] in auto)
qed

text \<open>
  The route of an address belongs to the record that goes first.  Two names with one
  address are two records with one route; when the first expires the sweep deletes the
  route of the address although the other record is still in the heap, and asks for no
  route in its place.
\<close>

theorem shared_address_loses_route:
  "\<exists>dns log. ttl_sweep silent_kernel ex_names 70000 7
      (dns_initial\<lparr>dn_heap := [ex_rec, ex_rec\<lparr>rec_ttl_expire := 90, rec_name := ''b.org''\<rparr>],
         dn_hash := [(''a.org'', rec_dest ex_rec) \<mapsto> (''a.org'', 5), (''b.org'', rec_dest ex_rec) \<mapsto> (''b.org'', 90)]\<rparr>) []
      = (dns, log, Inr ())
    \<and> log = [del_record_req 70000 ex_rec] \<and> map rec_dest (dn_heap dns) = [rec_dest ex_rec]"
  by (simp add: ttl_sweep.simps ex_rec_def dns_initial_def due_def heap_pop_def heap_push_def renewal_def
      dns_record_cmp_le_def rec_key_def ex_names_def remove_record_def io_bind_def io_send_def io_try_def io_recv_def io_ret_def
      silent_kernel_def del_record_req_def)

end
