(* ===== verification/Dns_Kept.thy ===== *)
theory Dns_Kept
  imports Dns_Correct
begin

text \<open>
  What every event leaves of the DNS component beside its consistency: the wake-up is never later than
  an expiry, and the records are those of names that the cache matches.
\<close>

definition sleeper_ok :: "DnsState \<Rightarrow> bool" where
  "sleeper_ok dns \<longleftrightarrow> (\<forall>r \<in> set (dn_heap dns). \<exists>t. dn_ttl_sleeper dns = Some t \<and> t \<le> rec_ttl_expire r)"

definition records_matched :: "names \<Rightarrow> DnsState \<Rightarrow> bool" where
  "records_matched nm dns \<longleftrightarrow> (\<forall>r \<in> set (dn_heap dns). cache_has (dn_cache dns) (nm_show nm (rec_name r)) = Inr True)"

definition kept :: "names \<Rightarrow> DnsState \<Rightarrow> bool" where
  "kept nm dns \<longleftrightarrow> sleeper_ok dns \<and> records_matched nm dns"

lemma set_heap_push [simp]: "set (heap_push r h) = insert r (set h)"
  by (simp add: heap_push_def)

lemma peek_sleeper: "\<forall>r \<in> set h. \<exists>t. map_option rec_ttl_expire (heap_peek h) = Some t \<and> t \<le> rec_ttl_expire r"
  using heap_peek_min [of h] heap_peek_None [of h] by (cases "heap_peek h") auto

section \<open>Each operation\<close>

text \<open>A property of records that a renewal keeps holds of all of them after a sweep.\<close>

lemma ttl_sweep_all:
  assumes renew: "\<And>r t. P r \<Longrightarrow> due now r \<Longrightarrow> now < t \<Longrightarrow> P (r\<lparr>rec_ttl_expire := t\<rparr>)"
  shows "\<forall>r \<in># mset (dn_heap dns). P r \<Longrightarrow> \<forall>r \<in># mset (dn_heap (fst (ttl_sweep k nm table now dns log))). P r"
proof (induction "size (filter_mset (due now) (mset (dn_heap dns)))" arbitrary: dns log rule: less_induct)
  case less
  show ?case
  proof (cases rule: ttl_sweep_cases [of k nm table now dns log])
    case stop
    with less.prems show ?thesis by simp
  next
    case (renew r H t dns')
    from less.prems renew(1-3,5) assms renewal_later [OF renew(3)] have "\<forall>r \<in># mset (dn_heap dns'). P r" by auto
    with less.hyps [of dns' log] renew size_due_renewed [of now r t H] renewal_later [OF renew(3)] show ?thesis by simp
  next
    case (drop_ok r H dns' log')
    with less.prems have "\<forall>r \<in># mset (dn_heap dns'). P r" by simp
    with less.hyps [of dns' log'] drop_ok show ?thesis by simp
  next
    case (drop_err r H dns' log' e)
    with less.prems show ?thesis by simp
  qed
qed

lemma ttl_sweep_sleeper: "dn_ttl_sleeper (fst (ttl_sweep k nm table now dns log)) = dn_ttl_sleeper dns"
proof (induction k nm table now dns log rule: ttl_sweep.induct)
  case (1 k nm table now dns log)
  show ?case
    by (subst ttl_sweep.simps) (auto simp: Let_def 1 split: option.split prod.split sum.split)
qed

lemma kept_ttl:
  assumes "kept nm dns"
  shows "kept nm (fst (watch_dns_ttl_step k nm table now ch dns log))"
proof -
  obtain dns1 log1 r where s: "ttl_sweep k nm table now dns log = (dns1, log1, r)" by (metis prod_cases3)
  have same: "dn_cache dns1 = dn_cache dns" "dn_ttl_sleeper dns1 = dn_ttl_sleeper dns"
    using ttl_sweep_cache [of k nm table now dns log] ttl_sweep_sleeper [of k nm table now dns log] s by simp_all
  define P where "P = (\<lambda>r :: DnsRecord. (\<exists>t. dn_ttl_sleeper dns = Some t \<and> t \<le> rec_ttl_expire r)
      \<and> cache_has (dn_cache dns) (nm_show nm (rec_name r)) = Inr True)"
  have "P r \<Longrightarrow> due now r \<Longrightarrow> now < t \<Longrightarrow> P (r\<lparr>rec_ttl_expire := t\<rparr>)" for r :: DnsRecord and t
    by (auto simp: P_def due_def)
  from ttl_sweep_all [of P now dns k nm table log, OF this] have "\<forall>r \<in> set (dn_heap dns1). P r"
    using assms s by (simp add: kept_def sleeper_ok_def records_matched_def P_def)
  then have "kept nm dns1" by (simp add: kept_def sleeper_ok_def records_matched_def same P_def)
  moreover from this have "kept nm (dns1\<lparr>dn_ttl_sleeper := map_option rec_ttl_expire (heap_peek (dn_heap dns1))\<rparr>)"
    using peek_sleeper [of "dn_heap dns1"] by (simp add: kept_def sleeper_ok_def records_matched_def)
  ultimately show ?thesis
    using assms s by (auto simp: watch_dns_ttl_step_def split: option.split sum.split)
qed

lemma kept_answer:
  assumes "kept nm (fst st)" and run: "parse_answer k nm table redir def now max_ttl st ans = Inr st'"
  shows "kept nm (fst st') \<and> dn_cache (fst st') = dn_cache (fst st)"
proof (cases "an_a ans")
  case None
  with assms show ?thesis by (simp add: parse_answer_def)
next
  case (Some dest)
  let ?n = "nm_fqdn nm (an_name ans)"
  obtain hit where hit: "dns_cache_get (dn_cache (fst st)) (nm_show nm ?n) = Inr hit"
    using run Some by (auto simp: parse_answer_def Let_def rbind_eq_Inr)
  show ?thesis
  proof (cases hit)
    case None
    with assms Some hit show ?thesis by (simp add: parse_answer_def Let_def)
  next
    case (Some p)
    with hit have "cache_has (dn_cache (fst st)) (nm_show nm ?n) = Inr True" by (simp add: cache_has_def)
    with assms Some hit \<open>an_a ans = Some dest\<close> peek_sleeper show ?thesis
      by (auto simp: parse_answer_def Let_def kept_def sleeper_ok_def records_matched_def split: if_splits prod.splits)
  qed
qed

lemma kept_callback:
  assumes "kept nm (fst st)" and run: "dns_callback k nm table redir def now max_ttl data st = Inr st'"
  shows "kept nm (fst st') \<and> dn_cache (fst st') = dn_cache (fst st)"
proof (cases "st' = st")
  case True
  with assms show ?thesis by simp
next
  case False
  then obtain as where "rfoldl (parse_answer k nm table redir def now max_ttl) st as = Inr st'"
    using run by (auto simp: dns_callback_def dns_parse_def split: sum.splits if_splits)
  then show ?thesis
    by (rule rfoldl_Inr_invariant [where P = "\<lambda>s. kept nm (fst s) \<and> dn_cache (fst s) = dn_cache (fst st)"])
      (use assms(1) kept_answer in auto)
qed

lemma kept_retire:
  assumes "kept nm dns"
  shows "kept nm (fst (remove_records k nm table name dest dns log)) \<and>
    dn_cache (fst (remove_records k nm table name dest dns log)) = dn_cache dns"
  using assms retain_records_eq [of k nm table name dest "dn_heap dns" "dn_hash dns" log]
  by (auto simp: remove_records_def kept_def sleeper_ok_def records_matched_def)

lemma kept_routes:
  assumes "build_wf lib" "kernel_sane k" "dns_inv nm dns" "cache_ok (dn_cache dns)" "kept nm dns"
    and run: "watch_dns_routes_step k lib nm table conf redir def upd dns log = (dns', log', r)"
  shows "kept nm dns'"
proof -
  have "dn_ttl_sleeper dns' = dn_ttl_sleeper dns"
    using run by (auto simp: watch_dns_routes_step_def Let_def split: sum.splits prod.splits if_splits)
  with watch_dns_routes_step_ok [OF assms(1-4) run] assms(5) show ?thesis
    by (auto simp: kept_def sleeper_ok_def records_matched_def)
qed

lemma kept_step:
  assumes "build_wf lib" "kernel_sane k" "dns_inv nm (fst st)" "cache_ok (dn_cache (fst st))" "kept nm (fst st)"
    and run: "dns_step k lib nm table st ev = Inr st'"
  shows "kept nm (fst st')"
proof (cases ev)
  case (EvTtl now ch)
  with run kept_ttl [OF assms(5), of k table now ch "snd st"] show ?thesis by (auto split: prod.splits)
next
  case (EvAnswer now max_ttl data redir "def")
  with run kept_callback [OF assms(5)] show ?thesis by simp
next
  case (EvRoutes conf redir "def" upd)
  obtain dns' log' r where s: "watch_dns_routes_step k lib nm table conf redir def upd (fst st) (snd st) = (dns', log', r)"
    by (metis prod_cases3)
  from kept_routes [OF assms(1-5) s] EvRoutes run s show ?thesis by (auto split: if_splits)
next
  case (EvRetire name dest)
  with run kept_retire [OF assms(5), of k table name dest "snd st"] show ?thesis by (auto split: prod.splits)
qed

section \<open>Any sequence of events\<close>

text \<open>
  C14: no record is forgotten.  After any sequence of expiries, packets, reconfigurations and removals
  the task that expires records wakes no later than the first of them is due, and every record is of a
  name that the resolver cache matches.
\<close>

theorem no_record_forgotten:
  assumes "build_wf lib" and "kernel_sane k" and "rfoldl (dns_step k lib nm table) (dns_initial, []) evs = Inr (dns, log)"
  shows "sleeper_ok dns \<and> records_matched nm dns"
proof -
  have "dns_inv nm (fst (dns, log)) \<and> cache_ok (dn_cache (fst (dns, log))) \<and> kept nm (fst (dns, log))"
    using assms(3)
  proof (rule rfoldl_Inr_invariant)
    show "dns_inv nm (fst (dns_initial, [])) \<and> cache_ok (dn_cache (fst (dns_initial, []))) \<and> kept nm (fst (dns_initial, []))"
      by (simp add: dns_initial_def dns_inv_def cache_ok_def kept_def sleeper_ok_def records_matched_def)
  next
    fix s ev t
    assume s: "dns_inv nm (fst s) \<and> cache_ok (dn_cache (fst s)) \<and> kept nm (fst s)" and run: "dns_step k lib nm table s ev = Inr t"
    with dns_step_ok [OF assms(1,2), of nm s table ev] kept_step [OF assms(1,2) _ _ _ run]
    show "dns_inv nm (fst t) \<and> cache_ok (dn_cache (fst t)) \<and> kept nm (fst t)" by auto
  qed
  then show ?thesis by (simp add: kept_def)
qed

theorem no_record_forgotten_witness:
  "\<exists>dns log. rfoldl (dns_step silent_kernel all_libs ex_names 70000) (dns_initial, [])
      [EvRoutes ex_conf None None True, EvAnswer 0 3600 [] None None] = Inr (dns, log)
    \<and> sleeper_ok dns \<and> records_matched ex_names dns"
proof -
  obtain st where run: "rfoldl (dns_step silent_kernel all_libs ex_names 70000) (dns_initial, [])
      [EvRoutes ex_conf None None True, EvAnswer 0 3600 [] None None] = Inr st"
    using dns_run_ok [OF all_libs_wf silent_sane] by blast
  moreover obtain dns log where "st = (dns, log)" by fastforce
  ultimately show ?thesis
    using no_record_forgotten [OF all_libs_wf silent_sane] by blast
qed

end
