(* ===== verification/Tasks.thy ===== *)
theory Tasks
  imports History Daemon Dns_Kept
begin

text \<open>
  The tasks of the daemon and the channels that wake them: the loops of \<^verbatim>\<open>watch_reload\<close>, \<^verbatim>\<open>watch_routes\<close>
  and \<^verbatim>\<open>watch_multicast\<close> of \<^verbatim>\<open>netlink.rs\<close> and of \<^verbatim>\<open>watch_dns_routes\<close> of \<^verbatim>\<open>dns.rs\<close>, from one \<^verbatim>\<open>await\<close> to the next,
  as steps on the state that they share.  The runtime has one thread, so that no other task runs
  between two of them.  The two listeners that have threads of their own, for the notifications of the
  kernel and for the ring of packets, handle one notification or one packet as a step.
\<close>

section \<open>Channels\<close>

text \<open>
  A receiver has the version of the channel that it has seen; \<^verbatim>\<open>mark_unchanged\<close> sets it to the present
  one, \<^verbatim>\<open>mark_changed\<close> to none.
\<close>

definition has_changed :: "'a watch \<Rightarrow> nat option \<Rightarrow> bool" where
  "has_changed w seen \<longleftrightarrow> seen \<noteq> Some (w_version w)"

record channels =
  ch_state :: "State watch"
  ch_to_changed :: "unit watch"
  ch_routes :: "Route option watch"
  ch_default :: "Route option watch"
  ch_do_reload :: "unit watch"

text \<open>The receivers of a task, in the order of its \<^verbatim>\<open>select!\<close>.\<close>

record seen3 =
  sn_state :: "nat option"
  sn_snd :: "nat option"
  sn_trd :: "nat option"

section \<open>The state\<close>

text \<open>
  Where \<^verbatim>\<open>watch_reload\<close> waits: for a change, for the lock before the rules, for the lock before the load,
  for the answer of the helper; each with what the round has computed so far.
\<close>

datatype reload_pc = Rl_wait | Rl_rules u32 | Rl_load u32 bool string | Rl_exchange u32 string

text \<open>Where \<^verbatim>\<open>watch_dns_routes\<close> waits: for a change, for the lock.\<close>

datatype dns_pc = Dr_wait | Dr_lock bool

record tasks =
  tk_ch :: channels
  tk_log :: "nl_request list"
  tk_reload :: reload_pc
  tk_reload_seen :: seen3
  tk_routes_seen :: "nat option \<times> nat option"
  tk_dns_routes :: dns_pc
  tk_dns_seen :: seen3
  tk_ctx :: BpfCtx
  tk_bpf :: bpf_globals
  tk_sockets :: u32
  tk_attached :: "bool watch"
  tk_blocker :: "string watch"
  tk_signals :: nat
  tk_dns :: DnsState

text \<open>When \<^verbatim>\<open>run\<close> starts its tasks, with the channel of the state that was loaded.\<close>

definition tasks_init :: "State watch \<Rightarrow> nl_request list \<Rightarrow> tasks" where
  "tasks_init w log =
    \<lparr>tk_ch = \<lparr>ch_state = w, ch_to_changed = watch_send () (watch_new ()), ch_routes = watch_new None,
       ch_default = watch_new None, ch_do_reload = watch_new ()\<rparr>,
     tk_log = log, tk_reload = Rl_wait, tk_reload_seen = \<lparr>sn_state = Some 0, sn_snd = Some 0, sn_trd = Some 0\<rparr>,
     tk_routes_seen = (Some 0, Some 0),
     tk_dns_routes = Dr_wait, tk_dns_seen = \<lparr>sn_state = None, sn_snd = Some 0, sn_trd = Some 0\<rparr>,
     tk_ctx = bpf_ctx_new 0, tk_bpf = bpf_globals_zero, tk_sockets = 0, tk_attached = watch_new False,
     tk_blocker = watch_new '''', tk_signals = 0, tk_dns = dns_initial\<rparr>"

section \<open>The reload task\<close>

definition reload_seen :: "channels \<Rightarrow> seen3" where
  "reload_seen c = \<lparr>sn_state = Some (w_version (ch_state c)), sn_snd = Some (w_version (ch_routes c)),
     sn_trd = Some (w_version (ch_do_reload c))\<rparr>"

text \<open>
  From one \<^verbatim>\<open>await\<close> to the next; \<open>new_mark\<close> is what \<^verbatim>\<open>rand_table\<close> gives.  \<open>None\<close> is the end of the task or of
  the process, by an error, a loop that does not end or a failed check of the loader.
\<close>

definition reload_task ::
  "kernel \<Rightarrow> nl_lib \<Rightarrow> libs \<Rightarrow> (u32 \<Rightarrow> bool) \<Rightarrow> unit result \<Rightarrow> u32 \<Rightarrow> tasks \<Rightarrow> tasks option" where
  "reload_task k nb lib alloc iface new_mark s =
    (let c = tk_ch s; conf = w_value (ch_state c); routes = w_value (ch_routes c)
     in case tk_reload s of
          Rl_wait \<Rightarrow>
            Some (if has_changed (ch_state c) (sn_state (tk_reload_seen s)) \<or> has_changed (ch_routes c) (sn_snd (tk_reload_seen s))
                    \<or> has_changed (ch_do_reload c) (sn_trd (tk_reload_seen s))
                  then s\<lparr>tk_reload_seen := reload_seen c, tk_reload := Rl_rules new_mark\<rparr> else s)
        | Rl_rules mark \<Rightarrow>
            (let old = bc_mark (tk_ctx s); s = s\<lparr>tk_ctx := (tk_ctx s)\<lparr>bc_mark := Some mark\<rparr>\<rparr>
             in case (case old of None \<Rightarrow> Some (tk_log s, Inr ()) | Some m \<Rightarrow> clear_rules k m (tk_log s)) of
                  Some (log, Inr _) \<Rightarrow>
                    (case reload_rules k nb lib conf routes mark log of
                       Some (log, Inr (enable, blocker)) \<Rightarrow> Some (s\<lparr>tk_log := log, tk_reload := Rl_load mark enable blocker\<rparr>)
                     | _ \<Rightarrow> None)
                | _ \<Rightarrow> None)
        | Rl_load mark enable blocker \<Rightarrow>
            (case bpf_reload lib (tk_ctx s) conf enable mark of
               Inl e \<Rightarrow> None
             | Inr (ctx, bpf) \<Rightarrow>
               (case load_config alloc bpf (tk_bpf s) of
                  None \<Rightarrow> None
                | Some g \<Rightarrow> Some (s\<lparr>tk_ctx := ctx, tk_bpf := g, tk_reload := Rl_exchange mark blocker\<rparr>)))
        | Rl_exchange mark blocker \<Rightarrow>
            (case refresh_exchange mark of
               Inl e \<Rightarrow> None
             | Inr m \<Rightarrow>
               let s = s\<lparr>tk_sockets := m, tk_attached := watch_send True (tk_attached s),
                         tk_blocker := watch_send blocker (tk_blocker s)\<rparr>
               in case iface of Inl e \<Rightarrow> None
                  | Inr _ \<Rightarrow> Some (s\<lparr>tk_signals := Suc (tk_signals s), tk_reload := Rl_wait\<rparr>)))"

section \<open>The task that probes the output\<close>

definition routes_task :: "kernel \<Rightarrow> tasks \<Rightarrow> tasks option" where
  "routes_task k s =
    (let c = tk_ch s
     in if has_changed (ch_state c) (fst (tk_routes_seen s)) \<or> has_changed (ch_to_changed c) (snd (tk_routes_seen s))
        then let s = s\<lparr>tk_routes_seen := (Some (w_version (ch_state c)), Some (w_version (ch_to_changed c)))\<rparr>
             in case watch_routes_step k (w_value (ch_state c)) (w_value (ch_routes c)) (tk_log s) of
                  (log, Inl e) \<Rightarrow> None
                | (log, Inr None) \<Rightarrow> Some (s\<lparr>tk_log := log\<rparr>)
                | (log, Inr (Some r)) \<Rightarrow> Some (s\<lparr>tk_log := log, tk_ch := c\<lparr>ch_routes := watch_send r (ch_routes c)\<rparr>\<rparr>)
        else Some s)"

section \<open>Notifications of the kernel\<close>

definition multicast_task :: "kernel \<Rightarrow> nat \<Rightarrow> route_msg \<Rightarrow> link_msg \<Rightarrow> tasks \<Rightarrow> tasks option" where
  "multicast_task k message_type as_route as_link s =
    (let c = tk_ch s
     in case watch_multicast_step k (w_value (ch_state c)) (w_value (ch_default c)) (w_value (ch_routes c))
               message_type as_route as_link (tk_log s) of
          (log, Inl e) \<Rightarrow> None
        | (log, Inr out) \<Rightarrow>
          let c = (case mo_default out of None \<Rightarrow> c | Some d \<Rightarrow> c\<lparr>ch_default := watch_send d (ch_default c)\<rparr>);
              c = (if mo_to_changed out then c\<lparr>ch_to_changed := watch_send () (ch_to_changed c)\<rparr> else c)
          in Some (s\<lparr>tk_log := log, tk_ch := c\<rparr>))"

text \<open>Before its loop it looks for the default route.\<close>

definition multicast_start :: "kernel \<Rightarrow> tasks \<Rightarrow> tasks option" where
  "multicast_start k s =
    (let c = tk_ch s
     in case default_link_or_none k (st_config (w_value (ch_state c))) (tk_log s) of
          (log, Inl e) \<Rightarrow> None
        | (log, Inr d) \<Rightarrow> Some (s\<lparr>tk_log := log, tk_ch := c\<lparr>ch_default := watch_send d (ch_default c)\<rparr>\<rparr>))"

section \<open>The task that reconfigures the DNS component\<close>

definition dns_seen :: "channels \<Rightarrow> seen3" where
  "dns_seen c = \<lparr>sn_state = Some (w_version (ch_state c)), sn_snd = Some (w_version (ch_routes c)),
     sn_trd = Some (w_version (ch_default c))\<rparr>"

text \<open>
  Whichever branch of \<^verbatim>\<open>select!\<close> is taken, the caches are updated exactly when the state has changed.
\<close>

definition dns_routes_task :: "kernel \<Rightarrow> libs \<Rightarrow> names \<Rightarrow> u32 \<Rightarrow> tasks \<Rightarrow> tasks option" where
  "dns_routes_task k lib nm table s =
    (let c = tk_ch s
     in case tk_dns_routes s of
          Dr_wait \<Rightarrow>
            Some (if has_changed (ch_state c) (sn_state (tk_dns_seen s)) \<or> has_changed (ch_routes c) (sn_snd (tk_dns_seen s))
                    \<or> has_changed (ch_default c) (sn_trd (tk_dns_seen s))
                  then s\<lparr>tk_dns_routes := Dr_lock (has_changed (ch_state c) (sn_state (tk_dns_seen s))), tk_dns_seen := dns_seen c\<rparr>
                  else s)
        | Dr_lock update_caches \<Rightarrow>
            (case watch_dns_routes_step k lib nm table (w_value (ch_state c)) (w_value (ch_routes c)) (w_value (ch_default c))
                    update_caches (tk_dns s) (tk_log s) of
               (dns, log, Inl e) \<Rightarrow> None
             | (dns, log, Inr _) \<Rightarrow> Some (s\<lparr>tk_dns := dns, tk_log := log, tk_dns_routes := Dr_wait\<rparr>)))"

section \<open>Everything that happens\<close>

text \<open>
  Calls of the service: an operation on the list of matches, a change of the switch, the output and
  the configuration, \<^verbatim>\<open>force_reload\<close>, \<^verbatim>\<open>retire_dns_record\<close>; a turn of a task, the expiry and the callback
  of the DNS component among them; a hook of the eBPF program.
\<close>

datatype task_event =
    Tk_matches matches_op | Tk_settings bool string Config | Tk_force_reload
  | Tk_reload "unit result" u32 | Tk_routes | Tk_multicast nat route_msg link_msg | Tk_multicast_start | Tk_dns_routes
  | Tk_ttl nat bool | Tk_answer nat "u8 list" | Tk_retire "name option" "ipv4 option" | Tk_hook hook_event

record env =
  ev_kernel :: kernel
  ev_nl :: nl_lib
  ev_libs :: libs
  ev_names :: names
  ev_table :: u32
  ev_alloc :: "u32 \<Rightarrow> bool"
  ev_keep :: lru

definition dns_task :: "env \<Rightarrow> dns_event \<Rightarrow> tasks \<Rightarrow> tasks option" where
  "dns_task v e s =
    (case dns_step (ev_kernel v) (ev_libs v) (ev_names v) (ev_table v) (tk_dns s, tk_log s) e of
       Inl e \<Rightarrow> None
     | Inr (dns, log) \<Rightarrow> Some (s\<lparr>tk_dns := dns, tk_log := log\<rparr>))"

fun task_step :: "env \<Rightarrow> task_event \<Rightarrow> tasks \<Rightarrow> tasks option" where
  "task_step v (Tk_matches a) s =
    (let c = tk_ch s; st = w_value (ch_state c)
     in case matches_step (ev_libs v) (st_matches st) a of
          (ms, Inl e) \<Rightarrow> Some (s\<lparr>tk_ch := c\<lparr>ch_state := (ch_state c)\<lparr>w_value := st\<lparr>st_matches := ms\<rparr>\<rparr>\<rparr>\<rparr>)
        | (ms, Inr _) \<Rightarrow> Some (s\<lparr>tk_ch := c\<lparr>ch_state := watch_send (st\<lparr>st_matches := ms\<rparr>) (ch_state c)\<rparr>\<rparr>))"
| "task_step v (Tk_settings enable to_dev config) s =
    (let c = tk_ch s; st = w_value (ch_state c)
     in Some (s\<lparr>tk_ch := c\<lparr>ch_state := watch_send (st\<lparr>st_enable := enable, st_to_dev := to_dev, st_config := config\<rparr>) (ch_state c)\<rparr>\<rparr>))"
| "task_step v Tk_force_reload s =
    (let c = tk_ch s in Some (s\<lparr>tk_ch := c\<lparr>ch_do_reload := watch_send () (ch_do_reload c)\<rparr>\<rparr>))"
| "task_step v (Tk_reload iface mark) s = reload_task (ev_kernel v) (ev_nl v) (ev_libs v) (ev_alloc v) iface mark s"
| "task_step v Tk_routes s = routes_task (ev_kernel v) s"
| "task_step v (Tk_multicast t as_route as_link) s = multicast_task (ev_kernel v) t as_route as_link s"
| "task_step v Tk_multicast_start s = multicast_start (ev_kernel v) s"
| "task_step v Tk_dns_routes s = dns_routes_task (ev_kernel v) (ev_libs v) (ev_names v) (ev_table v) s"
| "task_step v (Tk_ttl now changed) s =
    (case watch_dns_ttl_step (ev_kernel v) (ev_names v) (ev_table v) now changed (tk_dns s) (tk_log s) of
       (dns, log, Inl e) \<Rightarrow> None
     | (dns, log, Inr _) \<Rightarrow> Some (s\<lparr>tk_dns := dns, tk_log := log\<rparr>))"
| "task_step v (Tk_answer now data) s =
    (let c = tk_ch s
     in dns_task v (EvAnswer now (c_dns_max_ttl_sec (st_config (w_value (ch_state c)))) data (w_value (ch_routes c)) (w_value (ch_default c))) s)"
| "task_step v (Tk_retire name dest) s = dns_task v (EvRetire name dest) s"
| "task_step v (Tk_hook e) s = Some (s\<lparr>tk_bpf := fst (hook_step (needs_mark (ev_alloc v) (ev_keep v)) e (tk_bpf s))\<rparr>)"

fun task_run :: "env \<Rightarrow> task_event list \<Rightarrow> tasks \<Rightarrow> tasks option" where
  "task_run v [] s = Some s"
| "task_run v (e # es) s = Option.bind (task_step v e s) (task_run v es)"

text \<open>Every task waits and nothing has changed that it waits for.\<close>

definition at_rest :: "tasks \<Rightarrow> bool" where
  "at_rest s \<longleftrightarrow> tk_reload s = Rl_wait \<and> tk_reload_seen s = reload_seen (tk_ch s)
    \<and> tk_routes_seen s = (Some (w_version (ch_state (tk_ch s))), Some (w_version (ch_to_changed (tk_ch s))))
    \<and> tk_dns_routes s = Dr_wait \<and> tk_dns_seen s = dns_seen (tk_ch s)"

end
