(* ===== verification/Requests.thy ===== *)
theory Requests
  imports Dns_Correct Reload_Correct
begin

text \<open>
  Who requests what.  The task of the reload is the only one that touches rules, and routes outside the
  table of the DNS component; the probes, the notifications and the DNS component only read, or keep to
  that table.
\<close>

section \<open>Logs that grow\<close>

definition log_by :: "(nl_request \<Rightarrow> bool) \<Rightarrow> nl_request list \<Rightarrow> nl_request list \<Rightarrow> bool" where
  "log_by P log log' \<longleftrightarrow> (\<exists>new. log' = log @ new \<and> list_all P new)"

lemma log_by_refl [simp, intro]: "log_by P log log"
  by (simp add: log_by_def)

lemma log_by_trans [trans]: "log_by P a b \<Longrightarrow> log_by P b c \<Longrightarrow> log_by P a c"
  by (auto simp: log_by_def)

lemma log_by_mono: "log_by P a b \<Longrightarrow> (\<And>r. P r \<Longrightarrow> Q r) \<Longrightarrow> log_by Q a b"
  unfolding log_by_def list_all_iff by blast

lemma log_by_io: "io_sends P m \<Longrightarrow> m log = (log', r) \<Longrightarrow> log_by P log log'"
  by (auto simp: log_by_def dest: io_sendsD)

lemma log_by_fst: "io_sends P m \<Longrightarrow> log_by P log (fst (m log))"
  by (cases "m log") (simp add: log_by_io)

lemma log_by_oio: "oio_sends P m \<Longrightarrow> m log = Some (log', r) \<Longrightarrow> log_by P log log'"
  by (auto simp: log_by_def oio_sends_def)

section \<open>The DNS table\<close>

text \<open>Requests that read, or add and delete routes of \<open>table\<close>.\<close>

fun spares :: "u32 \<Rightarrow> nl_request \<Rightarrow> bool" where
  "spares table (ReqNewRoute r) = (q_table r = Some table)"
| "spares table (ReqDelRoute r) = (q_table r = Some table)"
| "spares table (ReqNewRule r) = False"
| "spares table (ReqDelRule r) = False"
| "spares table (ReqRaw t buf) = False"
| "spares table (ReqNftBatch g t c op) = False"
| "spares table _ = True"

lemma get_link_spares: "io_sends (spares table) (get_link k dev)"
  unfolding get_link_def Let_def by (intro io_sends_intros) simp_all

lemma watch_routes_spares: "io_sends (spares table) (watch_routes_step k conf r)"
  unfolding watch_routes_step_def
  by (intro io_sends_bind io_sends_try get_link_spares) (auto split: sum.split intro!: io_sends_intros)

lemma default_link_spares: "io_sends (spares table) (default_link_or_none k config)"
proof -
  have "io_sends (spares table) (get_default_link k config)"
    unfolding get_default_link_def Let_def by (intro io_sends_intros io_sends_case_option) simp_all
  then show ?thesis
    unfolding default_link_or_none_def by (intro io_sends_intros)
qed

lemma watch_multicast_spares: "io_sends (spares table) (watch_multicast_step k state d r ty as_route as_link)"
  unfolding watch_multicast_step_def multicast_newroute_def Let_def
  by (auto intro!: io_sends_intros default_link_spares)

section \<open>The DNS component\<close>

lemma clear_table_spares: "io_sends (spares table) (clear_table k table)"
  unfolding clear_table_def
  by (intro io_sends_intros) (simp_all add: dump_table_req_def del_route_req_def)

lemma remove_record_spares: "io_sends (spares table) (remove_record k table r)"
  unfolding remove_record_def by (intro io_sends_intros) (simp add: del_record_req_def)

lemma setup_record_spares: "io_sends (spares table) (setup_record k table redir def r dir)"
  unfolding setup_record_def
  by (intro io_sends_case_option io_sends_intros) (simp add: add_record_req_def)

lemma setup_all_spares: "io_sends (spares table) (setup_all k nm table redir def c rs)"
  by (induction rs)
    (auto intro!: io_sends_intros io_sends_case_option setup_record_spares split: prod.split)

lemma ttl_sweep_spares: "log_by (spares table) log (fst (snd (ttl_sweep k nm table now dns log)))"
proof (induction "size (filter_mset (due now) (mset (dn_heap dns)))" arbitrary: dns log rule: less_induct)
  case less
  show ?case
  proof (cases rule: ttl_sweep_cases [of k nm table now dns log])
    case stop
    then show ?thesis by simp
  next
    case (renew r H t dns')
    with less.hyps [of dns' log] size_due_renewed [of now r t H] renewal_later [OF renew(3)] show ?thesis by simp
  next
    case (drop_ok r H dns' log')
    with less.hyps [of dns' log'] log_by_io [OF remove_record_spares, of k table r log log'] show ?thesis
      by (auto intro: log_by_trans)
  next
    case (drop_err r H dns' log' e)
    with log_by_io [OF remove_record_spares, of k table r log log'] show ?thesis by simp
  qed
qed

lemma watch_dns_ttl_spares: "watch_dns_ttl_step k nm table now ch dns log = (dns', log', r) \<Longrightarrow> log_by (spares table) log log'"
  using ttl_sweep_spares [of table log k nm now dns]
  by (auto simp: watch_dns_ttl_step_def split: option.splits prod.splits sum.splits if_splits)

lemma retain_records_spares:
  "log_by (spares table) log (snd (snd (snd (retain_records k nm table name dest rs hash log))))"
proof (induction rs arbitrary: hash log)
  case (Cons r rs)
  then show ?case
    using log_by_trans [OF log_by_fst [OF remove_record_spares, of table log k r]]
    by (auto split: prod.split) (metis snd_conv)+
qed simp

lemma remove_records_spares: "remove_records k nm table name dest dns log = (dns', log', b) \<Longrightarrow> log_by (spares table) log log'"
  using retain_records_spares [of table log k nm name dest "dn_heap dns" "dn_hash dns"]
  by (auto simp: remove_records_def split: prod.splits)

lemma parse_answer_spares:
  assumes "parse_answer k nm table redir def now max_ttl st a = Inr st'"
  shows "log_by (spares table) (snd st) (snd st')"
proof (cases "an_a a")
  case None
  with assms show ?thesis by (simp add: parse_answer_def)
next
  case (Some dest)
  with assms obtain hit where hit: "dns_cache_get (dn_cache (fst st)) (nm_show nm (nm_fqdn nm (an_name a))) = Inr hit"
    by (auto simp: parse_answer_def Let_def rbind_eq_Inr)
  show ?thesis
    by (cases hit)
      (use assms Some hit in \<open>auto simp: parse_answer_def Let_def log_by_fst [OF setup_record_spares] split: if_split_asm\<close>)
qed

lemma dns_callback_spares:
  assumes "dns_callback k nm table redir def now max_ttl data st = Inr st'"
  shows "log_by (spares table) (snd st) (snd st')"
proof (cases "dns_parse k nm table redir def now max_ttl data st")
  case (Inl e)
  with assms show ?thesis by (auto simp: dns_callback_def split: if_splits)
next
  case (Inr st1)
  with assms obtain as where "rfoldl (parse_answer k nm table redir def now max_ttl) st as = Inr st'"
    by (auto simp: dns_callback_def dns_parse_def split: sum.splits if_splits)
  then show ?thesis
    by (rule rfoldl_Inr_invariant [where P = "\<lambda>st'. log_by (spares table) (snd st) (snd st')"])
      (auto intro: log_by_trans parse_answer_spares)
qed

lemma watch_dns_routes_spares:
  assumes "watch_dns_routes_step k lib nm table conf redir def upd dns log = (dns', log', r)"
  shows "log_by (spares table) log log'"
proof -
  have "io_sends (spares table) (io_bind (clear_table k table) (\<lambda>_.
      if st_enable conf then setup_all k nm table redir def c heap else io_ret ()))" for c heap
    by (intro io_sends_intros clear_table_spares setup_all_spares)
  then show ?thesis
    using assms by (auto simp: watch_dns_routes_step_def Let_def split: sum.splits prod.splits dest: log_by_io)
qed

lemma dns_step_spares:
  assumes "dns_step k lib nm table st e = Inr st'"
  shows "log_by (spares table) (snd st) (snd st')"
proof (cases e)
  case (EvAnswer now max_ttl data redir "def")
  with assms dns_callback_spares show ?thesis by simp
qed (use assms in \<open>auto split: prod.splits if_splits
      dest: watch_dns_ttl_spares remove_records_spares watch_dns_routes_spares\<close>)

section \<open>The reload\<close>

text \<open>A round keeps the log that it was given.\<close>

lemma clear_rules_grows: "clear_rules k mark log = Some (log', r) \<Longrightarrow> log_by (\<lambda>_. True) log log'"
  using oio_stepsD [OF clear_rules_cleans, of k mark log log' r] by (auto simp: log_by_def list_all_iff)

lemma reload_rules_grows: "reload_rules k nb lib conf routes mark log = Some (log', r) \<Longrightarrow> log_by (\<lambda>_. True) log log'"
  using log_by_oio [OF reload_rules_owned] by (rule log_by_mono) simp_all

end
