(* ===== verification/Tasks_Correct.thy ===== *)
theory Tasks_Correct
  imports Tasks Requests
begin

text \<open>
  No wake-up is lost: in any order of calls, turns of the tasks, packets and hooks, a daemon whose tasks
  have nothing left to do is in the state that its switch, output and list of matches ask for; and how
  many turns it takes to get there.
\<close>

section \<open>What each task leaves behind\<close>

text \<open>
  The log of requests of a daemon that was started with the log \<open>init\<close> and whose rules now carry the mark
  \<open>old\<close>: rounds of the reload, each of which removes what belongs to the mark of the round before and then
  requests rules and routes for its own, and between them requests of the other tasks, which only read or
  keep to the table of the DNS component.
\<close>

definition cleared :: "env \<Rightarrow> u32 option \<Rightarrow> nl_request list \<Rightarrow> nl_request list \<Rightarrow> bool" where
  "cleared v old log log' \<longleftrightarrow>
    (case old of None \<Rightarrow> Some (log, Inr ()) | Some m \<Rightarrow> clear_rules (ev_kernel v) m log) = Some (log', Inr ())"

inductive rules_log :: "env \<Rightarrow> nl_request list \<Rightarrow> u32 option \<Rightarrow> nl_request list \<Rightarrow> bool" for v init where
  started: "rules_log v init None init"
| others: "rules_log v init old log \<Longrightarrow> log_by (spares (ev_table v)) log log' \<Longrightarrow> rules_log v init old log'"
| reloaded: "rules_log v init old log \<Longrightarrow> cleared v old log log1 \<Longrightarrow>
    reload_rules (ev_kernel v) (ev_nl v) (ev_libs v) st r mark log1 = Some (log2, Inr (enable, blocker)) \<Longrightarrow>
    rules_log v init (Some mark) log2"

text \<open>
  In the log of the daemon, the last round removed the rules of the round before it and requested those
  of this list and output for the mark, with this outcome for the program and the blocker.
\<close>

definition rules_done :: "env \<Rightarrow> nl_request list \<Rightarrow> nl_request list \<Rightarrow> State \<Rightarrow> Route option \<Rightarrow> u32 \<Rightarrow> bool \<Rightarrow> string \<Rightarrow> bool" where
  "rules_done v init log st r mark enable blocker \<longleftrightarrow>
    (\<exists>old log0 log1 log2. rules_log v init old log0 \<and> cleared v old log0 log1 \<and>
      reload_rules (ev_kernel v) (ev_nl v) (ev_libs v) st r mark log1 = Some (log2, Inr (enable, blocker)) \<and>
      log_by (spares (ev_table v)) log2 log)"

lemma rules_done_later:
  "rules_done v init log st r m e b \<Longrightarrow> log_by (spares (ev_table v)) log log' \<Longrightarrow> rules_done v init log' st r m e b"
  unfolding rules_done_def by (blast intro: log_by_trans)

definition config_done :: "State \<Rightarrow> u32 \<Rightarrow> bool \<Rightarrow> bpf_globals \<Rightarrow> bool" where
  "config_done st mark enable g \<longleftrightarrow> bf_mark (bg_config g) = mark \<and> bf_enable (bg_config g) = enable
    \<and> bf_enable_dns (bg_config g) = (enable \<and> 0 < sint (ms_dns_count (st_matches st)))"

text \<open>The channel holds what a probe of the device found, whose requests are in the log.\<close>

definition probed :: "env \<Rightarrow> string \<Rightarrow> Route option \<Rightarrow> nl_request list \<Rightarrow> bool" where
  "probed v dev r log \<longleftrightarrow>
    (\<exists>log0 log1 res. get_link (ev_kernel v) dev log0 = (log1, res) \<and> log_by (\<lambda>_. True) log1 log \<and>
      r = (case res of Inl e \<Rightarrow> None | Inr l \<Rightarrow> Some l))"

lemma probed_later: "probed v dev r log \<Longrightarrow> log_by (\<lambda>_. True) log log' \<Longrightarrow> probed v dev r log'"
  unfolding probed_def by (blast intro: log_by_trans)

lemma log_by_any: "log_by P log log' \<Longrightarrow> log_by (\<lambda>_. True) log log'"
  by (rule log_by_mono) simp_all

text \<open>The cache is that of the list.\<close>

definition cache_of :: "env \<Rightarrow> State \<Rightarrow> DnsCache \<Rightarrow> bool" where
  "cache_of v st c \<longleftrightarrow> (\<exists>c'. c = dns_cache_update (ev_libs v) c' (st_matches st))"

section \<open>Invariants\<close>

definition fresh :: "tasks \<Rightarrow> bool" where
  "fresh s \<longleftrightarrow> sn_state (tk_reload_seen s) = Some (w_version (ch_state (tk_ch s)))
    \<and> sn_snd (tk_reload_seen s) = Some (w_version (ch_routes (tk_ch s)))"

definition force_done :: "env \<Rightarrow> State \<Rightarrow> bpf_globals \<Rightarrow> bool" where
  "force_done v st g \<longleftrightarrow> (ms_generation (st_matches st) \<noteq> 0 \<longrightarrow> in_force (ev_libs v) (st_matches st) g)"

text \<open>
  The reload: whatever it has computed with values that are still the present ones is what those values
  ask for.  The channels are marked as seen before they are read.
\<close>

definition done_with :: "env \<Rightarrow> nl_request list \<Rightarrow> tasks \<Rightarrow> u32 \<Rightarrow> string \<Rightarrow> bool" where
  "done_with v init s m b \<longleftrightarrow>
    (\<exists>e. rules_done v init (tk_log s) (w_value (ch_state (tk_ch s))) (w_value (ch_routes (tk_ch s))) m e b
      \<and> config_done (w_value (ch_state (tk_ch s))) m e (tk_bpf s) \<and> force_done v (w_value (ch_state (tk_ch s))) (tk_bpf s))"

definition reload_inv :: "env \<Rightarrow> nl_request list \<Rightarrow> tasks \<Rightarrow> bool" where
  "reload_inv v init s \<longleftrightarrow>
    (case tk_reload s of
       Rl_rules m \<Rightarrow> True
     | Rl_load m e b \<Rightarrow> bc_mark (tk_ctx s) = Some m \<and>
         (fresh s \<longrightarrow> rules_done v init (tk_log s) (w_value (ch_state (tk_ch s))) (w_value (ch_routes (tk_ch s))) m e b)
     | Rl_exchange m b \<Rightarrow> bc_mark (tk_ctx s) = Some m \<and> (fresh s \<longrightarrow> done_with v init s m b)
     | Rl_wait \<Rightarrow> sn_snd (tk_reload_seen s) = Some 0 \<or> w_value (tk_attached s) \<and> bc_mark (tk_ctx s) = Some (tk_sockets s) \<and>
         (fresh s \<longrightarrow> done_with v init s (tk_sockets s) (w_value (tk_blocker s))))"

definition routes_inv :: "env \<Rightarrow> tasks \<Rightarrow> bool" where
  "routes_inv v s \<longleftrightarrow>
    w_version (ch_to_changed (tk_ch s)) \<noteq> 0 \<and>
    (w_value (ch_routes (tk_ch s)) \<noteq> None \<or> snd (tk_routes_seen s) \<noteq> Some 0 \<longrightarrow> w_version (ch_routes (tk_ch s)) \<noteq> 0) \<and>
    (fst (tk_routes_seen s) = Some (w_version (ch_state (tk_ch s))) \<and> snd (tk_routes_seen s) \<noteq> Some 0 \<longrightarrow>
      probed v (st_to_dev (w_value (ch_state (tk_ch s)))) (w_value (ch_routes (tk_ch s))) (tk_log s))"

definition dns_task_inv :: "env \<Rightarrow> tasks \<Rightarrow> bool" where
  "dns_task_inv v s \<longleftrightarrow> dns_inv (ev_names v) (tk_dns s) \<and> cache_ok (dn_cache (tk_dns s)) \<and> kept (ev_names v) (tk_dns s) \<and>
    (sn_state (tk_dns_seen s) = Some (w_version (ch_state (tk_ch s))) \<and> tk_dns_routes s \<noteq> Dr_lock True \<longrightarrow>
      cache_of v (w_value (ch_state (tk_ch s))) (dn_cache (tk_dns s)))"

definition list_inv :: "env \<Rightarrow> u64 \<Rightarrow> nat \<Rightarrow> tasks \<Rightarrow> bool" where
  "list_inv v g0 k s \<longleftrightarrow> tracks (ev_libs v) g0 k (w_value (ch_state (tk_ch s)), tk_ctx s, tk_bpf s)"

definition log_inv :: "env \<Rightarrow> nl_request list \<Rightarrow> tasks \<Rightarrow> bool" where
  "log_inv v init s \<longleftrightarrow> rules_log v init (bc_mark (tk_ctx s)) (tk_log s)"

text \<open>A receiver has seen nothing that was not sent.\<close>

definition seen_inv :: "tasks \<Rightarrow> bool" where
  "seen_inv s \<longleftrightarrow>
    (\<forall>n. sn_state (tk_reload_seen s) = Some n \<longrightarrow> n \<le> w_version (ch_state (tk_ch s))) \<and>
    (\<forall>n. sn_snd (tk_reload_seen s) = Some n \<longrightarrow> n \<le> w_version (ch_routes (tk_ch s))) \<and>
    (\<forall>n. fst (tk_routes_seen s) = Some n \<longrightarrow> n \<le> w_version (ch_state (tk_ch s))) \<and>
    (\<forall>n. sn_state (tk_dns_seen s) = Some n \<longrightarrow> n \<le> w_version (ch_state (tk_ch s)))"

text \<open>What the tasks share is kept by any step that leaves these parts alone and spares the rules.\<close>

lemma reload_inv_later:
  assumes "ch_state (tk_ch t) = ch_state (tk_ch s)" "ch_routes (tk_ch t) = ch_routes (tk_ch s)"
    "tk_reload t = tk_reload s" "tk_reload_seen t = tk_reload_seen s" "tk_ctx t = tk_ctx s"
    "tk_sockets t = tk_sockets s" "tk_attached t = tk_attached s" "tk_blocker t = tk_blocker s" "tk_bpf t = tk_bpf s"
    and log: "log_by (spares (ev_table v)) (tk_log s) (tk_log t)" and inv: "reload_inv v init s"
  shows "reload_inv v init t"
proof -
  have fresh: "fresh t = fresh s" unfolding fresh_def assms ..
  have "done_with v init t m b" if "done_with v init s m b" for m b
    using that rules_done_later [OF _ log] unfolding done_with_def assms(1,2,9) by blast
  then show ?thesis
    using inv rules_done_later [OF _ log] unfolding reload_inv_def fresh assms(1-8) by (auto split: reload_pc.splits)
qed

lemma log_inv_later:
  "tk_ctx t = tk_ctx s \<Longrightarrow> log_by (spares (ev_table v)) (tk_log s) (tk_log t) \<Longrightarrow> log_inv v init s \<Longrightarrow> log_inv v init t"
  unfolding log_inv_def by (auto intro: others)

lemma rules_done_blocker:
  "rules_done v init log st r m e b \<Longrightarrow> e = fst (reload_blocker st r)
    \<and> b = snd (reload_blocker st r) @ (if \<not> e \<and> snd (reload_blocker st r) \<noteq> '''' \<and> c_drop_egress_without_output (st_config st)
        then '' (dropping traffic)'' else '''')"
  unfolding rules_done_def by (elim exE conjE) (rule reload_rules_ok)

lemma tracks_cong:
  "st_matches st' = st_matches st \<Longrightarrow> bc_last_gen ctx' = bc_last_gen ctx \<Longrightarrow> bc_arena ctx' = bc_arena ctx \<Longrightarrow>
    tracks lib g0 k (st', ctx', g) = tracks lib g0 k (st, ctx, g)"
  by (simp add: tracks_def synced_def)

lemma tracks_mono:
  assumes "tracks lib g0 k (st, ctx, g)"
  shows "tracks lib g0 (Suc k) (st, ctx, g)"
  using assms by (rule tracksE) (blast intro: tracksI le_SucI)

section \<open>A change of the state\<close>

lemma send_state_inv:
  fixes st :: State
  assumes "reload_inv v init s" "routes_inv v s" "dns_task_inv v s" "seen_inv s"
  defines "t \<equiv> s\<lparr>tk_ch := (tk_ch s)\<lparr>ch_state := watch_send st (ch_state (tk_ch s))\<rparr>\<rparr>"
  shows "reload_inv v init t \<and> routes_inv v t \<and> dns_task_inv v t \<and> seen_inv t"
proof -
  have "\<not> fresh t" "fst (tk_routes_seen t) \<noteq> Some (w_version (ch_state (tk_ch t)))"
    "sn_state (tk_dns_seen t) \<noteq> Some (w_version (ch_state (tk_ch t)))"
    using assms(4) by (auto simp: t_def fresh_def seen_inv_def watch_send_def)
  moreover have "seen_inv t" using assms(4) by (auto simp: t_def seen_inv_def watch_send_def le_SucI)
  ultimately show ?thesis
    using assms(1-3) by (auto simp: t_def reload_inv_def routes_inv_def dns_task_inv_def watch_send_def split: reload_pc.splits)
qed

text \<open>All of them, after \<open>k\<close> events.\<close>

definition tasks_inv :: "env \<Rightarrow> nl_request list \<Rightarrow> u64 \<Rightarrow> nat \<Rightarrow> tasks \<Rightarrow> bool" where
  "tasks_inv v init g0 k s \<longleftrightarrow>
    reload_inv v init s \<and> routes_inv v s \<and> dns_task_inv v s \<and> seen_inv s \<and> list_inv v g0 k s \<and> log_inv v init s"

lemma tasks_inv_settings:
  assumes "tasks_inv v init g0 k s" and "task_step v (Tk_settings enable to_dev config) s = Some t"
  shows "tasks_inv v init g0 (Suc k) t"
proof -
  let ?st = "w_value (ch_state (tk_ch s))\<lparr>st_enable := enable, st_to_dev := to_dev, st_config := config\<rparr>"
  have t: "t = s\<lparr>tk_ch := (tk_ch s)\<lparr>ch_state := watch_send ?st (ch_state (tk_ch s))\<rparr>\<rparr>"
    using assms(2) by (simp add: Let_def)
  have "list_inv v g0 (Suc k) t"
    using assms(1) tracks_mono tracks_cong [of ?st "w_value (ch_state (tk_ch s))"]
    by (simp add: t tasks_inv_def list_inv_def watch_send_def)
  with assms(1) send_state_inv [of v init s ?st] show ?thesis
    by (simp add: tasks_inv_def log_inv_def t)
qed

lemma tasks_inv_matches:
  assumes wf: "build_wf (ev_libs v)" and inv: "tasks_inv v init g0 k s" and step: "task_step v (Tk_matches a) s = Some t"
  shows "tasks_inv v init g0 (Suc k) t"
proof (rule mtx.step_cases [OF wf, of "st_matches (w_value (ch_state (tk_ch s)))" a])
  fix e assume "matches_step (ev_libs v) (st_matches (w_value (ch_state (tk_ch s)))) a = (st_matches (w_value (ch_state (tk_ch s))), Inl e)"
  with step have "t = s" by simp
  with inv tracks_mono show ?thesis by (auto simp: tasks_inv_def list_inv_def)
next
  let ?st = "w_value (ch_state (tk_ch s))"
  fix ms assume m: "matches_step (ev_libs v) (st_matches ?st) a = (ms, Inr ())"
  with step have t: "t = s\<lparr>tk_ch := (tk_ch s)\<lparr>ch_state := watch_send (?st\<lparr>st_matches := ms\<rparr>) (ch_state (tk_ch s))\<rparr>\<rparr>"
    by (simp add: Let_def)
  have "list_inv v g0 (Suc k) t"
    using inv tracks_op [OF wf, of g0 k ?st "tk_ctx s" "tk_bpf s" a] m
    by (simp add: t tasks_inv_def list_inv_def watch_send_def)
  with inv send_state_inv [of v init s "?st\<lparr>st_matches := ms\<rparr>"] show ?thesis
    by (simp add: tasks_inv_def log_inv_def t)
qed

section \<open>Turns of the tasks\<close>

lemma fresh_seen [simp]: "fresh (s\<lparr>tk_reload_seen := reload_seen (tk_ch s), tk_reload := pc\<rparr>)"
  by (simp add: fresh_def reload_seen_def)

lemma tasks_inv_reload:
  assumes wf: "build_wf (ev_libs v)" "pages_free (ev_alloc v)" and bound: "unat g0 + k < 2 ^ 64"
    and inv: "tasks_inv v init g0 k s" and step: "task_step v (Tk_reload iface mark) s = Some t"
  shows "tasks_inv v init g0 (Suc k) t"
proof -
  have lst: "tracks (ev_libs v) g0 k (w_value (ch_state (tk_ch s)), tk_ctx s, tk_bpf s)"
    using inv by (simp add: tasks_inv_def list_inv_def)
  have al: "align_wf (l_align (ev_libs v))" using wf(1) unfolding build_wf_def by blast
  have other: "routes_inv v t \<and> dns_task_inv v t"
    if "log_by (\<lambda>_. True) (tk_log s) (tk_log t)" "tk_ch t = tk_ch s" "tk_routes_seen t = tk_routes_seen s" "tk_dns t = tk_dns s" "tk_dns_seen t = tk_dns_seen s"
      "tk_dns_routes t = tk_dns_routes s"
    using inv that probed_later by (auto simp: tasks_inv_def routes_inv_def dns_task_inv_def)
  show ?thesis
  proof (cases "tk_reload s")
    case Rl_wait
    let ?c = "tk_ch s"
    show ?thesis
    proof (cases "t = s")
      case True
      with inv tracks_mono show ?thesis by (auto simp: tasks_inv_def list_inv_def)
    next
      case False
      then have t: "t = s\<lparr>tk_reload_seen := reload_seen ?c, tk_reload := Rl_rules mark\<rparr>"
        using step Rl_wait by (auto simp: reload_task_def Let_def split: if_splits)
      from inv other lst tracks_mono show ?thesis
        by (simp add: t log_inv_def tasks_inv_def reload_inv_def seen_inv_def list_inv_def reload_seen_def)
    qed
  next
    case (Rl_rules m)
    let ?st = "w_value (ch_state (tk_ch s))" and ?r = "w_value (ch_routes (tk_ch s))"
    obtain log1 log2 e b where clear: "cleared v (bc_mark (tk_ctx s)) (tk_log s) log1"
      and rules: "reload_rules (ev_kernel v) (ev_nl v) (ev_libs v) ?st ?r m log1 = Some (log2, Inr (e, b))"
      and t: "t = s\<lparr>tk_ctx := (tk_ctx s)\<lparr>bc_mark := Some m\<rparr>, tk_log := log2, tk_reload := Rl_load m e b\<rparr>"
      using step Rl_rules by (auto simp: reload_task_def cleared_def Let_def split: option.splits sum.splits prod.splits)
    have before: "rules_log v init (bc_mark (tk_ctx s)) (tk_log s)"
      using inv by (simp add: tasks_inv_def log_inv_def)
    have "rules_done v init log2 ?st ?r m e b"
      using before clear rules unfolding rules_done_def by blast
    moreover have "log_inv v init t"
      using reloaded [OF before clear rules] by (simp add: t log_inv_def)
    moreover have "list_inv v g0 (Suc k) t"
      using tracks_mono [OF lst] tracks_cong [of _ _ "(tk_ctx s)\<lparr>bc_mark := Some m\<rparr>" "tk_ctx s"] by (simp add: t list_inv_def)
    moreover have "log_by (\<lambda>_. True) (tk_log s) log1"
      using clear clear_rules_grows by (auto simp: cleared_def split: option.splits)
    then have "log_by (\<lambda>_. True) (tk_log s) (tk_log t)"
      using log_by_trans [OF _ reload_rules_grows [OF rules]] by (simp add: t)
    ultimately show ?thesis
      using inv other by (simp add: t tasks_inv_def reload_inv_def seen_inv_def)
  next
    case (Rl_load m e b)
    let ?st = "w_value (ch_state (tk_ch s))"
    obtain ctx bpf g where run: "bpf_reload (ev_libs v) (tk_ctx s) ?st e m = Inr (ctx, bpf)" "load_config (ev_alloc v) bpf (tk_bpf s) = Some g"
      and t: "t = s\<lparr>tk_ctx := ctx, tk_bpf := g, tk_reload := Rl_exchange m b\<rparr>"
      using step Rl_load by (auto simp: reload_task_def Let_def split: option.splits sum.splits prod.splits)
    have ev: "event_step (ev_libs v) (ev_alloc v) keep (EvReload e m) (?st, tk_ctx s, tk_bpf s) = Some (?st, ctx, g)" for keep
      using run by simp
    from tracks_reload [OF al wf(2) lst bound ev]
    have new: "tracks (ev_libs v) g0 (Suc k) (?st, ctx, g)" "force_done v ?st g"
      by (simp_all add: force_done_def)
    have g: "bg_config g = bpf" using lst load_synced [OF _ run] by (auto elim: tracksE)
    have "config_done ?st m e g" "bc_mark ctx = bc_mark (tk_ctx s)"
      using bpf_reload_ok [OF run(1)] by (simp_all add: config_done_def g)
    moreover have "fresh t = fresh s" by (simp add: t fresh_def)
    ultimately show ?thesis
      using inv other new Rl_load by (auto simp: t log_inv_def tasks_inv_def reload_inv_def seen_inv_def list_inv_def done_with_def)
  next
    case (Rl_exchange m b)
    then have t: "t = s\<lparr>tk_sockets := m, tk_attached := watch_send True (tk_attached s), tk_blocker := watch_send b (tk_blocker s),
        tk_signals := Suc (tk_signals s), tk_reload := Rl_wait\<rparr>"
      using step by (auto simp: reload_task_def Let_def split: sum.splits)
    moreover have "fresh t = fresh s" by (simp add: t fresh_def)
    ultimately show ?thesis
      using inv other Rl_exchange tracks_mono [OF lst]
      by (auto simp: log_inv_def tasks_inv_def reload_inv_def seen_inv_def list_inv_def done_with_def watch_send_def)
  qed
qed

text \<open>The probe: \<open>None\<close> leaves the channel, which then holds what was found.\<close>

lemma watch_routes_step_ok:
  assumes "watch_routes_step (ev_kernel v) conf r log = (log', Inr out)"
  shows "probed v (st_to_dev conf) (case out of None \<Rightarrow> r | Some r' \<Rightarrow> r') log' \<and> (out = None \<longrightarrow> r \<noteq> None)"
proof -
  obtain log1 res where g: "get_link (ev_kernel v) (st_to_dev conf) log = (log1, res)" by fastforce
  then have p: "probed v (st_to_dev conf) (case res of Inl e \<Rightarrow> None | Inr l \<Rightarrow> Some l) log1"
    unfolding probed_def by blast
  show ?thesis
    using assms p by (auto simp: watch_routes_step_def io_bind_def io_try_def io_ret_def g split: if_splits sum.splits)
qed

lemma tasks_inv_routes:
  assumes inv: "tasks_inv v init g0 k s" and step: "task_step v Tk_routes s = Some t"
  shows "tasks_inv v init g0 (Suc k) t"
proof (cases "t = s")
  case True
  with inv tracks_mono show ?thesis by (auto simp: tasks_inv_def list_inv_def)
next
  case False
  let ?c = "tk_ch s"
  obtain log out where w: "watch_routes_step (ev_kernel v) (w_value (ch_state ?c)) (w_value (ch_routes ?c)) (tk_log s) = (log, Inr out)"
    and t: "t = s\<lparr>tk_routes_seen := (Some (w_version (ch_state ?c)), Some (w_version (ch_to_changed ?c))), tk_log := log,
      tk_ch := (case out of None \<Rightarrow> ?c | Some r \<Rightarrow> ?c\<lparr>ch_routes := watch_send r (ch_routes ?c)\<rparr>)\<rparr>"
    using step False by (auto simp: routes_task_def Let_def split: if_splits prod.splits sum.splits option.splits)
  have lst: "list_inv v g0 (Suc k) t"
    using inv tracks_mono by (auto simp: t tasks_inv_def list_inv_def split: option.split)
  have log: "log_by (spares (ev_table v)) (tk_log s) (tk_log t)"
    using log_by_io [OF watch_routes_spares w] by (simp add: t)
  have log': "log_inv v init t"
    using inv log_inv_later [of t s, OF _ log] by (simp add: t tasks_inv_def)
  have other: "dns_task_inv v t" "seen_inv t"
    using inv by (auto simp: t tasks_inv_def dns_task_inv_def seen_inv_def watch_send_def le_SucI split: option.split)
  have "routes_inv v t"
    using inv watch_routes_step_ok [OF w] by (auto simp: t tasks_inv_def routes_inv_def watch_send_def split: option.split)
  moreover have "reload_inv v init t"
  proof (cases out)
    case None
    with inv log show ?thesis by (intro reload_inv_later [of t s]) (simp_all add: t tasks_inv_def)
  next
    case (Some r)
    with inv have "\<not> fresh t" by (auto simp: t tasks_inv_def seen_inv_def fresh_def watch_send_def)
    with inv Some show ?thesis by (auto simp: t tasks_inv_def reload_inv_def split: reload_pc.splits)
  qed
  ultimately show ?thesis using lst other log' by (simp add: tasks_inv_def)
qed

text \<open>A step that keeps the state, the route of the output and what the reload has is harmless.\<close>

lemma tasks_inv_frame:
  assumes "tasks_inv v init g0 k s"
    and "ch_state (tk_ch t) = ch_state (tk_ch s)" "ch_routes (tk_ch t) = ch_routes (tk_ch s)"
    and "w_version (ch_to_changed (tk_ch s)) \<le> w_version (ch_to_changed (tk_ch t))"
    and "tk_reload t = tk_reload s" "tk_reload_seen t = tk_reload_seen s" "tk_routes_seen t = tk_routes_seen s" "tk_ctx t = tk_ctx s"
      "tk_sockets t = tk_sockets s" "tk_attached t = tk_attached s" "tk_blocker t = tk_blocker s"
    and log: "log_by (spares (ev_table v)) (tk_log s) (tk_log t)"
    and bpf: "tk_bpf t = tk_bpf s" and dns: "dns_task_inv v t" "seen_inv t"
  shows "tasks_inv v init g0 (Suc k) t"
proof -
  have "reload_inv v init t"
    using assms(1) by (intro reload_inv_later [OF assms(2,3,5,6,8-11) bpf log]) (simp add: tasks_inv_def)
  moreover have "log_inv v init t"
    using assms(1) by (intro log_inv_later [OF assms(8) log]) (simp add: tasks_inv_def)
  moreover have "list_inv v g0 (Suc k) t"
    using assms(1) tracks_mono by (simp add: tasks_inv_def list_inv_def assms(2,8) bpf)
  moreover have "routes_inv v t"
    using assms(1,4) probed_later [OF _ log_by_any [OF log]] by (auto simp: tasks_inv_def routes_inv_def assms(2,3,7))
  ultimately show ?thesis using dns by (simp add: tasks_inv_def)
qed

text \<open>Other channels, and the log.\<close>

lemma tasks_inv_channels:
  assumes inv: "tasks_inv v init g0 k s" and c: "ch_state c = ch_state (tk_ch s)" "ch_routes c = ch_routes (tk_ch s)"
    "w_version (ch_to_changed (tk_ch s)) \<le> w_version (ch_to_changed c)"
    and log: "log_by (spares (ev_table v)) (tk_log s) log"
  shows "tasks_inv v init g0 (Suc k) (s\<lparr>tk_log := log, tk_ch := c\<rparr>)"
proof (rule tasks_inv_frame [OF inv])
  show "dns_task_inv v (s\<lparr>tk_log := log, tk_ch := c\<rparr>)" "seen_inv (s\<lparr>tk_log := log, tk_ch := c\<rparr>)"
    using inv by (simp_all add: tasks_inv_def dns_task_inv_def seen_inv_def c)
qed (simp_all add: c log)

lemma tasks_inv_multicast:
  assumes inv: "tasks_inv v init g0 k s" and step: "task_step v (Tk_multicast ty r l) s = Some t"
  shows "tasks_inv v init g0 (Suc k) t"
proof -
  obtain log out where out: "watch_multicast_step (ev_kernel v) (w_value (ch_state (tk_ch s))) (w_value (ch_default (tk_ch s)))
      (w_value (ch_routes (tk_ch s))) ty r l (tk_log s) = (log, Inr out)"
    using step by (auto simp: multicast_task_def Let_def split: prod.splits sum.splits)
  let ?c = "case mo_default out of None \<Rightarrow> tk_ch s | Some d \<Rightarrow> (tk_ch s)\<lparr>ch_default := watch_send d (ch_default (tk_ch s))\<rparr>"
  have c: "ch_state ?c = ch_state (tk_ch s)" "ch_routes ?c = ch_routes (tk_ch s)" "ch_to_changed ?c = ch_to_changed (tk_ch s)"
    by (simp_all split: option.split)
  have "t = s\<lparr>tk_log := log, tk_ch := (if mo_to_changed out then ?c\<lparr>ch_to_changed := watch_send () (ch_to_changed ?c)\<rparr> else ?c)\<rparr>"
    using step out by (simp add: multicast_task_def Let_def)
  then show ?thesis
    using log_by_io [OF watch_multicast_spares out]
    by (simp only:, intro tasks_inv_channels [OF inv]) (simp_all add: c watch_send_def)
qed

lemma tasks_inv_default:
  assumes inv: "tasks_inv v init g0 k s" and step: "task_step v Tk_multicast_start s = Some t"
  shows "tasks_inv v init g0 (Suc k) t"
proof -
  obtain log d where d: "default_link_or_none (ev_kernel v) (st_config (w_value (ch_state (tk_ch s)))) (tk_log s) = (log, Inr d)"
    and "t = s\<lparr>tk_log := log, tk_ch := (tk_ch s)\<lparr>ch_default := watch_send d (ch_default (tk_ch s))\<rparr>\<rparr>"
    using step by (auto simp: multicast_start_def Let_def split: prod.splits sum.splits)
  with log_by_io [OF default_link_spares d] show ?thesis by (simp only:, intro tasks_inv_channels [OF inv]) simp_all
qed

lemma tasks_inv_force_reload:
  assumes inv: "tasks_inv v init g0 k s" and step: "task_step v Tk_force_reload s = Some t"
  shows "tasks_inv v init g0 (Suc k) t"
proof -
  have "t = s\<lparr>tk_log := tk_log s, tk_ch := (tk_ch s)\<lparr>ch_do_reload := watch_send () (ch_do_reload (tk_ch s))\<rparr>\<rparr>"
    using step by (simp add: Let_def)
  then show ?thesis by (simp only:, intro tasks_inv_channels [OF inv]) simp_all
qed

lemma tasks_inv_hook:
  assumes inv: "tasks_inv v init g0 k s" and step: "task_step v (Tk_hook e) s = Some t"
  shows "tasks_inv v init g0 (Suc k) t"
proof -
  obtain g out where h: "hook_step (needs_mark (ev_alloc v) (ev_keep v)) e (tk_bpf s) = (g, out)" by fastforce
  have t: "t = s\<lparr>tk_bpf := g\<rparr>" using step h by simp
  have "done_with v init t m b" if "done_with v init s m b" for m b
    using that hook_step_keeps(2,3) [OF h] by (auto simp: t done_with_def config_done_def force_done_def)
  moreover have "list_inv v g0 (Suc k) t"
    using inv tracks_hook [of "ev_libs v" g0 k _ _ "tk_bpf s" "ev_alloc v" "ev_keep v" e] h
    by (simp add: t tasks_inv_def list_inv_def)
  ultimately show ?thesis
    using inv by (auto simp: t log_inv_def tasks_inv_def reload_inv_def fresh_def routes_inv_def dns_task_inv_def seen_inv_def split: reload_pc.splits)
qed

section \<open>The DNS component\<close>

lemma tasks_inv_dns_part:
  assumes inv: "tasks_inv v init g0 k s" and dns: "dns_inv (ev_names v) dns" "cache_ok (dn_cache dns)" "kept (ev_names v) dns"
    and same: "dn_cache dns = dn_cache (tk_dns s)" and log: "log_by (spares (ev_table v)) (tk_log s) log"
  shows "tasks_inv v init g0 (Suc k) (s\<lparr>tk_dns := dns, tk_log := log\<rparr>)"
  using inv by (intro tasks_inv_frame [OF inv]) (simp_all add: tasks_inv_def dns_task_inv_def seen_inv_def dns same log)

lemma tasks_inv_dns:
  assumes wf: "build_wf (ev_libs v)" "kernel_sane (ev_kernel v)" and inv: "tasks_inv v init g0 k s"
    and step: "dns_task v e s = Some t" and e: "\<forall>conf redir def upd. e \<noteq> EvRoutes conf redir def upd"
  shows "tasks_inv v init g0 (Suc k) t"
proof -
  obtain dns log where run: "dns_step (ev_kernel v) (ev_libs v) (ev_names v) (ev_table v) (tk_dns s, tk_log s) e = Inr (dns, log)"
    and t: "t = s\<lparr>tk_dns := dns, tk_log := log\<rparr>"
    using step by (auto simp: dns_task_def split: sum.splits)
  have d: "dns_inv (ev_names v) (tk_dns s)" "cache_ok (dn_cache (tk_dns s))" "kept (ev_names v) (tk_dns s)"
    using inv by (simp_all add: tasks_inv_def dns_task_inv_def)
  have "dn_cache dns = dn_cache (tk_dns s)"
  proof (cases e)
    case (EvTtl now ch)
    with run watch_dns_ttl_step_cache [of "ev_kernel v" "ev_names v" "ev_table v" now ch "tk_dns s" "tk_log s"] show ?thesis
      by (auto split: prod.splits)
  next
    case (EvAnswer now max_ttl data redir "def")
    with run kept_callback [of "ev_names v" "(tk_dns s, tk_log s)"] d(3) show ?thesis by fastforce
  next
    case (EvRetire name dest)
    with run kept_retire [OF d(3), of "ev_kernel v" "ev_table v" name dest "tk_log s"] show ?thesis by (auto split: prod.splits)
  qed (use e in blast)
  with dns_step_ok [OF wf, of "ev_names v" "(tk_dns s, tk_log s)" "ev_table v" e] kept_step [OF wf _ _ _ run] dns_step_spares [OF run] d run
  show ?thesis unfolding t by (intro tasks_inv_dns_part [OF inv]) auto
qed

lemma tasks_inv_ttl:
  assumes wf: "build_wf (ev_libs v)" "kernel_sane (ev_kernel v)" and inv: "tasks_inv v init g0 k s"
    and step: "task_step v (Tk_ttl now ch) s = Some t"
  shows "tasks_inv v init g0 (Suc k) t"
proof (rule tasks_inv_dns [OF wf inv])
  show "dns_task v (EvTtl now ch) s = Some t"
    using step by (auto simp: dns_task_def split: prod.splits sum.splits)
qed simp

lemma tasks_inv_dns_routes:
  assumes wf: "build_wf (ev_libs v)" "kernel_sane (ev_kernel v)" and inv: "tasks_inv v init g0 k s"
    and step: "task_step v Tk_dns_routes s = Some t"
  shows "tasks_inv v init g0 (Suc k) t"
proof (cases "tk_dns_routes s")
  case Dr_wait
  show ?thesis
  proof (cases "t = s")
    case True
    with inv tracks_mono show ?thesis by (auto simp: tasks_inv_def list_inv_def)
  next
    case False
    then have t: "t = s\<lparr>tk_dns_routes := Dr_lock (has_changed (ch_state (tk_ch s)) (sn_state (tk_dns_seen s))), tk_dns_seen := dns_seen (tk_ch s)\<rparr>"
      using step Dr_wait by (auto simp: dns_routes_task_def Let_def split: if_splits)
    show ?thesis
      unfolding t
      by (rule tasks_inv_frame [OF inv])
        (use inv Dr_wait in \<open>auto simp: tasks_inv_def dns_task_inv_def seen_inv_def dns_seen_def has_changed_def\<close>)
  qed
next
  case (Dr_lock upd)
  obtain dns log where run: "watch_dns_routes_step (ev_kernel v) (ev_libs v) (ev_names v) (ev_table v) (w_value (ch_state (tk_ch s)))
      (w_value (ch_routes (tk_ch s))) (w_value (ch_default (tk_ch s))) upd (tk_dns s) (tk_log s) = (dns, log, Inr ())"
    and t: "t = s\<lparr>tk_dns := dns, tk_log := log, tk_dns_routes := Dr_wait\<rparr>"
    using step Dr_lock by (auto simp: dns_routes_task_def Let_def split: prod.splits sum.splits)
  have d: "dns_inv (ev_names v) (tk_dns s)" "cache_ok (dn_cache (tk_dns s))" "kept (ev_names v) (tk_dns s)"
    using inv by (simp_all add: tasks_inv_def dns_task_inv_def)
  from watch_dns_routes_step_ok [OF wf d(1,2) run] kept_routes [OF wf d run]
  have new: "dns_inv (ev_names v) dns" "cache_ok (dn_cache dns)" "kept (ev_names v) dns"
    and c: "dn_cache dns = (if upd then dns_cache_update (ev_libs v) (dn_cache (tk_dns s)) (st_matches (w_value (ch_state (tk_ch s))))
      else dn_cache (tk_dns s))" by auto
  have "dns_task_inv v t"
    using inv new c Dr_lock by (auto simp: t tasks_inv_def dns_task_inv_def cache_of_def)
  with inv show ?thesis
    using watch_dns_routes_spares [OF run]
    unfolding t by (intro tasks_inv_frame [OF inv]) (simp_all add: tasks_inv_def seen_inv_def)
qed

lemma tasks_inv_answer:
  assumes wf: "build_wf (ev_libs v)" "kernel_sane (ev_kernel v)" and inv: "tasks_inv v init g0 k s"
    and step: "task_step v (Tk_answer now data) s = Some t"
  shows "tasks_inv v init g0 (Suc k) t"
  using step by (auto simp: Let_def intro: tasks_inv_dns [OF wf inv])

lemma tasks_inv_retire:
  assumes wf: "build_wf (ev_libs v)" "kernel_sane (ev_kernel v)" and inv: "tasks_inv v init g0 k s"
    and step: "task_step v (Tk_retire name dest) s = Some t"
  shows "tasks_inv v init g0 (Suc k) t"
  using step by (auto intro: tasks_inv_dns [OF wf inv])

section \<open>Any order\<close>

lemma tasks_inv_step:
  assumes wf: "build_wf (ev_libs v)" "kernel_sane (ev_kernel v)" "pages_free (ev_alloc v)" and bound: "unat g0 + k < 2 ^ 64"
    and inv: "tasks_inv v init g0 k s" and step: "task_step v e s = Some t"
  shows "tasks_inv v init g0 (Suc k) t"
  using step
  by (cases e)
    (auto simp: Let_def simp del: task_step.simps
      intro: tasks_inv_matches [OF wf(1) inv] tasks_inv_settings [OF inv] tasks_inv_force_reload [OF inv]
        tasks_inv_reload [OF wf(1,3) bound inv] tasks_inv_routes [OF inv] tasks_inv_multicast [OF inv] tasks_inv_default [OF inv]
        tasks_inv_dns_routes [OF wf(1,2) inv] tasks_inv_ttl [OF wf(1,2) inv] tasks_inv_answer [OF wf(1,2) inv]
        tasks_inv_retire [OF wf(1,2) inv] tasks_inv_hook [OF inv])

lemma tasks_inv_init: "tasks_inv v log (ms_generation (st_matches (w_value w))) 0 (tasks_init w log)"
proof -
  have "tracks lib (ms_generation (st_matches (w_value w))) 0 (w_value w, bpf_ctx_new 0, bpf_globals_zero)" for lib
    by (rule tracksI [of _ _ 0]) (simp_all add: synced_def bpf_ctx_new_def bpf_globals_zero_def arena_npages_def)
  then show ?thesis
    by (auto simp: tasks_inv_def log_inv_def bpf_ctx_new_def started reload_inv_def routes_inv_def dns_task_inv_def seen_inv_def list_inv_def tasks_init_def
        watch_new_def watch_send_def dns_initial_def dns_inv_def cache_ok_def kept_def sleeper_ok_def records_matched_def)
qed

lemma tasks_inv_run:
  assumes wf: "build_wf (ev_libs v)" "kernel_sane (ev_kernel v)" "pages_free (ev_alloc v)"
  shows "unat g0 + k + length es < 2 ^ 64 \<Longrightarrow> tasks_inv v init g0 k s \<Longrightarrow> task_run v es s = Some t \<Longrightarrow> tasks_inv v init g0 (k + length es) t"
proof (induction es arbitrary: k s)
  case (Cons e es)
  then obtain u where u: "task_step v e s = Some u" "task_run v es u = Some t"
    by (auto simp: bind_eq_Some_conv simp del: task_step.simps)
  have "tasks_inv v init g0 (Suc k) u"
    using Cons.prems u(1) by (intro tasks_inv_step [OF wf]) auto
  with Cons.IH [of "Suc k" u] Cons.prems u(2) show ?case by simp
qed simp

text \<open>The cache of verdicts stays coherent while the tasks of the hooks are those of a table.\<close>

fun hooks_in :: "(TaskId \<Rightarrow> task_struct) \<Rightarrow> task_event \<Rightarrow> bool" where
  "hooks_in procs (Tk_hook e) = event_in procs e"
| "hooks_in procs _ = True"

lemma reload_task_bpf:
  assumes "reload_task k nb lib alloc iface mark s = Some t"
  shows "tk_bpf t = tk_bpf s \<or> bg_cache (tk_bpf t) = (\<lambda>i. None)"
  using assms
  by (cases "tk_reload s") (auto simp: reload_task_def Let_def split: option.splits sum.splits prod.splits if_splits dest: load_config_cache)

lemma coherent_step:
  assumes "coherent procs (tk_bpf s)" and "hooks_in procs e" and step: "task_step v e s = Some t"
  shows "coherent procs (tk_bpf t)"
proof (cases e)
  case (Tk_hook h)
  obtain g out where "hook_step (needs_mark (ev_alloc v) (ev_keep v)) h (tk_bpf s) = (g, out)" by fastforce
  with cached.step_ok [OF assms(1) _ this] assms(2) step Tk_hook show ?thesis by auto
next
  case (Tk_reload iface mark)
  with reload_task_bpf step assms(1) coherent_empty [of "tk_bpf t" procs] show ?thesis by fastforce
next
  case Tk_routes
  with step assms(1) show ?thesis
    by (auto simp: routes_task_def Let_def split: if_splits prod.splits sum.splits option.splits)
next
  case Tk_dns_routes
  with step assms(1) show ?thesis
    by (cases "tk_dns_routes s") (auto simp: dns_routes_task_def Let_def split: if_splits prod.splits sum.splits)
qed (use step assms(1) in \<open>auto simp: Let_def multicast_task_def multicast_start_def dns_task_def
      split: prod.splits sum.splits option.splits if_splits\<close>)

lemma coherent_run:
  "coherent procs (tk_bpf s) \<Longrightarrow> list_all (hooks_in procs) es \<Longrightarrow> task_run v es s = Some t \<Longrightarrow> coherent procs (tk_bpf t)"
proof (induction es arbitrary: s)
  case (Cons e es)
  then obtain u where u: "task_step v e s = Some u" "task_run v es u = Some t"
    by (auto simp: bind_eq_Some_conv simp del: task_step.simps)
  from Cons.IH [OF coherent_step [OF _ _ u(1)] _ u(2)] Cons.prems show ?case by simp
qed simp

section \<open>At rest\<close>

text \<open>The state of a daemon that is done, in terms of its switch, output and list.\<close>

definition settled :: "env \<Rightarrow> nl_request list \<Rightarrow> tasks \<Rightarrow> bool" where
  "settled v init s \<longleftrightarrow>
    (let st = w_value (ch_state (tk_ch s)); r = w_value (ch_routes (tk_ch s)); enable = fst (reload_blocker st r); mark = tk_sockets s
     in probed v (st_to_dev st) r (tk_log s)
      \<and> w_value (tk_attached s) \<and> bc_mark (tk_ctx s) = Some mark
      \<and> rules_done v init (tk_log s) st r mark enable (w_value (tk_blocker s)) \<and> config_done st mark enable (tk_bpf s)
      \<and> (ms_generation (st_matches st) \<noteq> 0 \<longrightarrow> in_force (ev_libs v) (st_matches st) (tk_bpf s))
      \<and> cache_of v st (dn_cache (tk_dns s)) \<and> records_matched (ev_names v) (tk_dns s) \<and> sleeper_ok (tk_dns s))"

lemma rest_settled:
  assumes "tasks_inv v init g0 k s" and "at_rest s"
  shows "settled v init s"
proof -
  have ver: "w_version (ch_to_changed (tk_ch s)) \<noteq> 0" "snd (tk_routes_seen s) = Some (w_version (ch_to_changed (tk_ch s)))"
    using assms by (simp_all add: tasks_inv_def routes_inv_def at_rest_def)
  then have routes: "probed v (st_to_dev (w_value (ch_state (tk_ch s)))) (w_value (ch_routes (tk_ch s))) (tk_log s)"
    "w_version (ch_routes (tk_ch s)) \<noteq> 0"
    using assms by (simp_all add: tasks_inv_def routes_inv_def at_rest_def)
  have "fresh s" "sn_snd (tk_reload_seen s) \<noteq> Some 0"
    using assms(2) routes(2) by (simp_all add: at_rest_def fresh_def reload_seen_def)
  then have reload: "w_value (tk_attached s)" "bc_mark (tk_ctx s) = Some (tk_sockets s)"
    "done_with v init s (tk_sockets s) (w_value (tk_blocker s))"
    using assms by (simp_all add: tasks_inv_def reload_inv_def at_rest_def)
  have dns: "cache_of v (w_value (ch_state (tk_ch s))) (dn_cache (tk_dns s))" "kept (ev_names v) (tk_dns s)"
    using assms by (simp_all add: tasks_inv_def dns_task_inv_def at_rest_def dns_seen_def)
  from reload(3) obtain e where e: "rules_done v init (tk_log s) (w_value (ch_state (tk_ch s))) (w_value (ch_routes (tk_ch s))) (tk_sockets s) e (w_value (tk_blocker s))"
    "config_done (w_value (ch_state (tk_ch s))) (tk_sockets s) e (tk_bpf s)" "force_done v (w_value (ch_state (tk_ch s))) (tk_bpf s)"
    unfolding done_with_def by blast
  with rules_done_blocker [OF e(1)] routes(1) reload(1,2) dns show ?thesis
    by (simp add: settled_def kept_def force_done_def Let_def)
qed

section \<open>How long it takes\<close>

text \<open>The turns that the reload task, and the DNS task, still have to take when nothing else happens.\<close>

definition reload_left :: "tasks \<Rightarrow> nat" where
  "reload_left s =
    (case tk_reload s of Rl_wait \<Rightarrow> 0 | Rl_rules m \<Rightarrow> 3 | Rl_load m e b \<Rightarrow> 2 | Rl_exchange m b \<Rightarrow> 1)
    + (if tk_reload_seen s = reload_seen (tk_ch s) then 0 else 4)"

definition dns_left :: "tasks \<Rightarrow> nat" where
  "dns_left s = (case tk_dns_routes s of Dr_wait \<Rightarrow> 0 | Dr_lock u \<Rightarrow> 1) + (if tk_dns_seen s = dns_seen (tk_ch s) then 0 else 2)"

definition settle :: "u32 \<Rightarrow> task_event list" where
  "settle mark = Tk_routes # replicate 7 (Tk_reload (Inr ()) mark) @ replicate 3 Tk_dns_routes"

lemma seen3_eq: "(x :: seen3) = y \<longleftrightarrow> sn_state x = sn_state y \<and> sn_snd x = sn_snd y \<and> sn_trd x = sn_trd y"
  by (cases x; cases y) simp

lemma reload_turn:
  assumes "task_step v (Tk_reload iface mark) s = Some t"
  shows "tk_ch t = tk_ch s \<and> tk_routes_seen t = tk_routes_seen s \<and> reload_left t \<le> reload_left s - 1"
  using assms
  by (cases "tk_reload s")
    (auto simp: reload_task_def reload_left_def reload_seen_def has_changed_def seen3_eq Let_def split: if_splits option.splits prod.splits sum.splits)

lemma dns_turn:
  assumes "task_step v Tk_dns_routes s = Some t"
  shows "tk_ch t = tk_ch s \<and> tk_routes_seen t = tk_routes_seen s \<and> tk_reload t = tk_reload s \<and> tk_reload_seen t = tk_reload_seen s
    \<and> dns_left t \<le> dns_left s - 1"
  using assms
  by (cases "tk_dns_routes s")
    (auto simp: dns_routes_task_def dns_left_def dns_seen_def has_changed_def seen3_eq Let_def split: if_splits option.splits prod.splits sum.splits)

lemma reload_turns:
  "task_run v (replicate n (Tk_reload iface mark)) s = Some t \<Longrightarrow>
    tk_ch t = tk_ch s \<and> tk_routes_seen t = tk_routes_seen s \<and> reload_left t \<le> reload_left s - n"
proof (induction n arbitrary: s)
  case (Suc n)
  then obtain u where u: "task_step v (Tk_reload iface mark) s = Some u" "task_run v (replicate n (Tk_reload iface mark)) u = Some t"
    by (auto simp: bind_eq_Some_conv simp del: task_step.simps)
  from reload_turn [OF u(1)] Suc.IH [OF u(2)] show ?case by auto
qed simp

lemma dns_turns:
  "task_run v (replicate n Tk_dns_routes) s = Some t \<Longrightarrow>
    tk_ch t = tk_ch s \<and> tk_routes_seen t = tk_routes_seen s \<and> tk_reload t = tk_reload s \<and> tk_reload_seen t = tk_reload_seen s
    \<and> dns_left t \<le> dns_left s - n"
proof (induction n arbitrary: s)
  case (Suc n)
  then obtain u where u: "task_step v Tk_dns_routes s = Some u" "task_run v (replicate n Tk_dns_routes) u = Some t"
    by (auto simp: bind_eq_Some_conv simp del: task_step.simps)
  from dns_turn [OF u(1)] Suc.IH [OF u(2)] show ?case by auto
qed simp

lemma task_run_append: "task_run v (es @ fs) s = Option.bind (task_run v es s) (task_run v fs)"
  by (induction es arbitrary: s) (auto split: bind_splits)

lemma routes_turn:
  assumes "task_step v Tk_routes s = Some t"
  shows "tk_routes_seen t = (Some (w_version (ch_state (tk_ch t))), Some (w_version (ch_to_changed (tk_ch t))))"
  using assms by (cases "tk_routes_seen s")
    (auto simp: routes_task_def has_changed_def Let_def split: if_splits prod.splits sum.splits option.splits)

lemma settle_rests:
  assumes "task_run v (settle mark) s = Some t"
  shows "at_rest t"
proof -
  obtain a b where a: "task_step v Tk_routes s = Some a" and b: "task_run v (replicate 7 (Tk_reload (Inr ()) mark)) a = Some b"
    and t: "task_run v (replicate 3 Tk_dns_routes) b = Some t"
    using assms unfolding settle_def by (auto simp: task_run_append bind_eq_Some_conv simp del: task_step.simps)
  have "reload_left a \<le> 7" "dns_left b \<le> 3"
    by (simp_all add: reload_left_def dns_left_def split: reload_pc.split dns_pc.split)
  with reload_turns [OF b] dns_turns [OF t] have "reload_left b = 0" "dns_left t = 0" by simp_all
  with reload_turns [OF b] dns_turns [OF t] routes_turn [OF a] show ?thesis
    by (simp add: at_rest_def reload_left_def dns_left_def split: reload_pc.splits dns_pc.splits if_splits)
qed

lemma settle_settles:
  assumes "build_wf (ev_libs v)" and "kernel_sane (ev_kernel v)" and "pages_free (ev_alloc v)"
    and "unat (ms_generation (st_matches (w_value w))) + length es + 11 < 2 ^ 64"
    and "task_run v (es @ settle mark) (tasks_init w log) = Some s"
  shows "at_rest s \<and> settled v log s"
proof -
  have "tasks_inv v log (ms_generation (st_matches (w_value w))) (0 + length (es @ settle mark)) s"
    using assms(4) by (intro tasks_inv_run [OF assms(1-3) _ tasks_inv_init assms(5)]) (simp add: settle_def)
  moreover have "at_rest s"
    using assms(5) by (auto simp: task_run_append bind_eq_Some_conv intro: settle_rests)
  ultimately show ?thesis using rest_settled by blast
qed

lemma settle_coherent:
  assumes "list_all (hooks_in procs) es" and "task_run v (es @ settle mark) (tasks_init w log) = Some s"
  shows "coherent procs (tk_bpf s)"
proof (rule coherent_run [OF _ _ assms(2)])
  show "coherent procs (tk_bpf (tasks_init w log))"
    by (rule coherent_empty) (simp add: tasks_init_def bpf_globals_zero_def)
  show "list_all (hooks_in procs) (es @ settle mark)"
    using assms(1) by (simp add: settle_def list_all_iff)
qed

section \<open>Properties\<close>

text \<open>
  C4: no wake-up is lost.  Start the tasks on any state, let calls of the service, turns of the tasks,
  notifications, packets, expiries and hooks come in any order, fewer than \<open>2 ^ 64\<close>, and then one probe,
  seven turns of the reload and three of the DNS task.  If no task has ended, all of them wait and the
  daemon is settled: the channel of the output holds what a probe of the present device found; sockets,
  context and program carry one mark, and the last round in the log of requests removed what belonged to
  the mark of the round before it, back to the first, and then requested the rules and routes of the present
  list and output for that mark, since when only routes of the DNS table were touched; marking and the DNS
  snoop are on exactly when switch, output and list ask for it, and the reason against it is shown; the
  automaton in the kernel and the resolver cache are those of the present list.  (A load is one step
  here: hooks run between the turns of the tasks, not between the assignments of the loader.)
\<close>

theorem daemon_settles:
  assumes "build_wf (ev_libs v)" and "kernel_sane (ev_kernel v)" and "pages_free (ev_alloc v)"
    and "unat (ms_generation (st_matches (w_value w))) + length es + 11 < 2 ^ 64"
    and "task_run v (es @ settle mark) (tasks_init w log) = Some s"
  shows "at_rest s \<and> settled v log s"
  using assms by (rule settle_settles)

lemma reload_changed:
  assumes "tk_reload_seen s \<noteq> reload_seen (tk_ch s)"
  shows "has_changed (ch_state (tk_ch s)) (sn_state (tk_reload_seen s)) \<or> has_changed (ch_routes (tk_ch s)) (sn_snd (tk_reload_seen s))
    \<or> has_changed (ch_do_reload (tk_ch s)) (sn_trd (tk_reload_seen s))"
  using assms by (auto simp: has_changed_def reload_seen_def seen3_eq)

text \<open>
  Four turns of the reload task with nothing in between are one round of \<^verbatim>\<open>watch_reload\<close> on the present
  state and route: the task, or the process, ends exactly when the round does not end well, and otherwise
  it leaves the same log and the same world.
\<close>

definition world_of :: "tasks \<Rightarrow> reload_world" where
  "world_of s = \<lparr>rw_ctx = tk_ctx s, rw_bpf = tk_bpf s, rw_sockets = tk_sockets s, rw_attached = tk_attached s,
     rw_blocker = tk_blocker s, rw_signals = tk_signals s\<rparr>"

lemma round_in_turns:
  assumes "tk_reload s = Rl_wait" and "tk_reload_seen s \<noteq> reload_seen (tk_ch s)"
  shows "map_option (\<lambda>t. (tk_log t, world_of t)) (task_run v (replicate 4 (Tk_reload iface mark)) s) =
    (case watch_reload_round (ev_kernel v) (ev_nl v) (ev_libs v) (ev_alloc v) iface (w_value (ch_state (tk_ch s)))
         (w_value (ch_routes (tk_ch s))) mark (world_of s) (tk_log s) of
       Some (log, w, Inr _) \<Rightarrow> Some (log, w)
     | _ \<Rightarrow> None)"
  using assms(1) reload_changed [OF assms(2)]
  by (cases iface)
    (simp_all add: numeral_eq_Suc reload_task_def watch_reload_round_def watch_reload_step_def world_of_def
      reload_publish_def Let_def split: option.split prod.split sum.split)

text \<open>A device that is up, an enabled daemon with one match for a user, or for every user.\<close>

definition tun_kernel :: kernel where
  "tun_kernel = silent_kernel\<lparr>kn_link := (\<lambda>log. Inr \<lparr>k_index = 3, k_flags = 1, k_ifname = Some ''tun0'', k_stats64 = None\<rparr>)\<rparr>"

definition tun_route :: Route where
  "tun_route = \<lparr>r_is_up = True, r_ifindex = 3, r_ifname = ''tun0'', r_addrs = [], r_gateway = None\<rparr>"

definition tun_for :: "u32 \<Rightarrow> State" where
  "tun_for uid = (uid_match uid)\<lparr>st_enable := True, st_to_dev := ''tun0'', st_config := config_default\<lparr>c_allow_lan := False\<rparr>\<rparr>"

abbreviation tun_state :: State where "tun_state \<equiv> tun_for 0"

definition ex_env :: env where
  "ex_env = \<lparr>ev_kernel = tun_kernel, ev_nl = ex_nl_lib, ev_libs = two_libs, ev_names = ex_names, ev_table = 70001,
     ev_alloc = (\<lambda>n. True), ev_keep = (\<lambda>c k i. True)\<rparr>"

text \<open>The daemon settles on a program that marks.\<close>

lemma ex_probe: "\<exists>log'. watch_routes_step tun_kernel conf None log = (log', Inr (Some (Some tun_route)))"
  by (simp add: watch_routes_step_def io_bind_def io_try_def io_ret_def io_lift_def io_dump_def get_link_def io_send_def io_recv_def
      tun_kernel_def silent_kernel_def tun_route_def IFF_UP_def Let_def)

lemma ex_reconfigure:
  "\<exists>dns log'. watch_dns_routes_step tun_kernel two_libs ex_names 70001 conf r d True dns_initial log = (dns, log', Inr ())"
  by (simp add: watch_dns_routes_step_def dns_initial_def Let_def clear_table_def io_bind_def io_send_def io_dump_def io_ret_def io_lift_def
      tun_kernel_def silent_kernel_def)

lemma ex_rules:
  "\<exists>log'. reload_rules tun_kernel ex_nl_lib two_libs (tun_for uid) (Some tun_route) mark log = Some (log', Inr (True, ''''))"
  by (simp add: reload_rules_def reload_blocker_def attach_rules_def oio_bind_def oio_of_def io_ret_def io_request_def io_bind_def io_send_def
      io_recv_def tun_kernel_def silent_kernel_def tun_route_def tun_for_def uid_match_def state_default_def config_default_def
      match_rule_def match_addr_def ex_path_def match_default_def)

lemma ex_settle_run:
  assumes "w_value w = tun_for uid"
  obtains s where "task_run ex_env ([] @ settle 70000) (tasks_init w []) = Some s"
    "tk_sockets s = 70000" "w_value (ch_state (tk_ch s)) = tun_for uid" "w_value (ch_routes (tk_ch s)) = Some tun_route"
proof -
  obtain arena dfa where b: "build_path_dfa two_libs (st_matches (uid_match uid)) [] = Inr (arena, dfa)" "arena \<noteq> []"
    "length arena \<le> ARENA_SIZE"
    by (rule two_libs_build)
  obtain log1 where p: "watch_routes_step tun_kernel (tun_for uid) None [] = (log1, Inr (Some (Some tun_route)))"
    using ex_probe by blast
  obtain log2 where rules: "reload_rules tun_kernel ex_nl_lib two_libs (tun_for uid) (Some tun_route) 70000 log1 = Some (log2, Inr (True, ''''))"
    using ex_rules by blast
  obtain ctx bpf where r: "bpf_reload two_libs \<lparr>bc_mark = Some 70000, bc_matches_time = 0, bc_matches = [], bc_last_gen = 0, bc_arena = []\<rparr>
      (tun_for uid) True 70000 = Inr (ctx, bpf)"
    "bf_arena_buf bpf = arena" "bf_generation bpf = 1"
    using b by (simp add: bpf_reload_def Let_def uid_match_def tun_for_def)
  obtain g where g: "load_config (\<lambda>n. True) bpf bpf_globals_zero = Some g"
    using b r by (auto simp: load_config_simps reload_config_def bpf_globals_zero_def Let_def)
  obtain dns log3 where d: "watch_dns_routes_step tun_kernel two_libs ex_names 70001 (tun_for uid) (Some tun_route) None True dns_initial log2 = (dns, log3, Inr ())"
    using ex_reconfigure by blast
  show thesis
    by (rule that, simp_all add: settle_def numeral_eq_Suc tasks_init_def watch_new_def assms watch_send_def routes_task_def reload_task_def
        dns_routes_task_def has_changed_def reload_seen_def dns_seen_def ex_env_def Let_def p rules r g d bpf_ctx_new_def)
      (simp_all add: g assms)
qed

lemma tun_sane [simp]: "kernel_sane tun_kernel"
  using silent_sane by (simp add: kernel_sane_def tun_kernel_def)

lemma ex_env_facts:
  "build_wf (ev_libs ex_env)" "kernel_sane (ev_kernel ex_env)" "pages_free (ev_alloc ex_env)"
  "unat (ms_generation (st_matches (w_value (watch_new tun_state)))) + length ([] :: task_event list) + 11 < 2 ^ 64"
  by (simp_all add: ex_env_def two_libs_wf pages_free_def watch_new_def uid_match_def tun_for_def tun_sane)

theorem daemon_settles_witness:
  "\<exists>s. task_run ex_env ([] @ settle 70000) (tasks_init (watch_new tun_state) []) = Some s
    \<and> at_rest s \<and> settled ex_env [] s \<and> tk_sockets s = 70000"
proof -
  obtain s where run: "task_run ex_env ([] @ settle 70000) (tasks_init (watch_new tun_state) []) = Some s"
    "tk_sockets s = 70000"
    by (rule ex_settle_run [of "watch_new tun_state" 0]) (simp_all add: watch_new_def)
  from daemon_settles [OF ex_env_facts run(1)] run show ?thesis by blast
qed

end
