(* ===== verification/First_Match.thy ===== *)
theory First_Match
  imports Tasks_Correct
begin

text \<open>
  What the list of matches means: the first match whose pattern accepts the path of an executable
  decides, for the user it names and in its direction.  With what the regex crate documents of its
  automata, the verdict of the eBPF program and the mark of a new socket are those of this reading of the list.
\<close>

section \<open>The meaning of a list\<close>

text \<open>\<open>rx\<close> tells whether a regular expression matches the whole of a path.\<close>

definition accepts :: "(string \<Rightarrow> u8 list \<Rightarrow> bool) \<Rightarrow> libs \<Rightarrow> u8 list \<Rightarrow> Match \<Rightarrow> bool" where
  "accepts rx lib path m = (case path_regex lib m of None \<Rightarrow> False | Some pat \<Rightarrow> rx pat path)"

definition first_match :: "(string \<Rightarrow> u8 list \<Rightarrow> bool) \<Rightarrow> libs \<Rightarrow> Matches \<Rightarrow> u8 list \<Rightarrow> Match option" where
  "first_match rx lib ms path = List.find (accepts rx lib path) (ms_matches ms)"

definition direction_for :: "(string \<Rightarrow> u8 list \<Rightarrow> bool) \<Rightarrow> libs \<Rightarrow> Matches \<Rightarrow> u32 \<Rightarrow> u8 list \<Rightarrow> Direction option" where
  "direction_for rx lib ms uid path =
    (case first_match rx lib ms path of
       None \<Rightarrow> None
     | Some m \<Rightarrow> if uid_applies uid m then Some (m_direction m) else None)"

text \<open>
  What the crate documents of an anchored search with its default kind of match, leftmost-first, where
  the patterns of the list match at the end of the input only, as \<^verbatim>\<open>^...$\<close> makes them unless a regular expression of a
  user closes the group it is put in: a match state has one pattern, and the state at the end of the input
  is a match state exactly when some pattern matches, and then of the first one that does.
\<close>

definition leftmost_first :: "(string \<Rightarrow> u8 list \<Rightarrow> bool) \<Rightarrow> libs \<Rightarrow> Matches \<Rightarrow> bool" where
  "leftmost_first rx lib ms \<longleftrightarrow>
    (\<forall>pats pim d s0 path. path_loop_set lib 0 (ms_matches ms) ([], []) = (pats, pim) \<longrightarrow>
      l_build_many lib True DFA_MAX_SIZE pats = Inr d \<longrightarrow> d_start d True = Inr s0 \<longrightarrow>
      (\<forall>s. d_is_match d s \<longrightarrow> d_match_len d s = 1) \<and>
      (d_is_match d (dense_final d s0 path) \<longleftrightarrow> (\<exists>i < length pats. rx (pats ! i) path)) \<and>
      (\<forall>i < length pats. rx (pats ! i) path \<longrightarrow> (\<forall>j < i. \<not> rx (pats ! j) path) \<longrightarrow>
        d_match_pattern d (dense_final d s0 path) 0 = i))"

section \<open>The first pattern is that of the first match\<close>

text \<open>The loop of \<open>build_path_dfa\<close> selects the matches that have a pattern, with their indices.\<close>

fun selected :: "libs \<Rightarrow> nat \<Rightarrow> Match list \<Rightarrow> (nat \<times> string) list" where
  "selected lib i [] = []"
| "selected lib i (m # ms) =
    (case path_regex lib m of None \<Rightarrow> selected lib (Suc i) ms | Some pat \<Rightarrow> (i, pat) # selected lib (Suc i) ms)"

lemma path_loop_selected:
  "path_loop_set lib i ms (pats, pim) = (pats @ map snd (selected lib i ms), pim @ map fst (selected lib i ms))"
  by (induction ms arbitrary: i pats pim) (simp_all split: option.split)

lemma length_selected: "length (selected lib i ms) \<le> length ms"
  by (induction ms arbitrary: i) (auto split: option.split intro: le_SucI)

lemma find_selected:
  "List.find (accepts rx lib path) ms = map_option (\<lambda>(k, pat). ms ! (k - i)) (List.find (\<lambda>(k, pat). rx pat path) (selected lib i ms))"
proof (induction ms arbitrary: i)
  case (Cons m ms)
  have later: "i < k" if "(k, pat) \<in> set (selected lib (Suc i) ms)" for k pat
  proof -
    have "Suc i \<le> k" using that
      by (induction ms arbitrary: i) (fastforce split: option.splits)+
    then show ?thesis by simp
  qed
  have "map_option (\<lambda>(k, pat). (m # ms) ! (k - i)) (List.find (\<lambda>(k, pat). rx pat path) (selected lib (Suc i) ms))
      = map_option (\<lambda>(k, pat). ms ! (k - Suc i)) (List.find (\<lambda>(k, pat). rx pat path) (selected lib (Suc i) ms))"
  proof (rule option.map_cong0)
    fix z assume "z \<in> set_option (List.find (\<lambda>(k, pat). rx pat path) (selected lib (Suc i) ms))"
    then have "List.find (\<lambda>(k, pat). rx pat path) (selected lib (Suc i) ms) = Some z" by simp
    then have "z \<in> set (selected lib (Suc i) ms)" unfolding find_Some_iff by (metis nth_mem)
    with later [of "fst z" "snd z"] show "(case z of (k, pat) \<Rightarrow> (m # ms) ! (k - i)) = (case z of (k, pat) \<Rightarrow> ms ! (k - Suc i))"
      by (simp add: split_beta nth_Cons')
  qed
  with Cons.IH [of "Suc i"] show ?case
    by (auto simp: accepts_def split: option.split)
qed simp

lemma first_match_None:
  assumes "path_loop_set lib 0 (ms_matches ms) ([], []) = (pats, pim)"
  shows "first_match rx lib ms path = None \<longleftrightarrow> (\<forall>i < length pats. \<not> rx (pats ! i) path)"
proof -
  have "first_match rx lib ms path = None \<longleftrightarrow> (\<forall>x \<in> set (selected lib 0 (ms_matches ms)). \<not> rx (snd x) path)"
    by (auto simp: first_match_def find_selected [of rx lib path _ 0] find_None_iff split_beta)
  with assms show ?thesis by (auto simp: path_loop_selected all_set_conv_all_nth)
qed

lemma first_match_Some:
  assumes "path_loop_set lib 0 (ms_matches ms) ([], []) = (pats, pim)" and "first_match rx lib ms path = Some m"
  obtains i where "i < length pats" "rx (pats ! i) path" "\<forall>j < i. \<not> rx (pats ! j) path" "m = ms_matches ms ! (pim ! i)"
proof -
  obtain k pat where f: "List.find (\<lambda>(k, pat). rx pat path) (selected lib 0 (ms_matches ms)) = Some (k, pat)" "m = ms_matches ms ! k"
    using assms(2) unfolding first_match_def find_selected [of rx lib path _ 0] by auto
  then show thesis
    using assms(1) that unfolding path_loop_selected find_Some_iff
    by (auto simp: split_beta) (metis fst_conv snd_conv)
qed

section \<open>The verdict\<close>

lemma built_automaton:
  assumes wf: "build_wf lib" and pats: "path_loop_set lib 0 (ms_matches ms) ([], []) = (pats, pim)"
    and built: "build_path_dfa lib ms [] = Inr (arena, dfa)" "length arena \<le> ARENA_SIZE"
  obtains d s0 where "l_build_many lib True DFA_MAX_SIZE pats = Inr d" and "d_start d True = Inr s0" and "dense_wf d"
    and "encode_dfa lib pats [] pim ms = Inr (arena, dfa)"
proof -
  have enc: "encode_dfa lib pats [] pim ms = Inr (arena, dfa)"
    using built(1) by (simp add: build_path_dfa_def pats)
  then obtain d where d: "l_build_many lib True DFA_MAX_SIZE pats = Inr d"
    by (auto simp: encode_dfa_def extract_dfa_def build_dfa_def rbind_eq_Inr split: sum.splits)
  then have wfs: "dense_wf d" "align_wf (l_align lib)" using wf unfolding build_wf_def by blast+
  obtain s0 where "d_start d True = Inr s0"
    by (rule encode_dfa_holds [OF enc wfs(2) d wfs(1) built(2)])
  with d wfs(1) enc show thesis by (intro that)
qed

text \<open>The verdict of the program is the reading of the list.\<close>

lemma verdict_of_list:
  assumes wf: "build_wf lib" and lf: "leftmost_first rx lib ms" and force: "in_force lib ms g"
    and built: "build_path_dfa lib ms [] = Inr (arena, dfa)" "length arena \<le> ARENA_SIZE" and few: "length (ms_matches ms) < 2 ^ 32"
    and t: "ta_exe t = Some dents" "walkable dents"
  shows "bg_has_dfa g \<and> fst (verdict g t) =
    (case direction_for rx lib ms (ta_uid t) (full_path dents) of None \<Rightarrow> -1 | Some x \<Rightarrow> uint (redirect_byte x))"
proof -
  let ?path = "full_path dents"
  obtain pats pim where pats: "path_loop_set lib 0 (ms_matches ms) ([], []) = (pats, pim)" by fastforce
  obtain d s0 where d: "l_build_many lib True DFA_MAX_SIZE pats = Inr d" "d_start d True = Inr s0" "dense_wf d"
    by (rule built_automaton [OF wf pats built])
  obtain mem where g: "bg_has_dfa g" "bg_dfa g = dfa" "arena_mem g = load_arena arena mem"
    and enc: "encode_dfa lib pats [] pim ms = Inr (arena, dfa)"
    using force pats built by (rule in_force_arena)
  have al: "align_wf (l_align lib)" using wf unfolding build_wf_def by blast
  have one: "\<forall>s. d_is_match d s \<longrightarrow> d_match_len d s = 1"
    and acc: "d_is_match d (dense_final d s0 ?path) \<longleftrightarrow> (\<exists>i < length pats. rx (pats ! i) ?path)"
    and least: "\<And>i. i < length pats \<Longrightarrow> rx (pats ! i) ?path \<Longrightarrow> \<forall>j < i. \<not> rx (pats ! j) ?path \<Longrightarrow> d_match_pattern d (dense_final d s0 ?path) 0 = i"
    using lf pats d(1,2) unfolding leftmost_first_def by blast+
  have "fst (verdict g t) = (case direction_for rx lib ms (ta_uid t) ?path of None \<Rightarrow> -1 | Some x \<Rightarrow> uint (redirect_byte x))"
  proof (cases "first_match rx lib ms ?path")
    case None
    with acc first_match_None [OF pats, of rx ?path] have "\<not> d_is_match d (dense_final d s0 ?path)" by simp
    with verdict_given [OF enc al d(1,3) built(2) t(2) d(2), of mem "ta_uid t"] None show ?thesis
      by (simp add: verdict_def g t(1) direction_for_def)
  next
    case (Some m)
    obtain i where i: "i < length pats" "rx (pats ! i) ?path" "\<forall>j < i. \<not> rx (pats ! j) ?path" "m = ms_matches ms ! (pim ! i)"
      by (rule first_match_Some [OF pats Some])
    have "length pats \<le> length (ms_matches ms)"
      using pats length_selected [of lib 0 "ms_matches ms"] by (auto simp: path_loop_selected)
    then have "unat (of_nat i :: u32) = i" using i(1) few by (intro unat_of_nat_u32) simp
    then have "pat_match pim ms (of_nat (d_match_pattern d (dense_final d s0 ?path) 0)) = m"
      using least [OF i(1-3)] i(4) by (simp add: pat_match_def)
    moreover have "d_is_match d (dense_final d s0 ?path)" using acc i(1,2) by blast
    ultimately show ?thesis
      using verdict_single [OF enc al d(1,3) built(2) t(2) d(2) _ one, of mem "ta_uid t"] Some
      by (simp add: verdict_def g t(1) direction_for_def)
  qed
  with g(1) show ?thesis by blast
qed

text \<open>A new socket is marked by a positive verdict.\<close>

lemma socket_verdict:
  assumes "coherent procs g" and "procs (task_id t) = t" and "bg_has_dfa g"
  shows "snd (cgroup_socket_create alloc keep family t g) =
    (if bf_enable (bg_config g) \<and> is_inet family \<and> 0 < fst (verdict g t) then Some (bf_mark (bg_config g)) else None)"
proof -
  have "snd (cgroup_socket_create alloc keep family t g) = snd (socket_create_with (judge_uncached alloc) family t (core g))"
    using cached.socket_create_ok [OF assms(1,2), of alloc keep family]
    unfolding cgroup_socket_create_def by (metis prod.collapse snd_conv)
  then show ?thesis
    using assms(3) by (auto simp: socket_create_with_def judge_uncached_def verdict_def split: prod.splits)
qed

section \<open>Settled sockets\<close>

text \<open>What the example provides for the hypotheses on the automaton.\<close>

lemma example_facts:
  "pages_free (\<lambda>n. True)" "bc_last_gen no_ctx = 0" "bg_last_gen bpf_globals_zero = 0" "bc_arena no_ctx = []"
  "unat (ms_generation (st_matches one_match)) + length ([] :: hist_event list) < 2 ^ 64"
  "ms_generation (st_matches one_match) \<noteq> 0" "l_build_many two_libs True DFA_MAX_SIZE [pat] = Inr (two_dense [0] [0])"
  "d_start (two_dense [0] [0]) True = Inr 2" "ta_exe (ex_task u) = Some [[98], [SLASH]]" "walkable [[98], [SLASH]]"
  "full_path [[98], [SLASH]] \<noteq> []"
  by (simp_all add: pages_free_def no_ctx_def bpf_globals_zero_def uid_match_def two_libs_def two_sel ex_task_def
      walkable_def NAME_MAX_def PATH_MAX_def full_path_def SLASH_def)

section \<open>From the call of the service to the mark of a socket\<close>

text \<open>What a new socket gets while the automaton of a list is in force.\<close>

lemma socket_mark:
  assumes wf: "build_wf lib" and force: "in_force lib ms g" and co: "coherent procs g" "procs (task_id t) = t"
    and pats: "path_loop_set lib 0 (ms_matches ms) ([], []) = (pats, pim)"
    and built: "build_path_dfa lib ms [] = Inr (arena, dfa)" "length arena \<le> ARENA_SIZE"
    and d: "l_build_many lib True DFA_MAX_SIZE pats = Inr d" "d_start d True = Inr s0"
    and t: "ta_exe t = Some dents" "walkable dents" and one: "\<forall>s. d_is_match d s \<longrightarrow> d_match_len d s = 1"
  defines "m \<equiv> pat_match pim ms (of_nat (d_match_pattern d (dense_final d s0 (full_path dents)) 0))"
  shows "snd (cgroup_socket_create alloc keep family t g) =
    (if bf_enable (bg_config g) \<and> is_inet family \<and> d_is_match d (dense_final d s0 (full_path dents)) \<and> uid_applies (ta_uid t) m \<and> m_direction m = Direction_redirect
     then Some (bf_mark (bg_config g)) else None)"
proof -
  have al: "align_wf (l_align lib)" and dense: "dense_wf d"
    using wf(1) d(1) unfolding build_wf_def by blast+
  obtain mem where g: "bg_has_dfa g" "bg_dfa g = dfa" "arena_mem g = load_arena arena mem"
    and enc: "encode_dfa lib pats [] pim ms = Inr (arena, dfa)"
    using force pats built by (rule in_force_arena)
  have ver: "fst (verdict g t) = (if d_is_match d (dense_final d s0 (full_path dents)) \<and> uid_applies (ta_uid t) m
      then uint (redirect_byte (m_direction m)) else -1)"
    using verdict_single [OF enc al d(1) dense built(2) t(2) d(2) _ one, of mem "ta_uid t"]
      verdict_given [OF enc al d(1) dense built(2) t(2) d(2), of mem "ta_uid t"]
    by (auto simp: verdict_def g t(1) m_def)
  have "snd (cgroup_socket_create alloc keep family t g) =
      (if bf_enable (bg_config g) \<and> is_inet family \<and> 0 < fst (verdict g t) then Some (bf_mark (bg_config g)) else None)"
    by (rule socket_verdict [OF co g(1)])
  then show ?thesis
    unfolding ver by (cases "m_direction m") simp_all
qed

text \<open>
  What a new socket gets, from the calls of the service to the mark.  Let calls, turns of the tasks,
  notifications, packets and hooks come in any order, the daemon settle, and the tasks of the hooks keep
  executable and user.  Then a socket that a task creates is given the daemon's mark exactly when the
  daemon is enabled and its output is up, it is an internet socket, the automaton of the present list
  accepts the path of the executable, and the match that the final state stands for is for the user
  and redirects; provided that each match state stands for one match.
\<close>

theorem settled_socket_marked:
  assumes env: "build_wf (ev_libs v)" "kernel_sane (ev_kernel v)" "pages_free (ev_alloc v)"
    and bound: "unat (ms_generation (st_matches (w_value w))) + length es + 11 < 2 ^ 64"
    and run: "task_run v (es @ settle mark) (tasks_init w log) = Some s"
    and procs: "list_all (hooks_in procs) es" "procs (task_id t) = t"
    and now: "w_value (ch_state (tk_ch s)) = st" "w_value (ch_routes (tk_ch s)) = r" and gen: "ms_generation (st_matches st) \<noteq> 0"
    and pats: "path_loop_set (ev_libs v) 0 (ms_matches (st_matches st)) ([], []) = (pats, pim)"
    and built: "build_path_dfa (ev_libs v) (st_matches st) [] = Inr (arena, dfa)" "length arena \<le> ARENA_SIZE"
    and d: "l_build_many (ev_libs v) True DFA_MAX_SIZE pats = Inr d" "d_start d True = Inr s0"
    and t: "ta_exe t = Some dents" "walkable dents"
    and one: "\<forall>s. d_is_match d s \<longrightarrow> d_match_len d s = 1"
  defines "m \<equiv> pat_match pim (st_matches st) (of_nat (d_match_pattern d (dense_final d s0 (full_path dents)) 0))"
  shows "snd (cgroup_socket_create (ev_alloc v) (ev_keep v) family t (tk_bpf s)) =
    (if st_enable st \<and> (\<exists>l. r = Some l \<and> r_is_up l) \<and> is_inet family \<and> d_is_match d (dense_final d s0 (full_path dents))
        \<and> uid_applies (ta_uid t) m \<and> m_direction m = Direction_redirect
     then Some (tk_sockets s) else None)"
proof -
  have "settled v log s"
    using settle_settles [OF env bound run] by blast
  then have "in_force (ev_libs v) (st_matches st) (tk_bpf s)" "bf_mark (bg_config (tk_bpf s)) = tk_sockets s"
    "bf_enable (bg_config (tk_bpf s)) = fst (reload_blocker st r)"
    using gen by (simp_all add: settled_def config_done_def now Let_def)
  moreover have "fst (reload_blocker st r) \<longleftrightarrow> st_enable st \<and> (\<exists>l. r = Some l \<and> r_is_up l)"
    by (auto simp: reload_blocker_def split: option.split)
  ultimately show ?thesis
    using socket_mark [OF env(1) _ settle_coherent [OF procs(1) run] procs(2) pats built d t one, of "ev_alloc v" "ev_keep v" family]
    by (simp add: m_def)
qed

theorem settled_socket_marked_witness:
  "\<exists>s. task_run ex_env ([] @ settle 70000) (tasks_init (watch_new tun_state) []) = Some s \<and>
    snd (cgroup_socket_create (ev_alloc ex_env) (ev_keep ex_env) 2 (ex_task 0) (tk_bpf s)) = Some 70000 \<and>
    snd (cgroup_socket_create (ev_alloc ex_env) (ev_keep ex_env) 1 (ex_task 0) (tk_bpf s)) = None"
proof -
  have libs: "ev_libs ex_env = two_libs" by (simp add: ex_env_def)
  have st: "st_matches tun_state = st_matches one_match" "st_enable tun_state" by (simp_all add: tun_for_def)
  obtain pat where pats: "path_loop_set two_libs 0 (ms_matches (st_matches one_match)) ([], []) = ([pat], [0])"
    by (rule two_libs_patterns)
  obtain arena dfa where b: "build_path_dfa two_libs (st_matches one_match) [] = Inr (arena, dfa)" "length arena \<le> ARENA_SIZE"
    by (rule two_libs_build)
  obtain s where run: "task_run ex_env ([] @ settle 70000) (tasks_init (watch_new tun_state) []) = Some s"
    "tk_sockets s = 70000" "w_value (ch_state (tk_ch s)) = tun_state" "w_value (ch_routes (tk_ch s)) = Some tun_route"
    by (rule ex_settle_run [of "watch_new tun_state" 0]) (simp_all add: watch_new_def)
  note e = example_facts
  have "list_all (hooks_in (\<lambda>i. ex_task 0)) []" by simp
  note mark = settled_socket_marked [OF ex_env_facts run(1) this refl run(3,4), unfolded libs st(1), OF e(6) pats b e(7-10) two_one_pattern]
  have "snd (cgroup_socket_create (ev_alloc ex_env) (ev_keep ex_env) 2 (ex_task 0) (tk_bpf s)) = Some 70000"
    "snd (cgroup_socket_create (ev_alloc ex_env) (ev_keep ex_env) 1 (ex_task 0) (tk_bpf s)) = None"
    using e(11) by (simp_all add: mark st run(2) tun_route_def two_sel two_dense_final two_pattern pat_match_def uid_match_def ex_path_def
        match_default_def uid_applies_def is_inet_def AF_INET6_def)
  with run(1) show ?thesis by (simp only: ex_simps) auto
qed

section \<open>From the settled daemon to the mark\<close>

text \<open>Once the daemon has settled, a new socket is marked as the first match of the present list says.\<close>

lemma settled_socket:
  assumes env: "build_wf (ev_libs v)" "kernel_sane (ev_kernel v)" "pages_free (ev_alloc v)" and lf: "leftmost_first rx (ev_libs v) (st_matches st)"
    and bound: "unat (ms_generation (st_matches (w_value w))) + length es + 11 < 2 ^ 64"
    and run: "task_run v (es @ settle mark) (tasks_init w log) = Some s"
    and procs: "list_all (hooks_in procs) es" "procs (task_id t) = t"
    and now: "w_value (ch_state (tk_ch s)) = st" "w_value (ch_routes (tk_ch s)) = r" and gen: "ms_generation (st_matches st) \<noteq> 0"
    and built: "build_path_dfa (ev_libs v) (st_matches st) [] = Inr (arena, dfa)" "length arena \<le> ARENA_SIZE"
    and few: "length (ms_matches (st_matches st)) < 2 ^ 32"
    and t: "ta_exe t = Some dents" "walkable dents"
  shows "snd (cgroup_socket_create (ev_alloc v) (ev_keep v) family t (tk_bpf s)) =
    (if st_enable st \<and> (\<exists>l. r = Some l \<and> r_is_up l) \<and> is_inet family
        \<and> direction_for rx (ev_libs v) (st_matches st) (ta_uid t) (full_path dents) = Some Direction_redirect
     then Some (tk_sockets s) else None)"
proof -
  have "settled v log s"
    using settle_settles [OF env bound run] by blast
  then have force: "in_force (ev_libs v) (st_matches st) (tk_bpf s)" and mark: "bf_mark (bg_config (tk_bpf s)) = tk_sockets s"
    and enable: "bf_enable (bg_config (tk_bpf s)) = fst (reload_blocker st r)"
    using gen by (simp_all add: settled_def config_done_def now Let_def)
  note ver = verdict_of_list [OF env(1) lf force built few t]
  have "fst (reload_blocker st r) \<longleftrightarrow> st_enable st \<and> (\<exists>l. r = Some l \<and> r_is_up l)"
    by (auto simp: reload_blocker_def split: option.split)
  moreover have "0 < fst (verdict (tk_bpf s) t) \<longleftrightarrow>
      direction_for rx (ev_libs v) (st_matches st) (ta_uid t) (full_path dents) = Some Direction_redirect"
  proof (cases "direction_for rx (ev_libs v) (st_matches st) (ta_uid t) (full_path dents)")
    case (Some x)
    with ver show ?thesis by (cases x) simp_all
  qed (use ver in simp)
  ultimately show ?thesis
    using socket_verdict [OF settle_coherent [OF procs(1) run] procs(2), of "ev_alloc v" "ev_keep v" family] ver mark enable by simp
qed

lemma two_leftmost: "leftmost_first (\<lambda>pat path. True) two_libs ms"
  unfolding leftmost_first_def
proof (intro allI impI)
  fix pats pim d s0 path
  assume d: "l_build_many two_libs True DFA_MAX_SIZE pats = Inr d" "d_start d True = Inr s0"
  show "(\<forall>s. d_is_match d s \<longrightarrow> d_match_len d s = 1) \<and>
      d_is_match d (dense_final d s0 path) = (\<exists>i < length pats. True) \<and>
      (\<forall>i < length pats. True \<longrightarrow> (\<forall>j < i. \<not> True) \<longrightarrow> d_match_pattern d (dense_final d s0 path) 0 = i)"
  proof (cases "pats = []")
    case True
    with d show ?thesis by (auto simp: two_libs_def none_dense_def table_dense_def)
  next
    case False
    with d have "d = two_dense [0] [0]" "s0 = 2" by (auto simp: two_libs_def two_sel)
    moreover have "d_match_pattern (two_dense [0] [0]) 4 0 = 0" by (simp add: two_dense_def table_dense_def)
    ultimately show ?thesis using False two_one_pattern
      by (auto simp: two_dense_final two_sel two_pattern)
  qed
qed

end
