(* ===== verification/Gui_Message.thy ===== *)
theory Gui_Message
  imports Config_Types
begin

text \<open>
  \<^verbatim>\<open>rebpf-gui/message\<close>: the messages between the window, the tray and the D-Bus client, the
  structs that cross the bus with the conversions of \<^verbatim>\<open>message/macros.rs\<close>, and the
  matcher that the search box applies to running processes.
\<close>

section \<open>Structs\<close>

record Settings =
  gs_allow_lan :: bool
  gs_spoof_dns :: bool
  gs_spoof_dns_ipv4 :: string
  gs_drop_egress_without_output :: bool

record Attached =
  at_enabled :: bool
  at_attached :: bool
  at_blocker :: string
  at_to_ifname :: string
  at_to_ifindex :: string
  at_to_addr :: string

text \<open>\<^verbatim>\<open>dtime_sec\<close> is kept as text: the window does not use it.\<close>

record GStats =
  sg_tx_bytes :: u64
  sg_rx_bytes :: u64
  sg_dtime_sec :: string

record GMatch =
  gm_pattern :: string
  gm_kind :: string
  gm_method :: string
  gm_direction :: string
  gm_user :: string
  gm_uid :: string

definition settings_default :: Settings where
  "settings_default = \<lparr>gs_allow_lan = False, gs_spoof_dns = False, gs_spoof_dns_ipv4 = '''',
     gs_drop_egress_without_output = False\<rparr>"

definition attached_default :: Attached where
  "attached_default = \<lparr>at_enabled = False, at_attached = False, at_blocker = '''', at_to_ifname = '''',
     at_to_ifindex = '''', at_to_addr = ''''\<rparr>"

definition gstats_default :: GStats where
  "gstats_default = \<lparr>sg_tx_bytes = 0, sg_rx_bytes = 0, sg_dtime_sec = ''0''\<rparr>"

definition gmatch_default :: GMatch where
  "gmatch_default = \<lparr>gm_pattern = '''', gm_kind = '''', gm_method = '''', gm_direction = '''', gm_user = '''', gm_uid = ''''\<rparr>"

section \<open>Dictionaries\<close>

text \<open>\<^verbatim>\<open>k.replace('-', "_")\<close>.\<close>

definition dash_to_underscore :: "string \<Rightarrow> string" where
  "dash_to_underscore k = map (\<lambda>c. if c = CHR ''-'' then CHR ''_'' else c) k"

definition norm_key :: "string \<times> string \<Rightarrow> string \<times> string" where
  "norm_key kv = (dash_to_underscore (fst kv), snd kv)"

text \<open>\<^verbatim>\<open>if let Ok(v) = v.parse() { s.field = v }\<close>, and \<^verbatim>\<open>unwrap_or_default\<close> with the default.\<close>

definition or_keep :: "'a option \<Rightarrow> 'a \<Rightarrow> 'a" where
  "or_keep x old = (case x of None \<Rightarrow> old | Some y \<Rightarrow> y)"

lemma or_keep_simps [simp]: "or_keep None old = old" "or_keep (Some y) old = y"
  by (simp_all add: or_keep_def)

text \<open>The body of each loop, on a key whose dashes are replaced.\<close>

fun settings_put :: "Settings \<Rightarrow> string \<times> string \<Rightarrow> Settings" where
  "settings_put s (k, v) =
    (if k = ''allow_lan'' then s\<lparr>gs_allow_lan := or_keep (parse_bool v) False\<rparr>
     else if k = ''spoof_dns'' then s\<lparr>gs_spoof_dns := or_keep (parse_bool v) False\<rparr>
     else if k = ''spoof_dns_ipv4'' then s\<lparr>gs_spoof_dns_ipv4 := v\<rparr>
     else if k = ''drop_egress_without_output''
       then s\<lparr>gs_drop_egress_without_output := or_keep (parse_bool v) False\<rparr>
     else s)"

definition settings_from_iter :: "hashmap \<Rightarrow> Settings" where
  "settings_from_iter h = foldl settings_put settings_default (map norm_key h)"

definition settings_from_hashmap :: "hashmap \<Rightarrow> Settings" where
  "settings_from_hashmap h = settings_from_iter h"

definition settings_into_hashmap :: "Settings \<Rightarrow> hashmap" where
  "settings_into_hashmap s =
    [(''allow_lan'', show_bool (gs_allow_lan s)), (''spoof_dns'', show_bool (gs_spoof_dns s)),
     (''spoof_dns_ipv4'', gs_spoof_dns_ipv4 s),
     (''drop_egress_without_output'', show_bool (gs_drop_egress_without_output s))]"

fun attached_put :: "Attached \<Rightarrow> string \<times> string \<Rightarrow> Attached" where
  "attached_put s (k, v) =
    (if k = ''enabled'' then s\<lparr>at_enabled := or_keep (parse_bool v) (at_enabled s)\<rparr>
     else if k = ''attached'' then s\<lparr>at_attached := or_keep (parse_bool v) (at_attached s)\<rparr>
     else if k = ''blocker'' then s\<lparr>at_blocker := v\<rparr>
     else if k = ''to_ifname'' then s\<lparr>at_to_ifname := v\<rparr>
     else if k = ''to_ifindex'' then s\<lparr>at_to_ifindex := v\<rparr>
     else if k = ''to_addr'' then s\<lparr>at_to_addr := v\<rparr>
     else s)"

definition attached_from_iter :: "hashmap \<Rightarrow> Attached" where
  "attached_from_iter h = foldl attached_put attached_default (map norm_key h)"

definition attached_from_hashmap :: "hashmap \<Rightarrow> Attached" where
  "attached_from_hashmap h = attached_from_iter h"

definition parse_u64 :: "string \<Rightarrow> u64 option" where
  "parse_u64 s = map_option of_nat (parse_uint (2 ^ 64 - 1) s)"

text \<open>\<open>parse_f64\<close> stands for \<^verbatim>\<open>f64::from_str\<close>, its result as text.\<close>

fun gstats_put :: "(string \<Rightarrow> string option) \<Rightarrow> GStats \<Rightarrow> string \<times> string \<Rightarrow> GStats" where
  "gstats_put parse_f64 s (k, v) =
    (if k = ''tx_bytes'' then s\<lparr>sg_tx_bytes := or_keep (parse_u64 v) (sg_tx_bytes s)\<rparr>
     else if k = ''rx_bytes'' then s\<lparr>sg_rx_bytes := or_keep (parse_u64 v) (sg_rx_bytes s)\<rparr>
     else if k = ''dtime_sec'' then s\<lparr>sg_dtime_sec := or_keep (parse_f64 v) (sg_dtime_sec s)\<rparr>
     else s)"

definition gstats_from_hashmap :: "(string \<Rightarrow> string option) \<Rightarrow> hashmap \<Rightarrow> GStats" where
  "gstats_from_hashmap parse_f64 h = foldl (gstats_put parse_f64) gstats_default (map norm_key h)"

fun gmatch_put :: "GMatch \<Rightarrow> string \<times> string \<Rightarrow> GMatch" where
  "gmatch_put s (k, v) =
    (if k = ''pattern'' then s\<lparr>gm_pattern := v\<rparr>
     else if k = ''kind'' then s\<lparr>gm_kind := v\<rparr>
     else if k = ''method'' then s\<lparr>gm_method := v\<rparr>
     else if k = ''direction'' then s\<lparr>gm_direction := v\<rparr>
     else if k = ''user'' then s\<lparr>gm_user := v\<rparr>
     else if k = ''uid'' then s\<lparr>gm_uid := v\<rparr>
     else s)"

definition gmatch_from_iter :: "hashmap \<Rightarrow> GMatch" where
  "gmatch_from_iter h = foldl gmatch_put gmatch_default (map norm_key h)"

definition gmatch_from_hashmap :: "hashmap \<Rightarrow> GMatch" where
  "gmatch_from_hashmap h = gmatch_from_iter h"

definition field_unless_empty :: "string \<Rightarrow> string \<Rightarrow> hashmap" where
  "field_unless_empty k v = (if v \<noteq> '''' then [(k, v)] else [])"

definition gmatch_to_hashmap :: "GMatch \<Rightarrow> hashmap" where
  "gmatch_to_hashmap m =
    field_unless_empty ''pattern'' (gm_pattern m) @ field_unless_empty ''kind'' (gm_kind m) @
    field_unless_empty ''method'' (gm_method m) @ field_unless_empty ''direction'' (gm_direction m) @
    field_unless_empty ''user'' (gm_user m) @ field_unless_empty ''uid'' (gm_uid m)"

section \<open>Messages\<close>

text \<open>\<^verbatim>\<open>zbus::Error\<close>, with the two variants that the window distinguishes.\<close>

datatype zbus_error =
    ZServiceUnknown string
  | ZMethodError string string
  | ZOther string

datatype Tray = Tray_NotConnected | Tray_Enabled | Tray_Disabled

datatype TrayTheme = Theme_Dark | Theme_Light

record TrayState =
  ts_state :: Tray
  ts_theme :: TrayTheme
  ts_blocker :: string
  ts_output_dev :: string

text \<open>An action of the text editor: one that edits, or another.\<close>

datatype editor_action = ActEdit string | ActOther string

datatype (plugins only: size) M =
    M_Enable | M_Disable | M_Exit | M_TrayUp
  | M_WindowOpen | M_WindowToggle | M_WindowCloseId nat
  | M_Settings Settings | M_SettingsSubmit | M_SettingsOpen | M_SettingsClose
  | M_SettingsLan bool | M_SettingsDns bool | M_SettingsDnsIp string | M_SettingsDnsIpSubmit
  | M_SettingsDropEgressWithoutOutput bool
  | M_MatchAdd | M_MatchDelete u64 nat | M_MatchFromProc u64 nat | M_MatchUpdate u64 nat string
  | M_MatchKind u64 nat string | M_MatchMethod u64 nat string | M_MatchDir | M_MatchUpdateDir u64 nat
  | M_MatchSubmit u64 nat
  | M_Procs string | M_Kind string | M_Method string
  | M_Attached Attached | M_Matches "GMatch list" | M_Stats GStats
  | M_DbusErr zbus_error | M_DbusFail zbus_error | M_DbusCantConnect zbus_error | M_DbusConnected
  | M_ActiveProcs "nat \<rightharpoonup> string list"
  | M_MatchFocus | M_MatchUnfocus | M_ProcPopupFocus | M_ProcPopupUnfocus
  | M_OutputDevClick | M_OutputDevFocus | M_OutputDevUnfocus | M_OutputDevPopupFocus | M_OutputDevPopupUnfocus
  | M_OutputDevSet string | M_OutputDevSubmit | M_OutputDevSetSubmit string
  | M_Esc | M_ModalNext | M_ModalReplace | M_ModalDismiss | M_StatusShow
  | M_ModalEditAction editor_action | M_NopString string | M_Nop

datatype D =
    D_WindowOpened | D_WindowClosed | D_Enable | D_Disable
  | D_ChangeOutput string | D_SettingsUpdate Settings
  | D_MatchAdd GMatch | D_MatchDelete GMatch | D_MatchUpdate GMatch GMatch

section \<open>Matching processes\<close>

text \<open>\<^verbatim>\<open>s.rsplit_once('/').map(|(_, r)| r).unwrap_or(s)\<close>: all of \<open>s\<close> where it has no slash.\<close>

definition after_slash :: "string \<Rightarrow> string" where
  "after_slash s = rev (takeWhile (\<lambda>c. c \<noteq> CHR ''/'') (rev s))"

definition str_prefix :: "string \<Rightarrow> string \<Rightarrow> bool" where
  "str_prefix p s \<longleftrightarrow> take (length p) s = p"

definition str_suffix :: "string \<Rightarrow> string \<Rightarrow> bool" where
  "str_suffix p s \<longleftrightarrow> length p \<le> length s \<and> drop (length s - length p) s = p"

definition str_contains :: "string \<Rightarrow> string \<Rightarrow> bool" where
  "str_contains p s \<longleftrightarrow> list_ex (\<lambda>i. str_prefix p (drop i s)) [0..<Suc (length s)]"

text \<open>\<open>regex_new\<close> is \<^verbatim>\<open>Regex::new(..).ok()\<close>, a compiled regex its \<^verbatim>\<open>is_match\<close>.\<close>

type_synonym regex = "string \<Rightarrow> bool"
type_synonym regex_cache = "GMatch \<rightharpoonup> regex option"

definition gmatch_matches ::
  "(string \<Rightarrow> regex option) \<Rightarrow> GMatch \<Rightarrow> string \<Rightarrow> regex_cache \<Rightarrow> bool \<times> regex_cache" where
  "gmatch_matches regex_new m s cache =
    (case (if gm_kind m = ''path'' then Some s
           else if gm_kind m = ''basename'' then Some (after_slash s)
           else None) of
       None \<Rightarrow> (False, cache)
     | Some s \<Rightarrow>
       if gm_method m = ''full'' then (s = gm_pattern m, cache)
       else if gm_method m = ''prefix'' then (str_prefix (gm_pattern m) s, cache)
       else if gm_method m = ''suffix'' then (str_suffix (gm_pattern m) s, cache)
       else if gm_method m = ''substring'' then (str_contains (gm_pattern m) s, cache)
       else if gm_method m = ''regex'' then
         let re = (case cache m of Some re \<Rightarrow> re | None \<Rightarrow> regex_new (gm_pattern m))
         in (case re of None \<Rightarrow> False | Some r \<Rightarrow> r s, cache(m \<mapsto> re))
       else (False, cache))"

section \<open>Laws of the conversions\<close>

text \<open>What an entry does to each field; two entries with different keys commute field by field.\<close>

lemma settings_put_fields:
  "gs_allow_lan (settings_put s (k, v)) = (if k = ''allow_lan'' then or_keep (parse_bool v) False else gs_allow_lan s)"
  "gs_spoof_dns (settings_put s (k, v)) = (if k = ''spoof_dns'' then or_keep (parse_bool v) False else gs_spoof_dns s)"
  "gs_spoof_dns_ipv4 (settings_put s (k, v)) = (if k = ''spoof_dns_ipv4'' then v else gs_spoof_dns_ipv4 s)"
  "gs_drop_egress_without_output (settings_put s (k, v)) = (if k = ''drop_egress_without_output'' then or_keep (parse_bool v) False else gs_drop_egress_without_output s)"
  "Settings.more (settings_put s (k, v)) = Settings.more s"
  by simp_all

lemma attached_put_fields:
  "at_enabled (attached_put s (k, v)) = (if k = ''enabled'' then or_keep (parse_bool v) (at_enabled s) else at_enabled s)"
  "at_attached (attached_put s (k, v)) = (if k = ''attached'' then or_keep (parse_bool v) (at_attached s) else at_attached s)"
  "at_blocker (attached_put s (k, v)) = (if k = ''blocker'' then v else at_blocker s)"
  "at_to_ifname (attached_put s (k, v)) = (if k = ''to_ifname'' then v else at_to_ifname s)"
  "at_to_ifindex (attached_put s (k, v)) = (if k = ''to_ifindex'' then v else at_to_ifindex s)"
  "at_to_addr (attached_put s (k, v)) = (if k = ''to_addr'' then v else at_to_addr s)"
  "Attached.more (attached_put s (k, v)) = Attached.more s"
  by simp_all

lemma gmatch_put_fields:
  "gm_pattern (gmatch_put s (k, v)) = (if k = ''pattern'' then v else gm_pattern s)"
  "gm_kind (gmatch_put s (k, v)) = (if k = ''kind'' then v else gm_kind s)"
  "gm_method (gmatch_put s (k, v)) = (if k = ''method'' then v else gm_method s)"
  "gm_direction (gmatch_put s (k, v)) = (if k = ''direction'' then v else gm_direction s)"
  "gm_user (gmatch_put s (k, v)) = (if k = ''user'' then v else gm_user s)"
  "gm_uid (gmatch_put s (k, v)) = (if k = ''uid'' then v else gm_uid s)"
  "GMatch.more (gmatch_put s (k, v)) = GMatch.more s"
  by simp_all

lemma settings_put_commute:
  "k \<noteq> k' \<Longrightarrow> settings_put (settings_put s (k', v')) (k, v) = settings_put (settings_put s (k, v)) (k', v')"
  by (rule Settings.equality) (auto simp: settings_put_fields simp del: settings_put.simps)

interpretation settings_fields: field_table "\<lambda>s kv. Inr (settings_put s kv)"
  by unfold_locales (simp add: settings_put_commute del: settings_put.simps)

lemma attached_put_commute:
  "k \<noteq> k' \<Longrightarrow> attached_put (attached_put s (k', v')) (k, v) = attached_put (attached_put s (k, v)) (k', v')"
  by (rule Attached.equality) (auto simp: attached_put_fields simp del: attached_put.simps)

interpretation attached_fields: field_table "\<lambda>s kv. Inr (attached_put s kv)"
  by unfold_locales (simp add: attached_put_commute del: attached_put.simps)

lemma gmatch_put_commute:
  "k \<noteq> k' \<Longrightarrow> gmatch_put (gmatch_put s (k', v')) (k, v) = gmatch_put (gmatch_put s (k, v)) (k', v')"
  by (rule GMatch.equality) (auto simp: gmatch_put_fields simp del: gmatch_put.simps)

interpretation gmatch_fields: field_table "\<lambda>s kv. Inr (gmatch_put s kv)"
  by unfold_locales (simp add: gmatch_put_commute del: gmatch_put.simps)

lemma rfoldl_total: "rfoldl (\<lambda>s x. Inr (f s x)) s xs = Inr (foldl f s xs)"
  by (induction xs arbitrary: s) simp_all

lemma mset_norm_key: "mset xs = mset ys \<Longrightarrow> mset (map norm_key xs) = mset (map norm_key ys)"
  by simp

text \<open>The order of a dictionary does not matter where its keys stay distinct.\<close>

lemma settings_order:
  assumes "mset h = mset h'" and "distinct (map fst (map norm_key h))"
  shows "settings_from_hashmap h' = settings_from_hashmap h"
  using settings_fields.from_iter_order [OF mset_norm_key [OF assms(1)] assms(2)]
  by (simp add: rfoldl_total settings_from_hashmap_def settings_from_iter_def)

lemma attached_order:
  assumes "mset h = mset h'" and "distinct (map fst (map norm_key h))"
  shows "attached_from_hashmap h' = attached_from_hashmap h"
  using attached_fields.from_iter_order [OF mset_norm_key [OF assms(1)] assms(2)]
  by (simp add: rfoldl_total attached_from_hashmap_def attached_from_iter_def)

lemma gmatch_order:
  assumes "mset h = mset h'" and "distinct (map fst (map norm_key h))"
  shows "gmatch_from_hashmap h' = gmatch_from_hashmap h"
  using gmatch_fields.from_iter_order [OF mset_norm_key [OF assms(1)] assms(2)]
  by (simp add: rfoldl_total gmatch_from_hashmap_def gmatch_from_iter_def)

text \<open>The cache changes nothing: its entries are what a fresh compilation gives.\<close>

definition cache_fresh :: "(string \<Rightarrow> regex option) \<Rightarrow> regex_cache \<Rightarrow> bool" where
  "cache_fresh regex_new cache \<longleftrightarrow> (\<forall>m re. cache m = Some re \<longrightarrow> re = regex_new (gm_pattern m))"

lemma gmatch_matches_cached:
  assumes "cache_fresh regex_new cache"
  shows "fst (gmatch_matches regex_new m s cache) = fst (gmatch_matches regex_new m s (\<lambda>_. None))"
    and "cache_fresh regex_new (snd (gmatch_matches regex_new m s cache))"
  using assms by (auto simp: gmatch_matches_def cache_fresh_def Let_def split: option.splits if_splits)

end
