(* ===== verification/Gui.thy ===== *)
theory Gui
  imports Gui_Message "HOL-Library.List_Lexorder"
begin

text \<open>
  The window of \<^verbatim>\<open>rebpf-gui\<close>: the state and the message handler of \<^verbatim>\<open>gui/gui.rs\<close>, and
  the process sweep of \<^verbatim>\<open>gui/utils.rs\<close>.  What belongs to the widget toolkit, the regex
  crate and the operating system is a field of \<open>gui_lib\<close>.  An \<^verbatim>\<open>unwrap\<close> or an index that
  fails is \<open>Inl Panic\<close>; the task that the handler returns to the toolkit is a list of
  \<open>gtask\<close>, chained tasks in their order.
\<close>

section \<open>Channels\<close>

text \<open>
  An unbounded channel: the messages that the receiver has not taken yet, and whether the
  receiver still exists.  \<^verbatim>\<open>tx.as_ref().unwrap().unbounded_send(x).unwrap()\<close> panics without a
  sender and on a channel whose receiver is dropped.
\<close>

record 'a chan =
  ch_open :: bool
  ch_sent :: "'a list"

definition tx_send :: "'a chan \<Rightarrow> 'a \<Rightarrow> 'a chan result" where
  "tx_send ch x = (if ch_open ch then Inr (ch\<lparr>ch_sent := ch_sent ch @ [x]\<rparr>) else Inl Panic)"

definition unbounded_send :: "'a chan option \<Rightarrow> 'a \<Rightarrow> 'a chan option result" where
  "unbounded_send tx x = rbind (ok_or Panic tx) (\<lambda>ch. rbind (tx_send ch x) (\<lambda>ch. Inr (Some ch)))"

section \<open>The toolkit and the system\<close>

text \<open>
  A directory listing of \<^verbatim>\<open>/proc\<close>: \<open>None\<close> where \<^verbatim>\<open>read_dir\<close> fails, an entry \<open>None\<close> where
  reading it fails, otherwise the file name and the target of its link \<^verbatim>\<open>exe\<close>, if that can be
  read.
\<close>

type_synonym proc_dir = "(string \<times> string option) option list option"

text \<open>
  \<open>gl_widget_id n\<close> and \<open>gl_window_id n\<close> are what the call number \<open>n\<close> of \<^verbatim>\<open>Id::unique\<close> and of
  \<^verbatim>\<open>window::open\<close> answers; \<open>'c\<close> is \<^verbatim>\<open>text_editor::Content\<close>.
\<close>

record 'c gui_lib =
  gl_widget_id :: "nat \<Rightarrow> nat"
  gl_window_id :: "nat \<Rightarrow> nat"
  gl_with_text :: "string \<Rightarrow> 'c"
  gl_perform :: "editor_action \<Rightarrow> 'c \<Rightarrow> 'c"
  gl_show_error :: "zbus_error \<Rightarrow> string"
  gl_regex_new :: "string \<Rightarrow> regex option"

datatype gtask = T_exit | T_close nat | T_open nat | T_unfocus nat

text \<open>\<^verbatim>\<open>DoUnfocus\<close> on the focusable widgets of the tree, by their identifier and focus.\<close>

definition do_unfocus :: "nat \<Rightarrow> (nat option \<times> bool) list \<Rightarrow> (nat option \<times> bool) list" where
  "do_unfocus w fs = map (\<lambda>(i, f). if i = Some w then (i, False) else (i, f)) fs"

section \<open>State\<close>

text \<open>
  The fields of \<^verbatim>\<open>gui::State\<close>; \<open>g_ids\<close> and \<open>g_windows\<close> count the calls of \<^verbatim>\<open>Id::unique\<close> and
  \<^verbatim>\<open>window::open\<close>.  \<^verbatim>\<open>theme\<close>, which only chooses colours, is left out.
\<close>

record 'c gstate =
  g_d_tx :: "D chan option"
  g_t_tx :: "TrayState chan option"
  g_tray_theme :: TrayTheme
  g_tray_up :: bool
  g_window :: "nat option"
  g_settings :: Settings
  g_settings_override :: Settings
  g_show_settings :: bool
  g_output_dev_input_id :: nat
  g_output_dev_input_focus :: bool
  g_output_dev_input :: string
  g_output_dev_input_sent :: bool
  g_output_dev_popup_focus :: bool
  g_proc_input_id :: nat
  g_proc_input_focus :: bool
  g_proc_input :: string
  g_proc_input_sent :: bool
  g_proc_popup_focus :: bool
  g_proc_input_dir :: string
  g_proc_input_default_dir :: string
  g_proc_input_kind :: string
  g_proc_input_method :: string
  g_proc_input_kind_after_refine :: bool
  g_proc_input_method_after_refine :: bool
  g_attached :: Attached
  g_stats :: GStats
  g_matches :: "(GMatch \<times> nat) list"
  g_matches_override :: "nat \<rightharpoonup> GMatch"
  g_matches_gen :: u64
  g_procs_active :: "nat \<rightharpoonup> string list"
  g_procs_all :: "(string \<times> u32) list option"
  g_procs_all_max :: nat
  g_dbus_conn_err :: "zbus_error option"
  g_dbus_errs :: "zbus_error list"
  g_modal_editor :: "'c option"
  g_ids :: nat
  g_windows :: nat

section \<open>Kinds and methods\<close>

definition KINDS :: "string list" where
  "KINDS = [''basename'', ''path'', ''ipv4'', ''dns'']"

definition METHODS :: "string list" where
  "METHODS = [''full'', ''substring'', ''prefix'', ''suffix'', ''regex'', ''subnet'']"

definition KIND_DEFAULT :: string where
  "KIND_DEFAULT = KINDS ! 0"

definition METHOD_DEFAULT :: string where
  "METHOD_DEFAULT = ''substring''"

definition default_method_for :: "string \<Rightarrow> string" where
  "default_method_for k = (if k = ''ipv4'' then ''full'' else ''substring'')"

definition methods_for :: "string \<Rightarrow> string list" where
  "methods_for k =
    (if k = ''basename'' \<or> k = ''path'' \<or> k = ''dns''
     then [''full'', ''substring'', ''prefix'', ''suffix'', ''regex'']
     else if k = ''ipv4'' then [''full'', ''subnet''] else [])"

definition method_or_unk :: "string \<Rightarrow> string" where
  "method_or_unk s = (case find (\<lambda>x. x = s) METHODS of None \<Rightarrow> '''' | Some x \<Rightarrow> x)"

definition kind_or_unk :: "string \<Rightarrow> string" where
  "kind_or_unk s = (case find (\<lambda>x. x = s) KINDS of None \<Rightarrow> '''' | Some x \<Rightarrow> x)"

text \<open>\<^verbatim>\<open>methods_for(KIND_DEFAULT).get(0).cloned().unwrap_or_default()\<close>.\<close>

definition first_method :: string where
  "first_method = (case methods_for KIND_DEFAULT of [] \<Rightarrow> '''' | x # _ \<Rightarrow> x)"

definition current_match :: "'c gstate \<Rightarrow> GMatch" where
  "current_match s =
    gmatch_default\<lparr>gm_kind := g_proc_input_kind s, gm_method := g_proc_input_method s,
      gm_pattern := g_proc_input s, gm_direction := g_proc_input_dir s\<rparr>"

section \<open>Running processes\<close>

text \<open>\<^verbatim>\<open>*res.entry(k).or_insert(0) += 1\<close> on a \<^verbatim>\<open>BTreeMap\<close>, a list sorted by key.\<close>

fun btree_bump :: "string \<Rightarrow> (string \<times> u32) list \<Rightarrow> (string \<times> u32) list" where
  "btree_bump k [] = [(k, 1)]"
| "btree_bump k ((a, n) # m) =
    (if k < a then (k, 1) # (a, n) # m else if k = a then (a, n + 1) # m
     else (a, n) # btree_bump k m)"

definition is_pid_name :: "string \<Rightarrow> bool" where
  "is_pid_name f = list_all (\<lambda>c. CHR ''0'' \<le> c \<and> c \<le> CHR ''9'') f"

text \<open>The loop over the entries; the filter threads its cache.\<close>

fun procs_sweep ::
  "(string \<Rightarrow> 'k \<Rightarrow> bool \<times> 'k) \<Rightarrow> nat \<Rightarrow> (string \<times> string option) option list \<Rightarrow> 'k
    \<Rightarrow> (string \<times> u32) list \<Rightarrow> (string \<times> u32) list result" where
  "procs_sweep keep max_len [] cache res = Inr res"
| "procs_sweep keep max_len (ent # ents) cache res =
    (if length res \<ge> max_len then Inr res
     else case ent of
       None \<Rightarrow> Inl Panic
     | Some (file_name, exe) \<Rightarrow>
       if \<not> is_pid_name file_name then procs_sweep keep max_len ents cache res
       else case exe of
         None \<Rightarrow> procs_sweep keep max_len ents cache res
       | Some exe \<Rightarrow>
         (case keep exe cache of (ok, cache') \<Rightarrow>
           if \<not> ok then procs_sweep keep max_len ents cache' res
           else procs_sweep keep max_len ents cache' (btree_bump exe res)))"

definition procs_all_with ::
  "(string \<Rightarrow> 'k \<Rightarrow> bool \<times> 'k) \<Rightarrow> 'k \<Rightarrow> nat \<Rightarrow> proc_dir \<Rightarrow> (string \<times> u32) list result" where
  "procs_all_with keep cache max_len dir =
    rbind (ok_or Panic dir) (\<lambda>ents. procs_sweep keep max_len ents cache [])"

definition refresh_procs_all :: "'c gui_lib \<Rightarrow> proc_dir \<Rightarrow> 'c gstate \<Rightarrow> 'c gstate result" where
  "refresh_procs_all L dir s =
    (let m = current_match s
     in rbind (procs_all_with (gmatch_matches (gl_regex_new L) m) (\<lambda>_. None) 10 dir)
          (\<lambda>res. Inr (s\<lparr>g_procs_all_max := 10, g_procs_all := Some res\<rparr>)))"

section \<open>Message handler\<close>

type_synonym 'c upd = "('c gstate \<times> gtask list) result"

definition send_d :: "'c gstate \<Rightarrow> D \<Rightarrow> 'c gstate result" where
  "send_d s d = rbind (unbounded_send (g_d_tx s) d) (\<lambda>tx. Inr (s\<lparr>g_d_tx := tx\<rparr>))"

definition send_t :: "'c gstate \<Rightarrow> TrayState \<Rightarrow> 'c gstate result" where
  "send_t s t = rbind (unbounded_send (g_t_tx s) t) (\<lambda>tx. Inr (s\<lparr>g_t_tx := tx\<rparr>))"

text \<open>\<^verbatim>\<open>Task::none()\<close>.\<close>

definition fin :: "'c gstate result \<Rightarrow> 'c upd" where
  "fin r = rbind r (\<lambda>s. Inr (s, []))"

definition on_window_close :: "'c gstate \<Rightarrow> nat \<Rightarrow> 'c upd" where
  "on_window_close s w =
    rbind (send_d s D_WindowClosed) (\<lambda>s.
      Inr (s\<lparr>g_window := None\<rparr>, [if g_tray_up s then T_close w else T_exit]))"

definition on_window_open :: "'c gui_lib \<Rightarrow> 'c gstate \<Rightarrow> 'c upd" where
  "on_window_open L s =
    rbind (send_d s D_WindowOpened) (\<lambda>s.
      let w = gl_window_id L (g_windows s)
      in Inr (s\<lparr>g_window := Some w, g_windows := Suc (g_windows s)\<rparr>, [T_open w]))"

definition on_settings_submit :: "'c gstate \<Rightarrow> 'c upd" where
  "on_settings_submit s =
    (if g_settings s \<noteq> g_settings_override s then fin (send_d s (D_SettingsUpdate (g_settings s)))
     else Inr (s, []))"

definition on_match_add :: "'c gstate \<Rightarrow> 'c upd" where
  "on_match_add s =
    rbind (send_d s (D_MatchAdd (current_match s))) (\<lambda>s.
      Inr (s\<lparr>g_proc_input_sent := True\<rparr>, [T_unfocus (g_proc_input_id s)]))"

definition on_match_delete :: "'c gstate \<Rightarrow> nat \<Rightarrow> 'c upd" where
  "on_match_delete s i = rbind (idx (g_matches s) i) (\<lambda>m. fin (send_d s (D_MatchDelete (fst m))))"

text \<open>\<^verbatim>\<open>s.matches_override.entry(i).or_insert_with(|| s.matches[i].0.clone())\<close>, then the write.\<close>

definition override_entry :: "'c gstate \<Rightarrow> nat \<Rightarrow> (GMatch \<Rightarrow> GMatch) \<Rightarrow> 'c gstate result" where
  "override_entry s i f =
    rbind (case g_matches_override s i of
             Some m \<Rightarrow> Inr m
           | None \<Rightarrow> rbind (idx (g_matches s) i) (\<lambda>m. Inr (fst m)))
      (\<lambda>m. Inr (s\<lparr>g_matches_override := (g_matches_override s)(i \<mapsto> f m)\<rparr>))"

definition on_match_submit :: "'c gstate \<Rightarrow> nat \<Rightarrow> 'c upd" where
  "on_match_submit s i =
    (let removed = g_matches_override s i; s = s\<lparr>g_matches_override := (g_matches_override s)(i := None)\<rparr>
     in rbind (case removed of
                 None \<Rightarrow> Inr s
               | Some m \<Rightarrow>
                 rbind (idx (g_matches s) i) (\<lambda>mi.
                   if m \<noteq> fst mi then send_d s (D_MatchUpdate (fst mi) m) else Inr s))
          (\<lambda>s. rbind (idx (g_matches s) i) (\<lambda>mi. Inr (s, [T_unfocus (snd mi)]))))"

definition on_match_dir :: "'c gstate \<Rightarrow> 'c upd" where
  "on_match_dir s =
    (if g_proc_input_dir s = ''redirect'' then Inr (s\<lparr>g_proc_input_dir := ''bypass''\<rparr>, [])
     else if g_proc_input_dir s = ''bypass'' then Inr (s\<lparr>g_proc_input_dir := ''redirect''\<rparr>, [])
     else Inl Panic)"

definition flip_direction :: "GMatch \<Rightarrow> GMatch" where
  "flip_direction m = m\<lparr>gm_direction := (if gm_direction m = ''redirect'' then ''bypass'' else ''redirect'')\<rparr>"

definition on_match_from_proc :: "'c gui_lib \<Rightarrow> proc_dir \<Rightarrow> 'c gstate \<Rightarrow> nat \<Rightarrow> 'c upd" where
  "on_match_from_proc L dir s i =
    rbind (ok_or Panic (g_procs_all s)) (\<lambda>procs.
    rbind (idx procs i) (\<lambda>p.
    rbind (refresh_procs_all L dir
             (s\<lparr>g_proc_input_kind := KIND_DEFAULT, g_proc_input_method := first_method,
                g_proc_input := after_slash (fst p), g_proc_input_kind_after_refine := True,
                g_proc_input_method_after_refine := True\<rparr>)) (\<lambda>s.
      Inr (s\<lparr>g_proc_popup_focus := False, g_proc_input_focus := False\<rparr>, []))))"

definition on_procs :: "'c gui_lib \<Rightarrow> proc_dir \<Rightarrow> 'c gstate \<Rightarrow> string \<Rightarrow> 'c upd" where
  "on_procs L dir s n =
    (let s = s\<lparr>g_proc_input_sent := False, g_proc_input := n, g_procs_all := None\<rparr>;
         s = (if g_proc_input_kind_after_refine s
              then s\<lparr>g_proc_input_kind := KIND_DEFAULT, g_proc_input_kind_after_refine := False\<rparr> else s);
         s = (if g_proc_input_method_after_refine s
              then s\<lparr>g_proc_input_method := first_method, g_proc_input_method_after_refine := False\<rparr> else s)
     in if g_proc_input s \<noteq> '''' then fin (refresh_procs_all L dir s) else Inr (s, []))"

definition on_output_dev_set :: "'c gstate \<Rightarrow> string \<Rightarrow> 'c gstate" where
  "on_output_dev_set s n =
    s\<lparr>g_output_dev_input_sent := at_to_ifname (g_attached s) = n, g_output_dev_input := n\<rparr>"

definition on_output_dev_submit :: "'c gstate \<Rightarrow> 'c upd" where
  "on_output_dev_submit s =
    (let s = s\<lparr>g_output_dev_input_focus := False, g_output_dev_popup_focus := False\<rparr>
     in rbind (if \<not> g_output_dev_input_sent s \<and> g_output_dev_input s \<noteq> at_to_ifname (g_attached s)
               then send_d (s\<lparr>g_output_dev_input_sent := True\<rparr>) (D_ChangeOutput (g_output_dev_input s))
               else Inr s)
          (\<lambda>s. Inr (s, [T_unfocus (g_output_dev_input_id s)])))"

definition tray_of :: "Attached \<Rightarrow> Tray" where
  "tray_of a = (if \<not> at_attached a \<or> at_blocker a \<noteq> '''' then Tray_NotConnected
                else if at_enabled a then Tray_Enabled else Tray_Disabled)"

definition on_attached :: "'c gstate \<Rightarrow> Attached \<Rightarrow> 'c upd" where
  "on_attached s n =
    (let s = s\<lparr>g_attached := n, g_output_dev_input := at_to_ifname n, g_output_dev_input_sent := True\<rparr>
     in fin (send_t s \<lparr>ts_state = tray_of (g_attached s), ts_theme = g_tray_theme s,
                       ts_blocker = at_blocker (g_attached s), ts_output_dev = at_to_ifname (g_attached s)\<rparr>))"

definition on_matches_msg :: "'c gui_lib \<Rightarrow> 'c gstate \<Rightarrow> GMatch list \<Rightarrow> 'c gstate" where
  "on_matches_msg L s n =
    (let s = (if g_proc_input_sent s \<and> list_ex (\<lambda>m. gm_pattern m = g_proc_input s) n
              then s\<lparr>g_proc_input_sent := False, g_proc_input := ''''\<rparr> else s)
     in s\<lparr>g_matches_override := (\<lambda>_. None),
          g_matches := zip n (map (gl_widget_id L) [g_ids s..<g_ids s + length n]),
          g_ids := g_ids s + length n,
          g_matches_gen := g_matches_gen s + 1\<rparr>)"

definition on_kind :: "'c gstate \<Rightarrow> string \<Rightarrow> 'c gstate" where
  "on_kind s n =
    (let s = (if methods_for (g_proc_input_kind s) \<noteq> methods_for n
              then s\<lparr>g_proc_input_method := default_method_for n, g_proc_input_method_after_refine := False\<rparr>
              else s)
     in s\<lparr>g_proc_input_kind := n, g_proc_input_kind_after_refine := False\<rparr>)"

definition on_modal_replace :: "'c gui_lib \<Rightarrow> 'c gstate \<Rightarrow> 'c gstate" where
  "on_modal_replace L s =
    s\<lparr>g_modal_editor :=
        (case g_dbus_errs s of [] \<Rightarrow> None | err # _ \<Rightarrow> Some (gl_with_text L (gl_show_error L err)))\<rparr>"

definition on_modal_next :: "'c gui_lib \<Rightarrow> 'c gstate \<Rightarrow> 'c gstate" where
  "on_modal_next L s = on_modal_replace L (s\<lparr>g_dbus_errs := tl (g_dbus_errs s)\<rparr>)"

definition on_dbus_err :: "'c gui_lib \<Rightarrow> 'c gstate \<Rightarrow> zbus_error \<Rightarrow> 'c gstate" where
  "on_dbus_err L s err =
    (let s = s\<lparr>g_settings_override := g_settings s,
               g_output_dev_input := at_to_ifname (g_attached s),
               g_output_dev_input_sent := True,
               g_matches_override := (\<lambda>_. None),
               g_dbus_errs := g_dbus_errs s @ [err]\<rparr>
     in if g_modal_editor s = None then on_modal_replace L s else s)"

definition on_dbus_cant_connect :: "'c gstate \<Rightarrow> zbus_error \<Rightarrow> 'c upd" where
  "on_dbus_cant_connect s err =
    (let s = s\<lparr>g_attached := attached_default, g_matches := [], g_matches_override := (\<lambda>_. None),
               g_matches_gen := g_matches_gen s + 1, g_dbus_conn_err := Some err\<rparr>
     in fin (send_t s \<lparr>ts_state = Tray_NotConnected, ts_theme = g_tray_theme s,
                       ts_blocker = at_blocker (g_attached s), ts_output_dev = at_to_ifname (g_attached s)\<rparr>))"

definition on_esc :: "'c gui_lib \<Rightarrow> 'c gstate \<Rightarrow> 'c gstate" where
  "on_esc L s =
    (if g_dbus_errs s \<noteq> [] then on_modal_next L s
     else if g_show_settings s then s\<lparr>g_show_settings := False\<rparr>
     else if (g_proc_input_focus s \<or> g_proc_popup_focus s) \<and> g_proc_input s \<noteq> ''''
       then s\<lparr>g_proc_input_focus := False, g_proc_popup_focus := False\<rparr>
     else s)"

fun is_edit :: "editor_action \<Rightarrow> bool" where
  "is_edit (ActEdit _) = True"
| "is_edit (ActOther _) = False"

text \<open>A message about a row carries the generation it was made for; another generation is ignored.\<close>

definition if_gen :: "'c gstate \<Rightarrow> u64 \<Rightarrow> 'c upd \<Rightarrow> 'c upd" where
  "if_gen s g r = (if g = g_matches_gen s then r else Inr (s, []))"

primrec update :: "'c gui_lib \<Rightarrow> proc_dir \<Rightarrow> 'c gstate \<Rightarrow> M \<Rightarrow> 'c upd" where
  "update L dir s M_Exit = Inr (s, [T_exit])"
| "update L dir s M_TrayUp = Inr (s\<lparr>g_tray_up := True\<rparr>, [])"
| "update L dir s M_WindowToggle =
    (case g_window s of Some w \<Rightarrow> on_window_close s w | None \<Rightarrow> on_window_open L s)"
| "update L dir s (M_WindowCloseId _) =
    (case g_window s of Some w \<Rightarrow> on_window_close s w | None \<Rightarrow> Inr (s, []))"
| "update L dir s M_WindowOpen =
    (case g_window s of Some _ \<Rightarrow> Inr (s, []) | None \<Rightarrow> on_window_open L s)"
| "update L dir s M_SettingsOpen = Inr (s\<lparr>g_show_settings := True\<rparr>, [])"
| "update L dir s M_SettingsClose = on_settings_submit (s\<lparr>g_show_settings := False\<rparr>)"
| "update L dir s (M_SettingsLan n) =
    on_settings_submit (s\<lparr>g_settings := (g_settings s)\<lparr>gs_allow_lan := n\<rparr>\<rparr>)"
| "update L dir s (M_SettingsDns n) =
    on_settings_submit (s\<lparr>g_settings := (g_settings s)\<lparr>gs_spoof_dns := n\<rparr>\<rparr>)"
| "update L dir s (M_SettingsDnsIp n) =
    Inr (s\<lparr>g_settings := (g_settings s)\<lparr>gs_spoof_dns_ipv4 := n\<rparr>\<rparr>, [])"
| "update L dir s M_SettingsDnsIpSubmit = on_settings_submit s"
| "update L dir s (M_SettingsDropEgressWithoutOutput n) =
    on_settings_submit (s\<lparr>g_settings := (g_settings s)\<lparr>gs_drop_egress_without_output := n\<rparr>\<rparr>)"
| "update L dir s M_SettingsSubmit = on_settings_submit s"
| "update L dir s (M_Settings n) = Inr (s\<lparr>g_settings_override := n, g_settings := n\<rparr>, [])"
| "update L dir s M_MatchAdd = on_match_add s"
| "update L dir s (M_MatchDelete g i) = if_gen s g (on_match_delete s i)"
| "update L dir s (M_MatchKind g i k) =
    if_gen s g (rbind (override_entry s i (\<lambda>m. m\<lparr>gm_kind := k\<rparr>)) (\<lambda>s. on_match_submit s i))"
| "update L dir s (M_MatchMethod g i k) =
    if_gen s g (rbind (override_entry s i (\<lambda>m. m\<lparr>gm_method := k\<rparr>)) (\<lambda>s. on_match_submit s i))"
| "update L dir s M_Enable = fin (send_d s D_Enable)"
| "update L dir s M_Disable = fin (send_d s D_Disable)"
| "update L dir s (M_MatchUpdate g i n) =
    if_gen s g (fin (override_entry s i (\<lambda>m. m\<lparr>gm_pattern := n\<rparr>)))"
| "update L dir s M_MatchDir = on_match_dir s"
| "update L dir s (M_MatchUpdateDir g i) =
    if_gen s g (rbind (override_entry s i flip_direction) (\<lambda>s. on_match_submit s i))"
| "update L dir s (M_MatchFromProc g i) = if_gen s g (on_match_from_proc L dir s i)"
| "update L dir s (M_MatchSubmit g i) = if_gen s g (on_match_submit s i)"
| "update L dir s (M_Procs n) = on_procs L dir s n"
| "update L dir s M_OutputDevClick = Inr (s\<lparr>g_output_dev_input_focus := True\<rparr>, [])"
| "update L dir s M_OutputDevFocus =
    Inr (s\<lparr>g_output_dev_input_focus := g_output_dev_input_focus s \<or> g_output_dev_popup_focus s\<rparr>, [])"
| "update L dir s M_OutputDevUnfocus =
    (if g_output_dev_popup_focus s then Inr (s\<lparr>g_output_dev_input_focus := False\<rparr>, [])
     else on_output_dev_submit s)"
| "update L dir s M_OutputDevPopupFocus = Inr (s\<lparr>g_output_dev_popup_focus := True\<rparr>, [])"
| "update L dir s M_OutputDevPopupUnfocus =
    (if g_output_dev_input_focus s then Inr (s\<lparr>g_output_dev_popup_focus := False\<rparr>, [])
     else on_output_dev_submit s)"
| "update L dir s (M_OutputDevSetSubmit n) = on_output_dev_submit (on_output_dev_set s n)"
| "update L dir s (M_OutputDevSet n) = Inr (on_output_dev_set s n, [])"
| "update L dir s M_OutputDevSubmit = on_output_dev_submit s"
| "update L dir s (M_Attached n) = on_attached s n"
| "update L dir s (M_Stats n) = Inr (s\<lparr>g_stats := n\<rparr>, [])"
| "update L dir s (M_Matches n) = Inr (on_matches_msg L s n, [])"
| "update L dir s (M_ActiveProcs n) =
    Inr (s\<lparr>g_procs_active := n, g_matches_gen := g_matches_gen s + 1\<rparr>, [])"
| "update L dir s (M_Kind n) = Inr (on_kind s n, [])"
| "update L dir s (M_Method n) =
    Inr (s\<lparr>g_proc_input_method := n, g_proc_input_method_after_refine := False\<rparr>, [])"
| "update L dir s M_ProcPopupFocus = Inr (s\<lparr>g_proc_popup_focus := True\<rparr>, [])"
| "update L dir s M_ProcPopupUnfocus = Inr (s\<lparr>g_proc_popup_focus := False\<rparr>, [])"
| "update L dir s M_MatchUnfocus =
    Inr (s\<lparr>g_proc_input_focus := False\<rparr>, [T_unfocus (g_proc_input_id s)])"
| "update L dir s M_MatchFocus = Inr (s\<lparr>g_proc_input_focus := True\<rparr>, [])"
| "update L dir s M_DbusConnected = Inr (s\<lparr>g_dbus_conn_err := None\<rparr>, [])"
| "update L dir s (M_DbusFail err) = on_dbus_cant_connect (on_dbus_err L s err) err"
| "update L dir s (M_DbusErr err) = Inr (on_dbus_err L s err, [])"
| "update L dir s (M_DbusCantConnect err) = on_dbus_cant_connect s err"
| "update L dir s M_Esc = Inr (on_esc L s, [])"
| "update L dir s M_ModalNext = Inr (on_modal_next L s, [])"
| "update L dir s M_ModalReplace = Inr (on_modal_replace L s, [])"
| "update L dir s M_StatusShow =
    (case g_dbus_conn_err s of Some err \<Rightarrow> Inr (on_dbus_err L s err, []) | None \<Rightarrow> Inr (s, []))"
| "update L dir s (M_ModalEditAction a) =
    (if \<not> is_edit a then Inr (s\<lparr>g_modal_editor := map_option (gl_perform L a) (g_modal_editor s)\<rparr>, [])
     else Inr (s, []))"
| "update L dir s M_ModalDismiss = Inr (s, [])"
| "update L dir s (M_NopString _) = Inr (s, [])"
| "update L dir s M_Nop = Inr (s, [])"

section \<open>The start\<close>

text \<open>\<^verbatim>\<open>gui::State { .., ..Default::default() }\<close> in \<^verbatim>\<open>main.rs\<close>; the default takes two identifiers.\<close>

definition gui_init :: "'c gui_lib \<Rightarrow> TrayTheme \<Rightarrow> D chan \<Rightarrow> TrayState chan \<Rightarrow> 'c gstate" where
  "gui_init L theme d_tx t_tx =
    \<lparr>g_d_tx = Some d_tx, g_t_tx = Some t_tx, g_tray_theme = theme, g_tray_up = False, g_window = None,
     g_settings = settings_default, g_settings_override = settings_default, g_show_settings = False,
     g_output_dev_input_id = gl_widget_id L 0, g_output_dev_input_focus = False, g_output_dev_input = '''',
     g_output_dev_input_sent = False, g_output_dev_popup_focus = False,
     g_proc_input_id = gl_widget_id L 1, g_proc_input_focus = False, g_proc_input = '''',
     g_proc_input_sent = False, g_proc_popup_focus = False, g_proc_input_dir = ''redirect'',
     g_proc_input_default_dir = ''bypass'', g_proc_input_kind = KIND_DEFAULT,
     g_proc_input_method = METHOD_DEFAULT, g_proc_input_kind_after_refine = False,
     g_proc_input_method_after_refine = False, g_attached = attached_default, g_stats = gstats_default,
     g_matches = [], g_matches_override = (\<lambda>_. None), g_matches_gen = 0, g_procs_active = (\<lambda>_. None),
     g_procs_all = None, g_procs_all_max = 0, g_dbus_conn_err = None, g_dbus_errs = [],
     g_modal_editor = None, g_ids = 2, g_windows = 0\<rparr>"

end
