(* ===== verification/Service.thy ===== *)
theory Service
  imports Reload Dns
begin

text \<open>
  The D-Bus service (\<^verbatim>\<open>rebpf/dbus.rs\<close>): who may change what, the operations on the
  state behind the watch channel, and the dictionaries the service hands out.  The bus
  and polkit are parameters.
\<close>

section \<open>The bus\<close>

record header =
  hd_sender :: "string option"
  hd_member :: "string option"

text \<open>
  \<open>bu_unix_user\<close> is \<^verbatim>\<open>GetConnectionUnixUser\<close>, \<open>bu_subject\<close> whether a polkit subject can be
  made of the header, \<open>bu_check\<close> the answer of \<^verbatim>\<open>CheckAuthorization\<close> for the action
  \<^verbatim>\<open>service.rebpf.modify.system\<close>, \<open>bu_iface\<close> the lookup of the service's own interface;
  \<open>bu_dbus\<close> and \<open>bu_authority\<close> are the set-up of the two proxies.
\<close>

record bus =
  bu_dbus :: "unit result"
  bu_authority :: "unit result"
  bu_unix_user :: "string \<Rightarrow> u32 result"
  bu_subject :: "header \<Rightarrow> bool"
  bu_check :: "header \<Rightarrow> bool result"
  bu_iface :: "unit result"

definition peer_uid :: "bus \<Rightarrow> header \<Rightarrow> u32 result" where
  "peer_uid b h =
    rbind (bu_dbus b) (\<lambda>_.
    case hd_sender h of None \<Rightarrow> Inl AuthFailed | Some sender \<Rightarrow> bu_unix_user b sender)"

definition auth_or_err :: "bus \<Rightarrow> header \<Rightarrow> unit result" where
  "auth_or_err b h =
    rbind (bu_authority b) (\<lambda>_.
    rbind (assert_that (bu_subject b h)) (\<lambda>_.
    rbind (bu_check b h) (\<lambda>is_authorized.
    if \<not> is_authorized then Inl AuthFailed else Inr ())))"

text \<open>\<^verbatim>\<open>eyre_to_inval\<close>, \<^verbatim>\<open>err_to_inval\<close> and \<^verbatim>\<open>str_to_inval\<close>; a panic is not an error value.\<close>

definition to_inval :: "error \<Rightarrow> error" where
  "to_inval e = (if e = Panic then Panic else InvalidArgs e)"

section \<open>Changing the state\<close>

text \<open>
  The state of the channel, how often its readers were woken, the signals emitted, the
  reloads asked for.
\<close>

record svc =
  sv_state :: State
  sv_wakes :: nat
  sv_signals :: "string list"
  sv_reloads :: nat

definition send_modify :: "(State \<Rightarrow> State) \<Rightarrow> svc \<Rightarrow> svc" where
  "send_modify f s = s\<lparr>sv_state := f (sv_state s), sv_wakes := sv_wakes s + 1\<rparr>"

text \<open>\<^verbatim>\<open>send_if_modified\<close> keeps what the closure did to the state even if it returns false.\<close>

definition send_if_modified :: "(State \<Rightarrow> State \<times> unit result) \<Rightarrow> svc \<Rightarrow> svc \<times> unit result" where
  "send_if_modified f s =
    (case f (sv_state s) of
       (st, r) \<Rightarrow> (s\<lparr>sv_state := st, sv_wakes := sv_wakes s + (if is_ok r then 1 else 0)\<rparr>, r))"

definition emit :: "bus \<Rightarrow> string \<Rightarrow> svc \<Rightarrow> svc \<times> unit result" where
  "emit b signal s =
    (case bu_iface b of Inl e \<Rightarrow> (s, Inl e) | Inr _ \<Rightarrow> (s\<lparr>sv_signals := sv_signals s @ [signal]\<rparr>, Inr ()))"

definition try_modify_matches :: "bus \<Rightarrow> (State \<Rightarrow> State \<times> unit result) \<Rightarrow> svc \<Rightarrow> svc \<times> unit result" where
  "try_modify_matches b f s =
    (case send_if_modified f s of
       (s, Inl e) \<Rightarrow> (s, Inl e)
     | (s, Inr _) \<Rightarrow> emit b ''matches_changed'' s)"

definition svc_enable :: "svc \<Rightarrow> svc" where
  "svc_enable s = send_modify (\<lambda>st. st\<lparr>st_enable := True\<rparr>) s"

definition svc_disable :: "svc \<Rightarrow> svc" where
  "svc_disable s = send_modify (\<lambda>st. st\<lparr>st_enable := False\<rparr>) s"

definition svc_toggle :: "svc \<Rightarrow> svc" where
  "svc_toggle s = send_modify (\<lambda>st. st\<lparr>st_enable := \<not> st_enable st\<rparr>) s"

text \<open>\<^verbatim>\<open>force_reload\<close> sends on the channel \<^verbatim>\<open>do_reload\<close>.\<close>

definition svc_force_reload :: "svc \<Rightarrow> svc" where
  "svc_force_reload s = s\<lparr>sv_reloads := sv_reloads s + 1\<rparr>"

definition change_output :: "bus \<Rightarrow> header \<Rightarrow> string \<Rightarrow> svc \<Rightarrow> svc \<times> unit result" where
  "change_output b h output s =
    (case auth_or_err b h of
       Inl e \<Rightarrow> (s, Inl e)
     | Inr _ \<Rightarrow> (send_modify (\<lambda>st. st\<lparr>st_to_dev := output\<rparr>) s, Inr ()))"

definition update_config :: "bus \<Rightarrow> header \<Rightarrow> hashmap \<Rightarrow> svc \<Rightarrow> svc \<times> unit result" where
  "update_config b h new s =
    (case rbind (auth_or_err b h) (\<lambda>_. map_err to_inval (config_from_hashmap new (st_config (sv_state s)))) of
       Inl e \<Rightarrow> (s, Inl e)
     | Inr c \<Rightarrow> emit b ''config_changed'' (send_modify (\<lambda>st. st\<lparr>st_config := c\<rparr>) s))"

text \<open>An operation of \<^verbatim>\<open>Matches\<close> as a closure on the state.\<close>

definition on_matches :: "(Matches \<Rightarrow> Matches \<times> unit result) \<Rightarrow> State \<Rightarrow> State \<times> unit result" where
  "on_matches f st = (case f (st_matches st) of (ms, r) \<Rightarrow> (st\<lparr>st_matches := ms\<rparr>, map_err to_inval r))"

definition needs_auth :: "u32 \<Rightarrow> Match \<Rightarrow> bool" where
  "needs_auth uid m \<longleftrightarrow> uid \<noteq> m_uid m \<or> \<not> is_per_process m"

definition add_match :: "bus \<Rightarrow> libs \<Rightarrow> header \<Rightarrow> hashmap \<Rightarrow> svc \<Rightarrow> svc \<times> unit result" where
  "add_match b lib h new s =
    (case rbind (peer_uid b h) (\<lambda>uid.
          rbind (map_err to_inval (match_from_hashmap new uid)) (\<lambda>new.
          rbind (if uid \<noteq> 0 \<and> needs_auth uid new then auth_or_err b h else Inr ()) (\<lambda>_. Inr new))) of
       Inl e \<Rightarrow> (s, Inl e)
     | Inr new \<Rightarrow> try_modify_matches b (on_matches (\<lambda>ms. matches_add lib ms new)) s)"

definition update_match :: "bus \<Rightarrow> libs \<Rightarrow> header \<Rightarrow> hashmap \<Rightarrow> hashmap \<Rightarrow> svc \<Rightarrow> svc \<times> unit result" where
  "update_match b lib h from_h to_h s =
    (case rbind (peer_uid b h) (\<lambda>uid.
          rbind (map_err to_inval (match_from_hashmap from_h uid)) (\<lambda>from_m.
          rbind (map_err to_inval (match_from_hashmap to_h uid)) (\<lambda>to_m.
          rbind (if uid \<noteq> 0 \<and> (needs_auth uid from_m \<or> needs_auth uid to_m) then auth_or_err b h else Inr ()) (\<lambda>_.
          Inr (from_m, to_m))))) of
       Inl e \<Rightarrow> (s, Inl e)
     | Inr (from_m, to_m) \<Rightarrow> try_modify_matches b (on_matches (\<lambda>ms. matches_replace lib ms from_m to_m)) s)"

definition delete_match :: "bus \<Rightarrow> libs \<Rightarrow> header \<Rightarrow> hashmap \<Rightarrow> svc \<Rightarrow> svc \<times> unit result" where
  "delete_match b lib h del s =
    (case rbind (peer_uid b h) (\<lambda>uid.
          rbind (map_err to_inval (match_from_hashmap del uid)) (\<lambda>del.
          rbind (if uid \<noteq> 0 \<and> needs_auth uid del then auth_or_err b h else Inr ()) (\<lambda>_. Inr del))) of
       Inl e \<Rightarrow> (s, Inl e)
     | Inr del \<Rightarrow> try_modify_matches b (on_matches (\<lambda>ms. matches_del lib ms del)) s)"

section \<open>Process names\<close>

text \<open>
  \<^verbatim>\<open>parse_u32\<close> and \<^verbatim>\<open>parse_i32\<close> of the bindings, on four bytes, and \<^verbatim>\<open>from_utf8_lossy\<close>.
\<close>

record bytes_lib =
  pb_u32 :: "u8 list \<Rightarrow> u32 option"
  pb_i32 :: "u8 list \<Rightarrow> u32 option"
  pb_lossy :: "u8 list \<Rightarrow> string"

definition slice :: "u8 list \<Rightarrow> nat \<Rightarrow> nat \<Rightarrow> u8 list result" where
  "slice c a b = (if a \<le> b \<and> b \<le> length c then Inr (take (b - a) (drop a c)) else Inl Panic)"

text \<open>\<^verbatim>\<open>while pat_id as usize >= h.len() { h.push(Vec::new()) }\<close>, then the push.\<close>

definition push_name :: "string list list \<Rightarrow> nat \<Rightarrow> string \<Rightarrow> string list list" where
  "push_name h pat_id name =
    (let h = h @ replicate (Suc pat_id - length h) []
     in h[pat_id := h ! pat_id @ [name]])"

text \<open>The body of the loop: \<open>None\<close> for \<^verbatim>\<open>continue\<close> without a step forward.\<close>

definition proc_entry :: "bytes_lib \<Rightarrow> u8 list \<Rightarrow> (nat \<times> string \<times> u8 list) option result" where
  "proc_entry pb c =
    rbind (slice c 0 4) (\<lambda>b1. rbind (ok_or Panic (pb_i32 pb b1)) (\<lambda>pat_id.
    rbind (slice c 4 8) (\<lambda>b2. rbind (ok_or Panic (pb_u32 pb b2)) (\<lambda>len.
    if sint pat_id < 0 then Inr None
    else rbind (slice c 8 (8 + unat len)) (\<lambda>name.
         Inr (Some (unat pat_id, pb_lossy pb name, drop (8 + unat len) c)))))))"

partial_function (option) proc_loop ::
  "bytes_lib \<Rightarrow> u8 list \<Rightarrow> string list list \<Rightarrow> string list list result option" where
  "proc_loop pb c h =
    (if c = [] then Some (Inr h)
     else case proc_entry pb c of
       Inl e \<Rightarrow> Some (Inl e)
     | Inr None \<Rightarrow> proc_loop pb c h
     | Inr (Some (pat_id, name, rest)) \<Rightarrow> proc_loop pb rest (push_name h pat_id name))"

definition proc_dict :: "nat \<Rightarrow> string \<Rightarrow> hashmap" where
  "proc_dict pat_id proc = [(''match-id'', show_nat pat_id), (''basename'', proc)]"

definition proc_dicts :: "string list list \<Rightarrow> hashmap list" where
  "proc_dicts h = concat (map (\<lambda>(pat_id, procs). map (proc_dict pat_id) procs) (enumerate 0 h))"

text \<open>
  \<open>buf\<close> is the buffer that \<^verbatim>\<open>bpf_get_proc_names\<close> fills, \<open>None\<close> a null pointer; it is
  asked at most once a second.
\<close>

definition SECOND :: nat where "SECOND = 1000000000"

definition get_proc_names :: "bytes_lib \<Rightarrow> nat \<Rightarrow> u8 list option \<Rightarrow> BpfCtx \<Rightarrow> (BpfCtx \<times> hashmap list result) option" where
  "get_proc_names pb now buf lock =
    (if SECOND < now - bc_matches_time lock then
       let lock = lock\<lparr>bc_matches_time := now\<rparr>
       in case buf of
            None \<Rightarrow> Some (lock, Inl Panic)
          | Some c \<Rightarrow>
            (case proc_loop pb c [] of
               None \<Rightarrow> None
             | Some (Inl e) \<Rightarrow> Some (lock, Inl e)
             | Some (Inr h) \<Rightarrow>
                 let lock = lock\<lparr>bc_matches := proc_dicts h\<rparr> in Some (lock, Inr (bc_matches lock)))
     else Some (lock, Inr (bc_matches lock)))"

section \<open>Counters and records\<close>

definition sat_sub :: "u64 \<Rightarrow> u64 \<Rightarrow> u64" where
  "sat_sub a b = (if b \<le> a then a - b else 0)"

definition stats_default :: "nat \<Rightarrow> Stats" where
  "stats_default now = \<lparr>sx_time = now, sx_tx_bytes = 0, sx_rx_bytes = 0\<rparr>"

text \<open>
  \<open>show_secs\<close> prints a duration as \<^verbatim>\<open>as_secs_f32\<close>.  The channel's \<^verbatim>\<open>to_dev\<close> names the device.
\<close>

definition svc_get_stats ::
  "kernel \<Rightarrow> (nat \<Rightarrow> string) \<Rightarrow> nat \<Rightarrow> State \<Rightarrow> StatsHist \<Rightarrow> nl_request list \<Rightarrow> StatsHist \<times> nl_request list \<times> hashmap" where
  "svc_get_stats k show_secs now st stats log =
    (let (stats, log) =
       (if SECOND < now - sx_time (sh_cur stats) then
          (case netlink_get_stats k (st_to_dev st) now stats log of
             (log', Inl e) \<Rightarrow> (\<lparr>sh_prev = stats_default now, sh_cur = stats_default now\<rparr>, log')
           | (log', Inr stats) \<Rightarrow> (stats, log'))
        else (stats, log));
         none = (sx_tx_bytes (sh_prev stats) = 0 \<and> sx_rx_bytes (sh_prev stats) = 0);
         tx = (if none then 0 else sat_sub (sx_tx_bytes (sh_cur stats)) (sx_tx_bytes (sh_prev stats)));
         rx = (if none then 0 else sat_sub (sx_rx_bytes (sh_cur stats)) (sx_rx_bytes (sh_prev stats)));
         dt = (if none then 0 else sx_time (sh_cur stats) - sx_time (sh_prev stats))
     in (stats, log, [(''tx-bytes'', show_nat (unat tx)), (''rx-bytes'', show_nat (unat rx)), (''dtime-sec'', show_secs dt)]))"

definition dns_record_dict :: "names \<Rightarrow> nat \<Rightarrow> DnsCache \<Rightarrow> DnsRecord \<Rightarrow> hashmap result" where
  "dns_record_dict nm now c r =
    rbind (dns_cache_get c (nm_show nm (rec_name r))) (\<lambda>hit.
    Inr ([(''ttl'', show_nat ((rec_ttl_expire r - now) div SECOND)), (''name'', nm_show nm (rec_name r)),
          (''address'', show_ipv4 (rec_dest r))] @
         (case hit of None \<Rightarrow> []
          | Some (dir, pat_id) \<Rightarrow> [(''direction'', direction_display dir), (''match-id'', show_nat pat_id)])))"

definition get_dns_records :: "names \<Rightarrow> nat \<Rightarrow> DnsState \<Rightarrow> hashmap list result" where
  "get_dns_records nm now dns = rmap (dns_record_dict nm now (dn_cache dns)) (dn_heap dns)"

definition retire_dns_record ::
  "kernel \<Rightarrow> names \<Rightarrow> u32 \<Rightarrow> hashmap \<Rightarrow> DnsState \<Rightarrow> nl_request list \<Rightarrow> DnsState \<times> nl_request list \<times> unit result" where
  "retire_dns_record k nm table record dns log =
    (case (case map_of record ''destination'' of None \<Rightarrow> Inr None
           | Some ip \<Rightarrow> rbind (ok_or (InvalidArgs (ParseFailed ip)) (parse_ipv4 ip)) (\<lambda>d. Inr (Some d))) of
       Inl e \<Rightarrow> (dns, log, Inl e)
     | Inr dest \<Rightarrow>
       (case (case map_of record ''name'' of None \<Rightarrow> Inr None
              | Some n \<Rightarrow> (case nm_parse nm n of Inl e \<Rightarrow> Inl (InvalidArgs (Msg e)) | Inr n \<Rightarrow> Inr (Some (nm_fqdn nm n)))) of
          Inl e \<Rightarrow> (dns, log, Inl e)
        | Inr name \<Rightarrow>
          (case remove_records k nm table name dest dns log of
             (dns, log, found) \<Rightarrow>
               (dns, log, if found then Inr () else Inl (InvalidArgs (Msg ''Didn't match any active records''))))))"

section \<open>Properties of the interface\<close>

fun show_ip :: "(u8 list \<Rightarrow> string) \<Rightarrow> ip_addr \<Rightarrow> string" where
  "show_ip show_v6 (V4 a) = show_ipv4 a"
| "show_ip show_v6 (V6 a) = show_v6 a"

definition fmt_dev :: "(u8 list \<Rightarrow> string) \<Rightarrow> string \<Rightarrow> Route \<Rightarrow> hashmap" where
  "fmt_dev show_v6 p r =
    [(p @ ''is-up'', show_bool (r_is_up r)), (p @ ''ifname'', r_ifname r), (p @ ''ifindex'', show_u32 (r_ifindex r))] @
    (case r_addrs r of [] \<Rightarrow> [] | a # _ \<Rightarrow> [(p @ ''addr'', show_ip show_v6 a)])"

definition svc_attached :: "(u8 list \<Rightarrow> string) \<Rightarrow> State \<Rightarrow> bool \<Rightarrow> string \<Rightarrow> Route option \<Rightarrow> hashmap" where
  "svc_attached show_v6 st attached blocker routes =
    [(''enabled'', show_bool (st_enable st)), (''attached'', show_bool attached)] @
    (if blocker \<noteq> [] then [(''blocker'', blocker)] else []) @
    (case routes of Some to_r \<Rightarrow> fmt_dev show_v6 ''to-'' to_r | None \<Rightarrow> [(''to-ifname'', st_to_dev st)])"

definition svc_matches :: "State \<Rightarrow> hashmap list" where
  "svc_matches st = map match_to_hashmap (ms_matches (st_matches st))"

definition svc_config :: "State \<Rightarrow> hashmap" where
  "svc_config st = config_to_hashmap (st_config st)"

end
