(* ===== verification/Gui_Backend.thy ===== *)
theory Gui_Backend
  imports Gui Service
begin

text \<open>
  The D-Bus client of \<^verbatim>\<open>rebpf-gui\<close> (\<^verbatim>\<open>rebpf-gui/main.rs\<close>): the tasks that read the
  properties of the service, poll the active processes while the window is open, and send the
  requests of the window.  An answer of the proxy is \<open>zbus_error + 'a\<close>; a task returns its
  \<^verbatim>\<open>zbus::Result\<close> beside the channel to the window, and \<open>Inl Panic\<close> stands for a panic.
\<close>

type_synonym 'a zresult = "zbus_error + 'a"
type_synonym task = "(M chan \<times> unit zresult) result"

section \<open>Properties of the service\<close>

text \<open>What the proxy answers to a read of each property, at one moment.\<close>

record proxy =
  px_attached :: "hashmap zresult"
  px_matches :: "hashmap list zresult"
  px_config :: "hashmap zresult"

definition read_attached :: "proxy \<Rightarrow> M chan \<Rightarrow> task" where
  "read_attached px m_tx =
    (case px_attached px of
       Inl err \<Rightarrow> Inr (m_tx, Inl err)
     | Inr h \<Rightarrow> rbind (tx_send m_tx (M_Attached (attached_from_hashmap h))) (\<lambda>m_tx. Inr (m_tx, Inr ())))"

definition read_matches :: "proxy \<Rightarrow> M chan \<Rightarrow> task" where
  "read_matches px m_tx =
    (case px_matches px of
       Inl err \<Rightarrow> Inr (m_tx, Inl err)
     | Inr h \<Rightarrow> rbind (tx_send m_tx (M_Matches (map gmatch_from_hashmap h))) (\<lambda>m_tx. Inr (m_tx, Inr ())))"

definition read_config :: "proxy \<Rightarrow> M chan \<Rightarrow> task" where
  "read_config px m_tx =
    (case px_config px of
       Inl err \<Rightarrow> Inr (m_tx, Inl err)
     | Inr h \<Rightarrow> rbind (tx_send m_tx (M_Settings (settings_from_hashmap h))) (\<lambda>m_tx. Inr (m_tx, Inr ())))"

text \<open>\<^verbatim>\<open>?\<close> on the result of a task: go on with the channel, or return the error.\<close>

definition and_then :: "task \<Rightarrow> (M chan \<Rightarrow> task) \<Rightarrow> task" where
  "and_then r f =
    rbind r (\<lambda>(m_tx, res). case res of Inl err \<Rightarrow> Inr (m_tx, Inl err) | Inr _ \<Rightarrow> f m_tx)"

fun read_changed :: "(string \<times> proxy) list \<Rightarrow> M chan \<Rightarrow> task" where
  "read_changed [] m_tx = Inr (m_tx, Inr ())"
| "read_changed ((k, px) # ks) m_tx =
    and_then
      (if k = ''Attached'' then read_attached px m_tx
       else if k = ''Matches'' then read_matches px m_tx
       else if k = ''Config'' then read_config px m_tx
       else Inr (m_tx, Inr ()))
      (read_changed ks)"

text \<open>\<^verbatim>\<open>ERR_FN()\<close>, returned where the stream of signals ends.\<close>

definition stream_end :: zbus_error where
  "stream_end = ZServiceUnknown ''''"

text \<open>
  One signal is the changed keys, each with the answers at the time it is read, or the error
  of deserializing it.
\<close>

fun props_loop :: "(string \<times> proxy) list zresult list \<Rightarrow> M chan \<Rightarrow> task" where
  "props_loop [] m_tx = Inr (m_tx, Inl stream_end)"
| "props_loop (n # ns) m_tx =
    (case n of
       Inl err \<Rightarrow> Inr (m_tx, Inl err)
     | Inr ks \<Rightarrow> and_then (read_changed ks m_tx) (props_loop ns))"

definition listen_props ::
  "proxy \<Rightarrow> unit zresult \<Rightarrow> (string \<times> proxy) list zresult list \<Rightarrow> M chan \<Rightarrow> task" where
  "listen_props px subscribe signals m_tx =
    and_then (read_attached px m_tx) (\<lambda>m_tx.
    and_then (read_matches px m_tx) (\<lambda>m_tx.
    and_then (read_config px m_tx) (\<lambda>m_tx.
    and_then (Inr (m_tx, subscribe)) (props_loop signals))))"

section \<open>Active processes\<close>

definition parse_usize :: "string \<Rightarrow> nat option" where
  "parse_usize s = parse_uint (2 ^ 64 - 1) s"

text \<open>\<^verbatim>\<open>set.entry(pat_id).or_default().insert(name)\<close>, a \<^verbatim>\<open>BTreeSet\<close> as a sorted list.\<close>

definition insert_name :: "(nat \<rightharpoonup> string list) \<Rightarrow> nat \<Rightarrow> string \<Rightarrow> (nat \<rightharpoonup> string list)" where
  "insert_name st pat_id name =
    st(pat_id \<mapsto> insort_insert name (case st pat_id of None \<Rightarrow> [] | Some xs \<Rightarrow> xs))"

definition add_record :: "string \<Rightarrow> (nat \<rightharpoonup> string list) \<Rightarrow> hashmap \<Rightarrow> (nat \<rightharpoonup> string list)" where
  "add_record key st r =
    (case map_of r ''match-id'' of
       None \<Rightarrow> st
     | Some pat_id \<Rightarrow>
       (case parse_usize pat_id of
          None \<Rightarrow> st
        | Some pat_id \<Rightarrow> (case map_of r key of None \<Rightarrow> st | Some name \<Rightarrow> insert_name st pat_id name)))"

definition add_records :: "string \<Rightarrow> hashmap list zresult \<Rightarrow> (nat \<rightharpoonup> string list) \<Rightarrow> (nat \<rightharpoonup> string list)" where
  "add_records key answer st = (case answer of Inl _ \<Rightarrow> st | Inr records \<Rightarrow> foldl (add_record key) st records)"

text \<open>One round of \<^verbatim>\<open>listen_proc_names\<close>, between taking the permit and the sleep.\<close>

definition proc_names_round ::
  "(string \<Rightarrow> string option) \<Rightarrow> hashmap list zresult \<Rightarrow> hashmap list zresult \<Rightarrow> hashmap zresult
    \<Rightarrow> M chan \<Rightarrow> M chan result" where
  "proc_names_round parse_f64 dns_records proc_names stats m_tx =
    rbind (tx_send m_tx (M_ActiveProcs
             (add_records ''basename'' proc_names (add_records ''name'' dns_records (\<lambda>_. None))))) (\<lambda>m_tx.
    case stats of
      Inl _ \<Rightarrow> Inr m_tx
    | Inr h \<Rightarrow> tx_send m_tx (M_Stats (gstats_from_hashmap parse_f64 h)))"

section \<open>Requests\<close>

datatype svc_request =
    R_enable | R_disable
  | R_change_output string
  | R_update_config hashmap
  | R_add_match hashmap
  | R_delete_match hashmap
  | R_update_match hashmap hashmap

fun request_of :: "D \<Rightarrow> svc_request option" where
  "request_of D_WindowOpened = None"
| "request_of D_WindowClosed = None"
| "request_of D_Enable = Some R_enable"
| "request_of D_Disable = Some R_disable"
| "request_of (D_ChangeOutput new_out) = Some (R_change_output new_out)"
| "request_of (D_SettingsUpdate m) = Some (R_update_config (settings_into_hashmap m))"
| "request_of (D_MatchAdd m) = Some (R_add_match (gmatch_to_hashmap m))"
| "request_of (D_MatchDelete m) = Some (R_delete_match (gmatch_to_hashmap m))"
| "request_of (D_MatchUpdate f t) = Some (R_update_match (gmatch_to_hashmap f) (gmatch_to_hashmap t))"

text \<open>The body of the loop of \<^verbatim>\<open>process_requests\<close> for a request, with what the proxy answers.\<close>

definition process_request :: "D \<Rightarrow> unit zresult \<Rightarrow> M chan \<Rightarrow> M chan result" where
  "process_request d res m_tx =
    (if d = D_Enable \<or> d = D_Disable then Inr m_tx
     else case res of Inl err \<Rightarrow> tx_send m_tx (M_DbusErr err) | Inr _ \<Rightarrow> Inr m_tx)"

text \<open>The other end: the method of the daemon that a request calls.\<close>

fun serve :: "bus \<Rightarrow> libs \<Rightarrow> header \<Rightarrow> svc_request \<Rightarrow> svc \<Rightarrow> svc \<times> unit result" where
  "serve b lib h R_enable s = (svc_enable s, Inr ())"
| "serve b lib h R_disable s = (svc_disable s, Inr ())"
| "serve b lib h (R_change_output out) s = change_output b h out s"
| "serve b lib h (R_update_config c) s = update_config b h c s"
| "serve b lib h (R_add_match m) s = add_match b lib h m s"
| "serve b lib h (R_delete_match m) s = delete_match b lib h m s"
| "serve b lib h (R_update_match f t) s = update_match b lib h f t s"

section \<open>The harness\<close>

text \<open>
  \<open>be_permits\<close> of the semaphore are free, \<open>be_guard\<close> tells whether \<^verbatim>\<open>listen_proc_names\<close> holds
  one, \<open>be_waiting\<close> whether a \<^verbatim>\<open>WindowClosed\<close> has been taken from the channel and waits for a
  permit to forget; \<open>be_connected\<close> is the second \<^verbatim>\<open>select!\<close> of the loop.
\<close>

record backend =
  be_permits :: nat
  be_guard :: bool
  be_waiting :: bool
  be_connected :: bool
  be_err_sent :: bool

definition backend_init :: backend where
  "backend_init = \<lparr>be_permits = 0, be_guard = False, be_waiting = False, be_connected = False, be_err_sent = False\<rparr>"

text \<open>\<^verbatim>\<open>process_requests_sema\<close> up to the point where it waits; other messages change nothing.\<close>

definition process_requests_sema :: "D \<Rightarrow> backend \<Rightarrow> backend" where
  "process_requests_sema d be =
    (case d of
       D_WindowClosed \<Rightarrow> be\<lparr>be_waiting := True\<rparr>
     | D_WindowOpened \<Rightarrow> be\<lparr>be_permits := be_permits be + 1\<rparr>
     | _ \<Rightarrow> be)"

definition forget_permit :: "backend \<Rightarrow> backend" where
  "forget_permit be = be\<lparr>be_waiting := False, be_permits := be_permits be - 1\<rparr>"

definition take_guard :: "backend \<Rightarrow> backend" where
  "take_guard be = be\<lparr>be_guard := True, be_permits := be_permits be - 1\<rparr>"

definition drop_guard :: "backend \<Rightarrow> backend" where
  "drop_guard be = (if be_guard be then be\<lparr>be_guard := False, be_permits := be_permits be + 1\<rparr> else be)"

text \<open>
  The answer of \<^verbatim>\<open>proxy.attached()\<close> in the first \<^verbatim>\<open>select!\<close>; the window hears of the first failure
  only.
\<close>

definition harness_check :: "hashmap zresult \<Rightarrow> backend \<Rightarrow> M chan \<Rightarrow> (backend \<times> M chan) result" where
  "harness_check res be m_tx =
    (case res of
       Inl err \<Rightarrow>
         if \<not> be_err_sent be
         then rbind (tx_send m_tx (M_DbusCantConnect err)) (\<lambda>m_tx. Inr (be\<lparr>be_err_sent := True\<rparr>, m_tx))
         else Inr (be, m_tx)
     | Inr _ \<Rightarrow>
         rbind (tx_send m_tx M_DbusConnected) (\<lambda>m_tx.
           Inr (be\<lparr>be_err_sent := False, be_connected := True\<rparr>, m_tx)))"

text \<open>
  The end of the second \<^verbatim>\<open>select!\<close>: the owner of the name changed (\<open>None\<close>), or a task returned
  \<open>res\<close>, whose \<^verbatim>\<open>unwrap_err\<close> panics on success.  The other tasks are dropped, with the permit one
  holds and the request one is working on.
\<close>

definition harness_leave :: "unit zresult option \<Rightarrow> backend \<Rightarrow> M chan \<Rightarrow> (backend \<times> M chan) result" where
  "harness_leave ended be m_tx =
    (let be = (drop_guard be)\<lparr>be_waiting := False, be_connected := False\<rparr>
     in case ended of
          None \<Rightarrow> Inr (be, m_tx)
        | Some (Inl err) \<Rightarrow> rbind (tx_send m_tx (M_DbusFail err)) (\<lambda>m_tx. Inr (be, m_tx))
        | Some (Inr _) \<Rightarrow> Inl Panic)"

text \<open>
  \<^verbatim>\<open>dbus_service_harness\<close> up to its loop and the rest of \<^verbatim>\<open>background\<close>: the results of
  connecting and of making the two proxies and the stream.  An error ends the task, which reports
  it and drops the receiver of the window's requests; otherwise the loop begins.
\<close>

fun first_failure :: "unit zresult list \<Rightarrow> zbus_error option" where
  "first_failure [] = None"
| "first_failure (Inl err # rs) = Some err"
| "first_failure (Inr _ # rs) = first_failure rs"

definition harness_start :: "unit zresult list \<Rightarrow> M chan \<Rightarrow> D chan \<Rightarrow> (M chan \<times> D chan \<times> backend option) result" where
  "harness_start setup m_tx d_tx =
    (case first_failure setup of
       None \<Rightarrow> Inr (m_tx, d_tx, Some backend_init)
     | Some err \<Rightarrow> rbind (tx_send m_tx (M_DbusFail err)) (\<lambda>m_tx. Inr (m_tx, d_tx\<lparr>ch_open := False\<rparr>, None)))"

section \<open>Start of the program\<close>

text \<open>The theme, from the setting \<^verbatim>\<open>color-scheme\<close> of the desktop.\<close>

definition tray_theme_of :: "u32 zresult \<Rightarrow> TrayTheme" where
  "tray_theme_of res = (case res of Inr v \<Rightarrow> if v = 2 then Theme_Light else Theme_Dark | Inl _ \<Rightarrow> Theme_Dark)"

definition boot :: "'c gui_lib \<Rightarrow> bool \<Rightarrow> u32 zresult \<Rightarrow> M chan \<Rightarrow> D chan \<Rightarrow> TrayState chan \<Rightarrow> (M chan \<times> 'c gstate) result" where
  "boot L tray theme_res m_tx d_tx t_tx =
    rbind (if \<not> tray then tx_send m_tx M_WindowOpen else Inr m_tx) (\<lambda>m_tx.
      Inr (m_tx, gui_init L (tray_theme_of theme_res) d_tx t_tx))"

text \<open>
  Where the set-up of the client fails, the window is told and any request it sends afterwards
  panics.
\<close>

lemma no_client_panics:
  assumes "first_failure setup = Some err" and "ch_open m_tx" and "harness_start setup m_tx d_tx = Inr (m_tx', d_tx', be)"
  shows "ch_sent m_tx' = ch_sent m_tx @ [M_DbusFail err]"
    and "g_d_tx s = Some d_tx' \<Longrightarrow> update L dir s M_MatchAdd = Inl Panic"
  using assms
  by (auto simp: harness_start_def tx_send_def on_match_add_def send_d_def unbounded_send_def)

section \<open>Subscriptions\<close>

text \<open>
  What \<^verbatim>\<open>main\<close> subscribes the window to: a request to close a window, the keys, of which Escape only is a
  message, and the channel of messages, whose other end the tasks of \<^verbatim>\<open>background\<close> hold.
\<close>

datatype gui_event = Close_request nat | Key_escape | Key_other string | From_channel M

fun subscription :: "gui_event \<Rightarrow> M option" where
  "subscription (Close_request w) = Some (M_WindowCloseId w)"
| "subscription Key_escape = Some M_Esc"
| "subscription (Key_other k) = None"
| "subscription (From_channel m) = Some m"

end
