(* ===== verification/Gui_View.thy ===== *)
theory Gui_View
  imports Gui
begin

text \<open>
  What the window shows (\<^verbatim>\<open>gui/gui.rs\<close>, \<^verbatim>\<open>view\<close>): the tree of widgets with their contents
  and the messages they send.  Fonts, sizes, spacing and colours are left out, apart from the
  colour that warns.  \<open>emits\<close> collects the messages that a user can cause on a view.
\<close>

section \<open>Widgets\<close>

text \<open>
  \<open>E_input\<close> has a placeholder, the text, whether the border warns, what typing sends and what
  return sends; \<open>E_hook\<close> is \<^verbatim>\<open>container_hook\<close> with what a click, entering and leaving send.
\<close>

datatype (plugins only: size) 'c element =
    E_text string
  | E_status string bool
  | E_rich "(string \<times> bool) list"
  | E_svg TrayTheme
  | E_button "'c element" "M option"
  | E_input string string bool "(string \<Rightarrow> M) option" "M option"
  | E_pick "string list" string "string \<Rightarrow> M"
  | E_check string bool "bool \<Rightarrow> M"
  | E_editor 'c "editor_action \<Rightarrow> M"
  | E_hook "'c element" "M option" "M option" "M option" bool
  | E_col "'c element list"
  | E_row "'c element list"
  | E_tooltip "'c element" "'c element"
  | E_dropdown "'c element" "'c element" bool M
  | E_modal "'c element" "'c element" M

text \<open>
  \<open>gv_getifaddrs\<close> is the list that \<^verbatim>\<open>getifaddrs\<close> answers; \<open>gv_fuzzy_sorted\<close> the search crate;
  \<open>gv_fixed2 n d\<close> is \<^verbatim>\<open>format!("{: >6.2}", n as f64 / d)\<close>.
\<close>

record gview_lib =
  gv_getifaddrs :: "string list option"
  gv_fuzzy_sorted :: "string \<Rightarrow> string list \<Rightarrow> string list"
  gv_fixed2 :: "u64 \<Rightarrow> nat \<Rightarrow> string"

text \<open>The names in a \<^verbatim>\<open>BTreeSet\<close>; none where the call fails.\<close>

definition ifnames :: "string list option \<Rightarrow> string list" where
  "ifnames r = (case r of None \<Rightarrow> [] | Some names \<Rightarrow> remdups (sort names))"

section \<open>The parts of the view\<close>

definition nothing_matched :: "'c element" where
  "nothing_matched = E_button (E_text ''Nothing matched'') None"

definition overlay_active :: "'c gstate \<Rightarrow> bool" where
  "overlay_active s \<longleftrightarrow> g_modal_editor s \<noteq> None \<or> g_show_settings s"

definition view_output_input :: "gview_lib \<Rightarrow> 'c gstate \<Rightarrow> 'c element" where
  "view_output_input V s =
    E_hook
      (E_input '''' (g_output_dev_input s)
        (\<not> List.member (ifnames (gv_getifaddrs V)) (g_output_dev_input s))
        (Some M_OutputDevSet) (Some M_OutputDevSubmit))
      (Some M_OutputDevClick) (Some M_OutputDevFocus) (Some M_OutputDevUnfocus) False"

definition view_output_devs :: "gview_lib \<Rightarrow> 'c gstate \<Rightarrow> 'c element" where
  "view_output_devs V s =
    (let shown = g_output_dev_popup_focus s \<or> g_output_dev_input_focus s;
         all = ifnames (gv_getifaddrs V);
         rows = (if shown then
                   map (\<lambda>n. E_button (E_text n) (Some (M_OutputDevSetSubmit n)))
                     (gv_fuzzy_sorted V (g_output_dev_input s) all) @
                   (if all = [] then [nothing_matched] else [])
                 else [])
     in E_dropdown (view_output_input V s)
          (E_hook (E_col rows) None (Some M_OutputDevPopupFocus) (Some M_OutputDevPopupUnfocus) False)
          shown M_ModalDismiss)"

definition view_output_dev :: "gview_lib \<Rightarrow> 'c gstate \<Rightarrow> 'c element" where
  "view_output_dev V s =
    E_col
      [E_row [E_row [E_text ''Interface'', view_output_devs V s],
              E_text (if \<not> overlay_active s then ''<'' else '''')],
       E_row [E_text ''Local IP'', E_input '''' (at_to_addr (g_attached s)) False None None]]"

definition dir_letter :: "string \<Rightarrow> string" where
  "dir_letter d = (if d = ''redirect'' then ''R'' else if d = ''bypass'' then ''B'' else ''R'')"

definition dir_hint :: "string \<Rightarrow> 'c element" where
  "dir_hint cur =
    (let i = (if cur = ''redirect'' then 0 else if cur = ''bypass'' then 1 else (0 :: nat))
     in E_rich [(''R:'', False), ('' Redirect\<newline>'', i = 0), (''B:'', False), ('' Bypass\<newline>'', i = 1)])"

definition view_search_row :: "'c gstate \<Rightarrow> 'c element" where
  "view_search_row s =
    E_row
      [E_button (E_text ''+'') (Some M_MatchAdd),
       E_pick KINDS (g_proc_input_kind s) M_Kind,
       E_pick (methods_for (g_proc_input_kind s)) (method_or_unk (g_proc_input_method s)) M_Method,
       E_tooltip (E_button (E_text (dir_letter (g_proc_input_dir s))) (Some M_MatchDir))
         (dir_hint (g_proc_input_dir s)),
       E_hook (E_input ''New process...'' (g_proc_input s) False (Some M_Procs) (Some M_MatchAdd))
         (Some M_MatchFocus) None (Some M_MatchUnfocus) False]"

definition search_overlay_show :: "'c gstate \<Rightarrow> bool" where
  "search_overlay_show s \<longleftrightarrow> (g_proc_popup_focus s \<or> g_proc_input_focus s) \<and> g_proc_input s \<noteq> ''''"

definition proc_buttons :: "u64 \<Rightarrow> (string \<times> u32) list \<Rightarrow> 'c element list" where
  "proc_buttons g procs =
    map (\<lambda>(i, c, num). E_button (E_text (c @ '' ('' @ show_nat (unat num) @ '')'')) (Some (M_MatchFromProc g i)))
      (enumerate 0 procs)"

definition view_search_overlay :: "'c gstate \<Rightarrow> 'c element list result" where
  "view_search_overlay s =
    (if search_overlay_show s then
       rbind (ok_or Panic (g_procs_all s)) (\<lambda>procs. Inr (
         proc_buttons (g_matches_gen s) procs @
         (if procs \<noteq> [] \<and> g_procs_all_max s = length procs then [E_button (E_text '''') None] else []) @
         (if procs = [] then [nothing_matched] else [])))
     else Inr [])"

definition view_search :: "'c gstate \<Rightarrow> 'c element result" where
  "view_search s =
    rbind (view_search_overlay s) (\<lambda>rows. Inr (
      E_dropdown (view_search_row s)
        (E_hook (E_col rows) None (Some M_ProcPopupFocus) (Some M_ProcPopupUnfocus) False)
        (search_overlay_show s) M_ModalDismiss))"

definition view_pattern :: "'c gstate \<Rightarrow> nat \<times> GMatch \<times> nat \<Rightarrow> 'c element" where
  "view_pattern s row =
    (case row of (i, m0, _) \<Rightarrow>
     let active = g_procs_active s i;
         is_active = (\<not> overlay_active s \<and> g_proc_input s = '''' \<and> active \<noteq> None);
         m = (case g_matches_override s i of Some m \<Rightarrow> m | None \<Rightarrow> m0);
         g = g_matches_gen s
     in E_row
       (E_hook
          (E_row
            [E_button (E_text ''-'') (Some (M_MatchDelete (g_matches_gen s) i)),
             E_pick KINDS (kind_or_unk (gm_kind m)) (M_MatchKind g i),
             E_pick (methods_for (gm_kind m)) (method_or_unk (gm_method m)) (M_MatchMethod g i),
             E_tooltip (E_button (E_text (dir_letter (gm_direction m))) (Some (M_MatchUpdateDir g i)))
               (dir_hint (gm_direction m)),
             E_input '''' (gm_pattern m) False (Some (M_MatchUpdate g i)) (Some (M_MatchSubmit g i))])
          None None (Some (M_MatchSubmit g i)) False
        # (if is_active
           then [E_text (foldl (\<lambda>a x. a @ '' '' @ x) '''' (case active of Some xs \<Rightarrow> xs | None \<Rightarrow> []))]
           else [])))"

definition view_patterns :: "'c gstate \<Rightarrow> 'c element" where
  "view_patterns s = E_col (map (view_pattern s) (enumerate 0 (g_matches s)))"

text \<open>The status line, and whether it warns.\<close>

definition status_line :: "'c gui_lib \<Rightarrow> 'c gstate \<Rightarrow> string \<times> bool" where
  "status_line L s =
    (case g_dbus_conn_err s of
       Some (ZServiceUnknown _) \<Rightarrow> (''Service not started'', True)
     | Some (ZMethodError name msg) \<Rightarrow>
       (if name = ''org.freedesktop.DBus.Error.ServiceUnknown'' then ''Service not started''
        else gl_show_error L (ZMethodError name msg), True)
     | Some err \<Rightarrow> (gl_show_error L err, True)
     | None \<Rightarrow>
       if at_attached (g_attached s) \<and> at_blocker (g_attached s) = '''' then
         (if at_enabled (g_attached s) then ''Status: Enabled'' else ''Status: Disabled'', False)
       else (if at_blocker (g_attached s) = '''' then ''Not connected'' else at_blocker (g_attached s), True))"

definition scale_mono :: "gview_lib \<Rightarrow> u64 \<Rightarrow> u64 \<Rightarrow> string" where
  "scale_mono V n mx =
    (if unat mx < 1000000 then gv_fixed2 V n 1000 @ '' KB/s''
     else if unat mx < 1000000000 then gv_fixed2 V n 1000000 @ '' MB/s''
     else gv_fixed2 V n 1000000000 @ '' GB/s'')"

definition view_enable :: "'c gstate \<Rightarrow> 'c element" where
  "view_enable s =
    (if \<not> at_attached (g_attached s) then E_button (E_text ''Enable'') None
     else if \<not> at_enabled (g_attached s) then E_button (E_text ''Enable'') (Some M_Enable)
     else E_button (E_text ''Disable'') (Some M_Disable))"

definition view_status :: "'c gui_lib \<Rightarrow> gview_lib \<Rightarrow> 'c gstate \<Rightarrow> 'c element" where
  "view_status L V s =
    (let tx = sg_tx_bytes (g_stats s); rx = sg_rx_bytes (g_stats s); mx = max tx rx
     in E_col
       [E_row
          [E_col [E_text (''TX: '' @ scale_mono V tx mx @ '' ''), E_text (''RX: '' @ scale_mono V rx mx @ '' '')],
           view_enable s,
           E_button (E_svg (g_tray_theme s)) (Some M_SettingsOpen)],
        E_hook (E_status (fst (status_line L s)) (snd (status_line L s))) (Some M_StatusShow) None None
          (g_dbus_conn_err s \<noteq> None \<and> g_modal_editor s = None)])"

definition view_error :: "'c gstate \<Rightarrow> 'c \<Rightarrow> 'c element" where
  "view_error s t =
    E_col
      [E_row [E_text ''System service replied with error:'',
              E_text (if length (g_dbus_errs s) \<noteq> 1 then ''1 / '' @ show_nat (length (g_dbus_errs s)) else '''')],
       E_editor t M_ModalEditAction,
       E_button (E_text ''Got it'') (Some M_ModalNext)]"

definition view_settings :: "'c gstate \<Rightarrow> 'c element" where
  "view_settings s =
    E_col
      [E_check ''Allow traffic to devices on LAN (including DNS request)'' (gs_allow_lan (g_settings s)) M_SettingsLan,
       E_check ''Spoof DNS traffic'' (gs_spoof_dns (g_settings s)) M_SettingsDns,
       E_row
         [E_text ''DNS IP address: '',
          E_hook
            (E_input '''' (gs_spoof_dns_ipv4 (g_settings s)) (parse_ipv4 (gs_spoof_dns_ipv4 (g_settings s)) = None)
              (if gs_spoof_dns (g_settings s) then Some M_SettingsDnsIp else None) (Some M_SettingsDnsIpSubmit))
            None None (Some M_SettingsDnsIpSubmit) False],
       E_check ''Drop egress traffic if output interface not setup''
         (gs_drop_egress_without_output (g_settings s)) M_SettingsDropEgressWithoutOutput]"

definition view :: "'c gui_lib \<Rightarrow> gview_lib \<Rightarrow> 'c gstate \<Rightarrow> 'c element result" where
  "view L V s =
    rbind (view_search s) (\<lambda>search.
      let content = E_col [E_row [view_output_dev V s, view_status L V s], E_col [search, view_patterns s]]
      in case g_modal_editor s of
           Some t \<Rightarrow> Inr (E_modal content (view_error s t) M_ModalNext)
         | None \<Rightarrow> if g_show_settings s then Inr (E_modal content (view_settings s) M_SettingsClose)
                   else Inr content)"

section \<open>What a view can send\<close>

definition opt_set :: "'a option \<Rightarrow> 'a set" where
  "opt_set x = (case x of None \<Rightarrow> {} | Some y \<Rightarrow> {y})"

text \<open>
  A hook and a dropdown pass events on to their content; \<^verbatim>\<open>modal\<close> stacks an opaque layer over
  the base, and its content under a mouse area, so that the base only hears what does not depend
  on the cursor: it is kept, as an upper bound.
\<close>

primrec emits :: "'c element \<Rightarrow> M set" where
  "emits (E_text _) = {}"
| "emits (E_status _ _) = {}"
| "emits (E_rich _) = {}"
| "emits (E_svg _) = {}"
| "emits (E_button e m) = emits e \<union> opt_set m"
| "emits (E_input _ _ _ f m) = (case f of None \<Rightarrow> {} | Some f \<Rightarrow> range f) \<union> opt_set m"
| "emits (E_pick xs _ f) = f ` set xs"
| "emits (E_check _ _ f) = range f"
| "emits (E_editor _ f) = range f"
| "emits (E_hook e c h l _) = emits e \<union> opt_set c \<union> opt_set h \<union> opt_set l"
| "emits (E_col es) = \<Union> (set (map emits es))"
| "emits (E_row es) = \<Union> (set (map emits es))"
| "emits (E_tooltip a b) = emits a \<union> emits b"
| "emits (E_dropdown a b _ m) = emits a \<union> emits b \<union> {m}"
| "emits (E_modal a b m) = emits a \<union> emits b \<union> {m}"

end
