(* ===== verification/Gui_Correct.thy ===== *)
theory Gui_Correct
  imports Gui_View "HOL-Library.Sublist"
begin

text \<open>
  The window does not panic: an invariant of its state, preserved by every handler, and the
  progress of every handler under it.  The process list of the search box is the reference list
  of matching processes, whatever the cache of compiled expressions holds.
\<close>

section \<open>The process list\<close>

text \<open>The executables of the processes of a listing that a predicate accepts, in their order.\<close>

fun matching_exes :: "(string \<Rightarrow> bool) \<Rightarrow> (string \<times> string option) option list \<Rightarrow> string list" where
  "matching_exes accepts [] = []"
| "matching_exes accepts (Some (f, Some exe) # ents) =
    (if is_pid_name f \<and> accepts exe then exe # matching_exes accepts ents else matching_exes accepts ents)"
| "matching_exes accepts (_ # ents) = matching_exes accepts ents"

text \<open>A filter with a cache that answers like a pure predicate while its cache is fresh.\<close>

locale cached_filter =
  fixes keep :: "string \<Rightarrow> 'k \<Rightarrow> bool \<times> 'k"
    and fresh :: "'k \<Rightarrow> bool"
    and accepts :: "string \<Rightarrow> bool"
  assumes answer: "fresh c \<Longrightarrow> fst (keep x c) = accepts x"
    and kept_fresh: "fresh c \<Longrightarrow> fresh (snd (keep x c))"
begin

lemma sweep_is_fold:
  assumes "fresh c" and "None \<notin> set ents"
  shows "\<exists>k \<le> length ents. procs_sweep keep max_len ents c res =
      Inr (foldl (\<lambda>r x. btree_bump x r) res (matching_exes accepts (take k ents))) \<and>
    (k < length ents \<longrightarrow> max_len \<le> length (foldl (\<lambda>r x. btree_bump x r) res (matching_exes accepts (take k ents))))"
  using assms
proof (induction ents arbitrary: c res)
  case (Cons ent ents)
  obtain f exe where ent: "ent = Some (f, exe)"
    using Cons.prems(2) by (cases ent) auto
  show ?case
  proof (cases "length res \<ge> max_len")
    case True
    then show ?thesis by (intro exI [of _ 0]) simp
  next
    case False
    define res' where "res' = foldl (\<lambda>r x. btree_bump x r) res (matching_exes accepts [ent])"
    obtain c' where c': "fresh c'"
      and step: "procs_sweep keep max_len (ent # ents) c res = procs_sweep keep max_len ents c' res'"
    proof (cases exe)
      case None
      with False show ?thesis by (intro that [of c]) (simp_all add: Cons.prems ent res'_def)
    next
      case (Some x)
      with False answer [OF Cons.prems(1), of x] show ?thesis
        by (intro that [of "if is_pid_name f then snd (keep x c) else c"])
          (auto simp: Cons.prems(1) kept_fresh ent res'_def split: prod.splits)
    qed
    have split: "foldl (\<lambda>r x. btree_bump x r) res (matching_exes accepts (take (Suc k) (ent # ents))) =
        foldl (\<lambda>r x. btree_bump x r) res' (matching_exes accepts (take k ents))" for k
      by (cases exe) (simp_all add: ent res'_def)
    obtain k where "k \<le> length ents" and "procs_sweep keep max_len ents c' res' =
        Inr (foldl (\<lambda>r x. btree_bump x r) res' (matching_exes accepts (take k ents)))"
      and "k < length ents \<longrightarrow> max_len \<le> length (foldl (\<lambda>r x. btree_bump x r) res' (matching_exes accepts (take k ents)))"
      using Cons.IH [OF c', of res'] Cons.prems(2) by auto
    then show ?thesis
      unfolding step by (intro exI [of _ "Suc k"]) (auto simp only: split list.size)
  qed
qed simp

end

text \<open>The tree map: sorted keys, each with its number of occurrences.\<close>

lemma keys_btree_bump: "set (map fst (btree_bump k m)) = insert k (set (map fst m))"
  by (induction k m rule: btree_bump.induct) auto

lemma btree_bump_sorted:
  "sorted_wrt (<) (map fst m) \<Longrightarrow> sorted_wrt (<) (map fst (btree_bump k m))"
proof (induction k m rule: btree_bump.induct)
  case (2 k a n m)
  then show ?case
    using keys_btree_bump [of k m] by (auto simp: not_less_iff_gr_or_eq)
qed simp

lemma map_of_btree_bump:
  "sorted_wrt (<) (map fst m) \<Longrightarrow>
    map_of (btree_bump k m) = (map_of m)(k \<mapsto> (case map_of m k of None \<Rightarrow> 1 | Some n \<Rightarrow> n + 1))"
proof (induction k m rule: btree_bump.induct)
  case (2 k a n m)
  have "map_of m k = None" if "k < a"
    using that 2(2) by (auto simp: map_of_eq_None_iff)
  with 2 show ?case by (auto simp: fun_eq_iff split: option.split)
qed simp

lemma length_btree_bump: "length (btree_bump k m) \<le> Suc (length m)"
  by (induction k m rule: btree_bump.induct) auto

lemma procs_sweep_length:
  "procs_sweep keep max_len ents c res = Inr r \<Longrightarrow> length res \<le> max_len \<Longrightarrow> length r \<le> max_len"
proof (induction keep max_len ents c res rule: procs_sweep.induct)
  case (2 keep max_len ent ents c res)
  have "length (btree_bump k res) \<le> max_len" if "\<not> max_len \<le> length res" for k
    using length_btree_bump [of k res] that by simp
  with 2 show ?case
    by (auto split: if_splits option.splits prod.splits)
qed simp

definition tally :: "string list \<Rightarrow> string \<Rightarrow> u32 option" where
  "tally xs k = (if k \<in> set xs then Some (of_nat (count_list xs k)) else None)"

lemma btree_fold:
  "sorted_wrt (<) (map fst (foldl (\<lambda>r x. btree_bump x r) [] xs)) \<and>
    map_of (foldl (\<lambda>r x. btree_bump x r) [] xs) = tally xs"
proof (induction xs rule: rev_induct)
  case (snoc x xs)
  then show ?case
    by (auto simp: btree_bump_sorted map_of_btree_bump tally_def fun_eq_iff count_list_append)
qed (simp add: tally_def fun_eq_iff)

text \<open>What a match accepts, without a cache.\<close>

definition method_accepts :: "(string \<Rightarrow> regex option) \<Rightarrow> GMatch \<Rightarrow> string \<Rightarrow> bool" where
  "method_accepts regex_new m s \<longleftrightarrow>
    gm_method m = ''full'' \<and> s = gm_pattern m \<or>
    gm_method m = ''prefix'' \<and> prefix (gm_pattern m) s \<or>
    gm_method m = ''suffix'' \<and> suffix (gm_pattern m) s \<or>
    gm_method m = ''substring'' \<and> sublist (gm_pattern m) s \<or>
    gm_method m = ''regex'' \<and> (\<exists>r. regex_new (gm_pattern m) = Some r \<and> r s)"

definition gmatch_accepts :: "(string \<Rightarrow> regex option) \<Rightarrow> GMatch \<Rightarrow> string \<Rightarrow> bool" where
  "gmatch_accepts regex_new m exe \<longleftrightarrow>
    gm_kind m = ''path'' \<and> method_accepts regex_new m exe \<or>
    gm_kind m = ''basename'' \<and> method_accepts regex_new m (after_slash exe)"

lemma str_prefix_iff: "str_prefix p s \<longleftrightarrow> prefix p s"
  by (metis append_eq_conv_conj append_take_drop_id prefixE prefixI str_prefix_def)

lemma str_suffix_iff: "str_suffix p s \<longleftrightarrow> suffix p s"
  by (auto simp: str_suffix_def suffix_def) (metis append_take_drop_id)

lemma str_contains_iff: "str_contains p s \<longleftrightarrow> sublist p s"
proof
  assume "str_contains p s"
  then obtain i where "prefix p (drop i s)"
    by (auto simp: str_contains_def list_ex_iff str_prefix_iff)
  then show "sublist p s"
    by (metis append_take_drop_id prefixE sublist_def)
next
  assume "sublist p s"
  then obtain xs ys where "s = xs @ p @ ys"
    by (auto simp: sublist_def)
  then show "str_contains p s"
    by (auto simp: str_contains_def list_ex_iff str_prefix_iff intro!: bexI [of _ "length xs"])
qed

lemma gmatch_matches_fresh: "fst (gmatch_matches regex_new m s (\<lambda>_. None)) = gmatch_accepts regex_new m s"
  by (auto simp: gmatch_matches_def gmatch_accepts_def method_accepts_def Let_def str_prefix_iff
      str_suffix_iff str_contains_iff split: option.splits)

interpretation search_filter:
  cached_filter "gmatch_matches regex_new m" "cache_fresh regex_new" "gmatch_accepts regex_new m"
  for regex_new m
  by unfold_locales
    (simp_all add: gmatch_matches_cached gmatch_matches_fresh flip: gmatch_matches_fresh)

text \<open>
  C37: the list under the search box.  Where \<^verbatim>\<open>/proc\<close> can be read, the sweep does not panic; what
  it shows is sorted, of at most as many entries as allowed, and counts the accepted executables
  of a part of the listing, which is the whole listing unless the list is full.
\<close>

theorem procs_all_tally:
  assumes "None \<notin> set ents"
  shows "\<exists>res k. procs_all_with (gmatch_matches regex_new m) (\<lambda>_. None) max_len (Some ents) = Inr res \<and>
    sorted_wrt (<) (map fst res) \<and> length res \<le> max_len \<and>
    map_of res = tally (matching_exes (gmatch_accepts regex_new m) (take k ents)) \<and>
    (length res < max_len \<longrightarrow> k = length ents)"
proof -
  let ?xs = "\<lambda>k. matching_exes (gmatch_accepts regex_new m) (take k ents)"
  have "cache_fresh regex_new (\<lambda>_. None)"
    by (simp add: cache_fresh_def)
  then obtain k where k: "k \<le> length ents"
    and run: "procs_sweep (gmatch_matches regex_new m) max_len ents (\<lambda>_. None) [] =
      Inr (foldl (\<lambda>r x. btree_bump x r) [] (?xs k))"
    and full: "k < length ents \<longrightarrow> max_len \<le> length (foldl (\<lambda>r x. btree_bump x r) [] (?xs k))"
    using search_filter.sweep_is_fold [of regex_new _ ents m max_len "[]"] assms(1) by auto
  have "length (foldl (\<lambda>r x. btree_bump x r) [] (?xs k)) \<le> max_len"
    by (rule procs_sweep_length [OF run]) simp
  with k run full btree_fold [of "?xs k"] show ?thesis
    by (intro exI [of _ "foldl (\<lambda>r x. btree_bump x r) [] (?xs k)"] exI [of _ k])
      (auto simp: procs_all_with_def)
qed

theorem procs_all_tally_witness:
  "None \<notin> set [Some (''acpi'', None), Some (''7'', Some ''/bin/sh''), Some (''12'', Some ''/bin/ls''),
      Some (''31'', Some ''/bin/sh''), Some (''40'', None)] \<and>
   (\<exists>res k. procs_all_with (gmatch_matches (\<lambda>_. None)
       (gmatch_default\<lparr>gm_kind := ''basename'', gm_method := ''prefix'', gm_pattern := ''s''\<rparr>)) (\<lambda>_. None) 10
       (Some [Some (''acpi'', None), Some (''7'', Some ''/bin/sh''), Some (''12'', Some ''/bin/ls''),
         Some (''31'', Some ''/bin/sh''), Some (''40'', None)]) = Inr res \<and>
     res = [(''/bin/sh'', 2)] \<and> k = (5 :: nat) \<and>
     map_of res = tally (matching_exes (gmatch_accepts (\<lambda>_. None)
       (gmatch_default\<lparr>gm_kind := ''basename'', gm_method := ''prefix'', gm_pattern := ''s''\<rparr>)) (take k
        [Some (''acpi'', None), Some (''7'', Some ''/bin/sh''), Some (''12'', Some ''/bin/ls''),
         Some (''31'', Some ''/bin/sh''), Some (''40'', None)])))"
  using procs_all_tally [of "[Some (''acpi'', None), Some (''7'', Some ''/bin/sh''), Some (''12'', Some ''/bin/ls''),
      Some (''31'', Some ''/bin/sh''), Some (''40'', None)]" "\<lambda>_. None"
      "gmatch_default\<lparr>gm_kind := ''basename'', gm_method := ''prefix'', gm_pattern := ''s''\<rparr>" 10]
  by (auto simp: procs_all_with_def is_pid_name_def gmatch_matches_def gmatch_default_def after_slash_def
      str_prefix_def)

section \<open>Invariant and progress\<close>

definition tx_open :: "'a chan option \<Rightarrow> bool" where
  "tx_open tx = (case tx of None \<Rightarrow> False | Some ch \<Rightarrow> ch_open ch)"

definition gui_inv :: "'c gstate \<Rightarrow> bool" where
  "gui_inv s \<longleftrightarrow> tx_open (g_d_tx s) \<and> tx_open (g_t_tx s) \<and>
    (g_proc_input_dir s = ''redirect'' \<or> g_proc_input_dir s = ''bypass'') \<and>
    (g_proc_input s \<noteq> '''' \<longrightarrow> g_procs_all s \<noteq> None) \<and>
    (g_modal_editor s = None \<longleftrightarrow> g_dbus_errs s = [])"

definition readable :: "proc_dir \<Rightarrow> bool" where
  "readable dir \<longleftrightarrow> (\<exists>ents. dir = Some ents \<and> None \<notin> set ents)"

text \<open>The rows that a step may leave: the same in the same generation, or any in the next.\<close>

definition rows_kept :: "'c gstate \<Rightarrow> 'c gstate \<Rightarrow> bool" where
  "rows_kept s s' \<longleftrightarrow> g_matches_gen s' = g_matches_gen s \<and> length (g_matches s') = length (g_matches s) \<or>
    g_matches_gen s' = g_matches_gen s + 1"

text \<open>A handler under the invariant: it succeeds, keeps the invariant and keeps the rows.\<close>

definition safe :: "'c gstate \<Rightarrow> 'c upd \<Rightarrow> bool" where
  "safe s r \<longleftrightarrow> (\<exists>s' ts. r = Inr (s', ts) \<and> gui_inv s' \<and> rows_kept s s')"

lemma safeI: "gui_inv s' \<Longrightarrow> rows_kept s s' \<Longrightarrow> safe s (Inr (s', ts))"
  by (auto simp: safe_def)

lemma send_d_ok:
  "tx_open (g_d_tx s) \<Longrightarrow> \<exists>tx. send_d s d = Inr (s\<lparr>g_d_tx := tx\<rparr>) \<and> tx_open tx"
  by (auto simp: send_d_def unbounded_send_def tx_send_def tx_open_def split: option.splits)

lemma send_t_ok:
  "tx_open (g_t_tx s) \<Longrightarrow> \<exists>tx. send_t s t = Inr (s\<lparr>g_t_tx := tx\<rparr>) \<and> tx_open tx"
  by (auto simp: send_t_def unbounded_send_def tx_send_def tx_open_def split: option.splits)

lemma send_dE:
  assumes "gui_inv s"
  obtains tx where "send_d s d = Inr (s\<lparr>g_d_tx := tx\<rparr>)" and "tx_open tx"
  using send_d_ok [of s d] assms by (auto simp: gui_inv_def)

lemma send_tE:
  assumes "gui_inv s"
  obtains tx where "send_t s t = Inr (s\<lparr>g_t_tx := tx\<rparr>)" and "tx_open tx"
  using send_t_ok [of s t] assms by (auto simp: gui_inv_def)

lemma rows_kept_refl [simp]: "rows_kept s s"
  by (simp add: rows_kept_def)

lemma refresh_ok:
  assumes "readable dir"
  obtains res where "refresh_procs_all L dir s = Inr (s\<lparr>g_procs_all_max := 10, g_procs_all := Some res\<rparr>)"
proof -
  obtain ents where ents: "dir = Some ents" "None \<notin> set ents"
    using assms by (auto simp: readable_def)
  have "cache_fresh (gl_regex_new L) (\<lambda>_. None)"
    by (simp add: cache_fresh_def)
  then obtain res where
    "procs_all_with (gmatch_matches (gl_regex_new L) (current_match s)) (\<lambda>_. None) 10 dir = Inr res"
    using search_filter.sweep_is_fold [of "gl_regex_new L" _ ents "current_match s" 10 "[]"] ents
    by (auto simp: procs_all_with_def)
  then show thesis
    by (intro that) (simp add: refresh_procs_all_def)
qed

lemma safe_send_t: "gui_inv s' \<Longrightarrow> rows_kept s s' \<Longrightarrow> safe s (fin (send_t s' t))"
  by (rule send_tE [of s' t]) (auto simp: fin_def gui_inv_def rows_kept_def intro!: safeI)

lemma safe_send_d [simp]: "gui_inv s \<Longrightarrow> safe s (fin (send_d s d))"
  by (rule send_dE [of s d]) (auto simp: fin_def gui_inv_def rows_kept_def intro!: safeI)

lemma safe_on_settings_submit [simp]: "gui_inv s \<Longrightarrow> safe s (on_settings_submit s)"
  by (auto simp: on_settings_submit_def intro!: safeI)

lemma safe_on_match_submit [simp]:
  assumes "gui_inv s" and "i < length (g_matches s)"
  shows "safe s (on_match_submit s i)"
proof -
  let ?s = "s\<lparr>g_matches_override := (g_matches_override s)(i := None)\<rparr>"
  have "gui_inv ?s"
    using assms(1) by (simp add: gui_inv_def)
  then obtain tx where "send_d ?s (D_MatchUpdate (fst (g_matches s ! i)) (the (g_matches_override s i))) =
      Inr (?s\<lparr>g_d_tx := tx\<rparr>)" and "tx_open tx"
    by (rule send_dE)
  moreover have "gui_inv (?s\<lparr>g_d_tx := tx\<rparr>)" "rows_kept s ?s" "rows_kept s (?s\<lparr>g_d_tx := tx\<rparr>)"
    using assms(1) \<open>tx_open tx\<close> by (simp_all add: gui_inv_def rows_kept_def)
  ultimately show ?thesis
    using assms(2) \<open>gui_inv ?s\<close>
    by (cases "g_matches_override s i") (auto simp: on_match_submit_def idx_def Let_def intro!: safeI)
qed

lemma safe_override_submit [simp]:
  assumes "gui_inv s" and "i < length (g_matches s)"
  shows "safe s (rbind (override_entry s i f) (\<lambda>s. on_match_submit s i))"
proof -
  obtain ov where ov: "override_entry s i f = Inr (s\<lparr>g_matches_override := ov\<rparr>)"
    using assms(2) by (cases "g_matches_override s i") (auto simp: override_entry_def idx_def)
  have "safe (s\<lparr>g_matches_override := ov\<rparr>) (on_match_submit (s\<lparr>g_matches_override := ov\<rparr>) i)"
    using assms by (intro safe_on_match_submit) (simp_all add: gui_inv_def)
  then show ?thesis
    by (simp add: ov safe_def rows_kept_def)
qed

lemma safe_override [simp]:
  assumes "gui_inv s" and "i < length (g_matches s)"
  shows "safe s (fin (override_entry s i f))"
  using assms
  by (auto simp: override_entry_def idx_def fin_def gui_inv_def rows_kept_def split: option.split intro!: safeI)

lemma safe_on_match_delete [simp]:
  "gui_inv s \<Longrightarrow> i < length (g_matches s) \<Longrightarrow> safe s (on_match_delete s i)"
  by (simp add: on_match_delete_def idx_def)

lemma safe_on_match_add [simp]: "gui_inv s \<Longrightarrow> safe s (on_match_add s)"
  by (rule send_dE [of s "D_MatchAdd (current_match s)"])
    (auto simp: on_match_add_def gui_inv_def rows_kept_def intro!: safeI)

lemma safe_on_window_close [simp]: "gui_inv s \<Longrightarrow> safe s (on_window_close s w)"
  by (rule send_dE [of s D_WindowClosed])
    (auto simp: on_window_close_def gui_inv_def rows_kept_def intro!: safeI)

lemma safe_on_window_open [simp]: "gui_inv s \<Longrightarrow> safe s (on_window_open L s)"
  by (rule send_dE [of s D_WindowOpened])
    (auto simp: on_window_open_def gui_inv_def rows_kept_def Let_def intro!: safeI)

lemma safe_on_match_dir [simp]: "gui_inv s \<Longrightarrow> safe s (on_match_dir s)"
  by (auto simp: on_match_dir_def gui_inv_def rows_kept_def safe_def)

lemma safe_on_procs [simp]:
  assumes "gui_inv s" and "readable dir"
  shows "safe s (on_procs L dir s n)"
proof -
  define t where "t =
    (let s = s\<lparr>g_proc_input_sent := False, g_proc_input := n, g_procs_all := None\<rparr>;
         s = (if g_proc_input_kind_after_refine s
              then s\<lparr>g_proc_input_kind := KIND_DEFAULT, g_proc_input_kind_after_refine := False\<rparr> else s)
     in if g_proc_input_method_after_refine s
        then s\<lparr>g_proc_input_method := first_method, g_proc_input_method_after_refine := False\<rparr> else s)"
  obtain res where res: "refresh_procs_all L dir t = Inr (t\<lparr>g_procs_all_max := 10, g_procs_all := Some res\<rparr>)"
    using assms(2) by (rule refresh_ok)
  have "on_procs L dir s n = (if g_proc_input t \<noteq> '''' then fin (refresh_procs_all L dir t) else Inr (t, []))"
    by (simp add: on_procs_def t_def Let_def)
  moreover have "gui_inv (t\<lparr>g_procs_all_max := 10, g_procs_all := Some res\<rparr>)"
    and "g_proc_input t = '''' \<Longrightarrow> gui_inv t" and "rows_kept s t"
    and "rows_kept s (t\<lparr>g_procs_all_max := 10, g_procs_all := Some res\<rparr>)"
    using assms(1) by (auto simp: t_def gui_inv_def rows_kept_def Let_def)
  ultimately show ?thesis
    by (auto simp: res fin_def intro!: safeI)
qed

lemma safe_on_output_dev_submit [simp]:
  assumes "gui_inv s"
  shows "safe s (on_output_dev_submit s)"
proof -
  let ?s = "s\<lparr>g_output_dev_input_focus := False, g_output_dev_popup_focus := False, g_output_dev_input_sent := True\<rparr>"
  have "gui_inv ?s"
    using assms by (simp add: gui_inv_def)
  then obtain tx where "send_d ?s (D_ChangeOutput (g_output_dev_input s)) = Inr (?s\<lparr>g_d_tx := tx\<rparr>)" and "tx_open tx"
    by (rule send_dE)
  with assms show ?thesis
    by (auto simp: on_output_dev_submit_def Let_def gui_inv_def rows_kept_def intro!: safeI)
qed

lemma safe_on_attached [simp]: "gui_inv s \<Longrightarrow> safe s (on_attached s n)"
  by (auto simp: on_attached_def Let_def gui_inv_def rows_kept_def intro!: safe_send_t)

lemma safe_on_dbus_cant_connect:
  "gui_inv s \<Longrightarrow> g_matches_gen s = g_matches_gen s0 \<Longrightarrow> safe s0 (on_dbus_cant_connect s err)"
  by (auto simp: on_dbus_cant_connect_def Let_def gui_inv_def rows_kept_def intro!: safe_send_t)

lemma inv_on_modal_replace [simp]: "gui_inv s \<Longrightarrow> gui_inv (on_modal_replace L s)"
  by (auto simp: on_modal_replace_def gui_inv_def split: list.split)

lemma inv_on_modal_next [simp]: "gui_inv s \<Longrightarrow> gui_inv (on_modal_next L s)"
  by (auto simp: on_modal_next_def on_modal_replace_def gui_inv_def split: list.split)

lemma inv_on_dbus_err [simp]: "gui_inv s \<Longrightarrow> gui_inv (on_dbus_err L s err)"
  by (auto simp: on_dbus_err_def on_modal_replace_def gui_inv_def Let_def split: list.split)

lemma rows_on_errors [simp]:
  "rows_kept s (on_modal_replace L s)" "rows_kept s (on_modal_next L s)" "rows_kept s (on_dbus_err L s err)"
  "g_matches_gen (on_dbus_err L s err) = g_matches_gen s"
  by (simp_all add: on_modal_replace_def on_modal_next_def on_dbus_err_def rows_kept_def Let_def)

lemma safe_on_esc [simp]: "gui_inv s \<Longrightarrow> safe s (Inr (on_esc L s, ts))"
  by (rule safeI) (auto simp: on_esc_def, auto simp: gui_inv_def rows_kept_def)

lemma safe_on_matches [simp]: "gui_inv s \<Longrightarrow> safe s (Inr (on_matches_msg L s n, ts))"
  by (rule safeI) (auto simp: on_matches_msg_def Let_def gui_inv_def rows_kept_def)

lemma safe_on_match_from_proc:
  assumes "gui_inv s" and "readable dir" and "g_procs_all s = Some procs" and "i < length procs"
  shows "safe s (on_match_from_proc L dir s i)"
proof -
  let ?s = "s\<lparr>g_proc_input_kind := KIND_DEFAULT, g_proc_input_method := first_method,
                g_proc_input := after_slash (fst (procs ! i)), g_proc_input_kind_after_refine := True,
                g_proc_input_method_after_refine := True\<rparr>"
  obtain res where "refresh_procs_all L dir ?s = Inr (?s\<lparr>g_procs_all_max := 10, g_procs_all := Some res\<rparr>)"
    using assms(2) by (rule refresh_ok)
  then show ?thesis
    using assms by (auto simp: on_match_from_proc_def idx_def gui_inv_def rows_kept_def intro!: safeI)
qed

text \<open>The row that a message names, and the generation it was made for.\<close>

definition row_of :: "M \<Rightarrow> (u64 \<times> nat) option" where
  "row_of m =
    (case m of
       M_MatchDelete g i \<Rightarrow> Some (g, i)
     | M_MatchKind g i _ \<Rightarrow> Some (g, i)
     | M_MatchMethod g i _ \<Rightarrow> Some (g, i)
     | M_MatchUpdate g i _ \<Rightarrow> Some (g, i)
     | M_MatchUpdateDir g i \<Rightarrow> Some (g, i)
     | M_MatchSubmit g i \<Rightarrow> Some (g, i)
     | _ \<Rightarrow> None)"

definition proc_of :: "M \<Rightarrow> (u64 \<times> nat) option" where
  "proc_of m = (case m of M_MatchFromProc g i \<Rightarrow> Some (g, i) | _ \<Rightarrow> None)"

definition row_in_range :: "'c gstate \<Rightarrow> M \<Rightarrow> bool" where
  "row_in_range s m \<longleftrightarrow> (\<forall>g i. row_of m = Some (g, i) \<longrightarrow> g = g_matches_gen s \<longrightarrow> i < length (g_matches s))"

definition proc_in_range :: "'c gstate \<Rightarrow> M \<Rightarrow> bool" where
  "proc_in_range s m \<longleftrightarrow> (\<forall>g i. proc_of m = Some (g, i) \<longrightarrow> g = g_matches_gen s \<longrightarrow>
    (\<exists>procs. g_procs_all s = Some procs \<and> i < length procs))"

lemma safe_if_gen: "gui_inv s \<Longrightarrow> (g = g_matches_gen s \<Longrightarrow> safe s r) \<Longrightarrow> safe s (if_gen s g r)"
  by (simp add: if_gen_def safeI)

text \<open>A change of fields that the invariant does not mention.\<close>

definition same_core :: "'c gstate \<Rightarrow> 'c gstate \<Rightarrow> bool" where
  "same_core s t \<longleftrightarrow> g_d_tx t = g_d_tx s \<and> g_t_tx t = g_t_tx s \<and> g_proc_input_dir t = g_proc_input_dir s \<and>
    g_proc_input t = g_proc_input s \<and> g_procs_all t = g_procs_all s \<and> g_modal_editor t = g_modal_editor s \<and>
    g_dbus_errs t = g_dbus_errs s \<and> g_matches_gen t = g_matches_gen s \<and> g_matches t = g_matches s"

lemma same_core_inv: "same_core s t \<Longrightarrow> gui_inv t = gui_inv s"
  by (simp add: same_core_def gui_inv_def)

lemma safe_same_core: "same_core s t \<Longrightarrow> safe s r = safe t r"
  by (simp add: safe_def rows_kept_def same_core_def)

lemma safe_core: "gui_inv s \<Longrightarrow> same_core s t \<Longrightarrow> safe s (Inr (t, ts))"
  by (rule safeI) (use same_core_inv [of s t] in \<open>auto simp: rows_kept_def same_core_def\<close>)

lemma safe_core_settings: "gui_inv s \<Longrightarrow> same_core s t \<Longrightarrow> safe s (on_settings_submit t)"
  using safe_same_core [of s t] same_core_inv [of s t] safe_on_settings_submit [of t] by blast

lemma safe_core_output: "gui_inv s \<Longrightarrow> same_core s t \<Longrightarrow> safe s (on_output_dev_submit t)"
  using safe_same_core [of s t] same_core_inv [of s t] safe_on_output_dev_submit [of t] by blast

lemma safe_edit:
  "gui_inv s \<Longrightarrow> safe s (Inr (s\<lparr>g_modal_editor := map_option f (g_modal_editor s)\<rparr>, ts))"
  by (rule safeI) (simp_all add: gui_inv_def rows_kept_def)

lemma safe_active: "gui_inv s \<Longrightarrow> safe s (Inr (s\<lparr>g_procs_active := n, g_matches_gen := g_matches_gen s + 1\<rparr>, ts))"
  by (rule safeI) (simp_all add: gui_inv_def rows_kept_def)

lemmas safe_intros = safe_if_gen safe_core safe_core_settings safe_core_output safe_edit safe_active
  safe_on_dbus_cant_connect safe_on_match_from_proc

lemma update_safe:
  assumes "gui_inv s" and "readable dir" and "row_in_range s m" and "proc_in_range s m"
  shows "safe s (update L dir s m)"
proof (cases m)
  case (M_MatchFromProc g i)
  with assms show ?thesis
    by (auto simp: proc_in_range_def proc_of_def intro!: safe_if_gen safe_on_match_from_proc)
qed (use assms in \<open>simp_all add: row_in_range_def row_of_def safe_intros safeI same_core_def
      on_kind_def on_output_dev_set_def Let_def split: option.split\<close>)

section \<open>Runs\<close>

text \<open>A message about no row and no process: it can come at any time, from any task.\<close>

definition plain :: "M \<Rightarrow> bool" where
  "plain m \<longleftrightarrow> row_of m = None \<and> proc_of m = None"

text \<open>
  The window over time: its state, the messages that the views shown so far can have sent, and the
  number of messages handled.  \<open>queues\<close> is the receivers taking from the channels and the tray
  menu adding to one.
\<close>

inductive gui_run :: "'c gui_lib \<Rightarrow> 'c gstate \<Rightarrow> M set \<Rightarrow> nat \<Rightarrow> bool" for L where
  start: "ch_open d_tx \<Longrightarrow> ch_open t_tx \<Longrightarrow> gui_run L (gui_init L theme d_tx t_tx) {} 0"
| show_view: "gui_run L s P n \<Longrightarrow> view L V s = Inr e \<Longrightarrow> gui_run L s (P \<union> emits e) n"
| queues: "gui_run L s P n \<Longrightarrow>
    gui_run L (s\<lparr>g_d_tx := map_option (ch_sent_update (\<lambda>_. ds)) (g_d_tx s),
                 g_t_tx := map_option (ch_sent_update (\<lambda>_. ts)) (g_t_tx s)\<rparr>) P n"
| handle: "gui_run L s P n \<Longrightarrow> m \<in> P \<or> plain m \<Longrightarrow> readable dir \<Longrightarrow> update L dir s m = Inr (s', ts) \<Longrightarrow>
    gui_run L s' P (Suc n)"

lemma view_total: "gui_inv s \<Longrightarrow> \<exists>e. view L V s = Inr e"
  by (auto simp: view_def view_search_def view_search_overlay_def search_overlay_show_def gui_inv_def Let_def
      split: option.split)

text \<open>The parts of a view without rows.\<close>

lemmas plain_simps = plain_def row_of_def proc_of_def opt_set_def

lemma plain_output: "m \<in> emits (view_output_dev V s) \<Longrightarrow> plain m"
  by (auto simp: plain_simps view_output_dev_def view_output_devs_def view_output_input_def nothing_matched_def Let_def
      split: if_splits)

lemma plain_status: "m \<in> emits (view_status L V s) \<Longrightarrow> plain m"
  by (auto simp: plain_simps view_status_def view_enable_def Let_def split: if_splits)

lemma plain_error: "m \<in> emits (view_error s t) \<Longrightarrow> plain m"
  by (auto simp: plain_simps view_error_def)

lemma plain_settings: "m \<in> emits (view_settings s) \<Longrightarrow> plain m"
  by (auto simp: plain_simps view_settings_def split: if_splits)

lemma plain_search_row: "m \<in> emits (view_search_row s) \<Longrightarrow> plain m"
  by (auto simp: plain_simps view_search_row_def dir_hint_def Let_def)

text \<open>The rows of a view are those of the state.\<close>

lemma emits_pattern:
  "m \<in> emits (view_pattern s (i, m0, w)) \<Longrightarrow> row_of m = Some (g_matches_gen s, i) \<and> proc_of m = None"
  by (auto simp: plain_simps view_pattern_def dir_hint_def Let_def split: if_splits)

lemma emits_patterns:
  assumes "m \<in> emits (view_patterns s)"
  shows "\<exists>i < length (g_matches s). row_of m = Some (g_matches_gen s, i) \<and> proc_of m = None"
  using assms emits_pattern [of m s] by (fastforce simp: view_patterns_def in_set_enumerate_eq)

lemma emits_search:
  assumes "view_search s = Inr e" and "m \<in> emits e"
  shows "plain m \<or> (\<exists>procs i. g_procs_all s = Some procs \<and> i < length procs \<and>
    row_of m = None \<and> proc_of m = Some (g_matches_gen s, i))"
  using assms plain_search_row [of m s]
  by (fastforce simp: plain_simps view_search_def view_search_overlay_def proc_buttons_def nothing_matched_def rbind_eq_Inr
      in_set_enumerate_eq split: if_splits)

lemma plain_dismiss: "plain M_ModalNext" "plain M_SettingsClose"
  by (simp_all add: plain_simps)

lemma emits_in_range:
  assumes "view L V s = Inr e" and "m \<in> emits e"
  shows "row_of m = Some (g, i) \<Longrightarrow> g = g_matches_gen s \<and> i < length (g_matches s)"
    and "proc_in_range s m"
proof -
  obtain search where search: "view_search s = Inr search"
    and m: "m \<in> emits search \<or> m \<in> emits (view_patterns s) \<or> plain m"
    using assms
    by (auto simp: view_def rbind_eq_Inr Let_def plain_dismiss dest!: plain_output plain_status plain_error plain_settings
        split: option.splits if_splits)
  show "row_of m = Some (g, i) \<Longrightarrow> g = g_matches_gen s \<and> i < length (g_matches s)" and "proc_in_range s m"
    using m emits_search [OF search, of m] emits_patterns [of m s]
    by (auto simp: proc_in_range_def plain_def)
qed

text \<open>The generation counts changes of the rows; a row seen in the present generation exists.\<close>

definition rows_seen :: "'c gstate \<Rightarrow> M set \<Rightarrow> nat \<Rightarrow> bool" where
  "rows_seen s P b \<longleftrightarrow> g_matches_gen s = of_nat b \<and>
    (\<forall>m \<in> P. \<forall>g i. row_of m = Some (g, i) \<longrightarrow> (\<exists>j \<le> b. g = of_nat j \<and> (j = b \<longrightarrow> i < length (g_matches s))))"

lemma u64_of_nat_inj: "(of_nat j :: u64) = of_nat b \<Longrightarrow> j \<le> b \<Longrightarrow> b < 2 ^ 64 \<Longrightarrow> j = b"
  by (simp add: word_of_nat_eq_iff take_bit_nat_eq_self)

lemma rows_seen_in_range:
  assumes "rows_seen s P b" and "b < 2 ^ 64" and "m \<in> P \<or> row_of m = None"
  shows "row_in_range s m"
  using assms u64_of_nat_inj [OF _ _ assms(2)] unfolding rows_seen_def row_in_range_def by fastforce

lemma rows_seen_step:
  assumes "rows_seen s P b" and "rows_kept s s'"
  shows "\<exists>b' \<le> Suc b. rows_seen s' P b'"
  using assms(2) unfolding rows_kept_def
proof
  assume "g_matches_gen s' = g_matches_gen s \<and> length (g_matches s') = length (g_matches s)"
  with assms(1) show ?thesis
    by (intro exI [of _ b]) (simp add: rows_seen_def)
next
  assume "g_matches_gen s' = g_matches_gen s + 1"
  with assms(1) show ?thesis
    by (intro exI [of _ "Suc b"]) (auto simp: rows_seen_def, (metis le_SucI not_less_eq_eq)+)
qed

lemma proc_in_range_of_ok: "update L dir s m = Inr r \<Longrightarrow> proc_in_range s m"
  by (cases m) (auto simp: proc_in_range_def proc_of_def if_gen_def on_match_from_proc_def rbind_eq_Inr)

lemma gui_run_inv:
  "gui_run L s P n \<Longrightarrow> n < 2 ^ 64 \<Longrightarrow> gui_inv s \<and> (\<exists>b \<le> n. rows_seen s P b)"
proof (induction rule: gui_run.induct)
  case (start d_tx t_tx theme)
  then show ?case
    by (simp add: gui_inv_def gui_init_def tx_open_def rows_seen_def)
next
  case (show_view s P n V e)
  then obtain b where b: "b \<le> n" "rows_seen s P b" and inv: "gui_inv s"
    by blast
  have "rows_seen s (P \<union> emits e) b"
    using b(2) emits_in_range(1) [OF show_view.hyps(2)] by (fastforce simp: rows_seen_def)
  with b inv show ?case by blast
next
  case (queues s P n ds ts)
  then show ?case
    by (auto simp: gui_inv_def rows_seen_def tx_open_def split: option.splits)
next
  case (handle s P n m dir s' ts)
  then obtain b where b: "b \<le> n" "rows_seen s P b" and inv: "gui_inv s"
    by auto
  have "row_in_range s m"
    using b handle.hyps(2) handle.prems by (intro rows_seen_in_range [OF b(2)]) (auto simp: plain_def)
  with inv handle.hyps(3) proc_in_range_of_ok [OF handle.hyps(4)] have "safe s (update L dir s m)"
    by (intro update_safe)
  then have "gui_inv s'" and "rows_kept s s'"
    by (simp_all add: safe_def handle.hyps(4))
  with rows_seen_step [OF b(2)] b(1) show ?case
    by (meson Suc_le_mono le_trans)
qed

text \<open>
  C35: the window does not panic.  After fewer than \<open>2 ^ 64\<close> messages, in any order of views, user
  input and messages of the other tasks, while the receivers of both channels live and \<^verbatim>\<open>/proc\<close>
  can be read: the view can be drawn, every message that it offers is handled, and so is every
  message of another task and every message that any earlier view offered, apart from a click on a
  process of an earlier list.
\<close>

theorem gui_never_panics:
  assumes "gui_run L s P n" and "n < 2 ^ 64" and "readable dir"
  shows "(\<exists>e. view L V s = Inr e \<and> (\<forall>m \<in> emits e. is_ok (update L dir s m))) \<and>
    (\<forall>m. m \<in> P \<and> proc_of m = None \<or> plain m \<longrightarrow> is_ok (update L dir s m))"
proof -
  obtain b where b: "b < 2 ^ 64" "rows_seen s P b" and inv: "gui_inv s"
    using gui_run_inv [OF assms(1,2)] le_less_trans [OF _ assms(2)] by blast
  have ok: "is_ok (update L dir s m)" if "row_in_range s m" and "proc_in_range s m" for m
    using update_safe [OF inv assms(3) that, of L] by (auto simp: safe_def)
  obtain e where e: "view L V s = Inr e"
    using view_total [OF inv] by blast
  have "is_ok (update L dir s m)" if "m \<in> emits e" for m
    using emits_in_range [OF e that] by (intro ok) (auto simp: row_in_range_def)
  moreover have "is_ok (update L dir s m)" if "m \<in> P \<and> proc_of m = None \<or> plain m" for m
    using that rows_seen_in_range [OF b(2,1), of m] by (intro ok) (auto simp: plain_def proc_in_range_def)
  ultimately show ?thesis
    using e by blast
qed

definition toy_gui_lib :: "string gui_lib" where
  "toy_gui_lib = \<lparr>gl_widget_id = id, gl_window_id = id, gl_with_text = id, gl_perform = (\<lambda>_ c. c),
     gl_show_error = (\<lambda>e. case e of ZServiceUnknown m \<Rightarrow> m | ZMethodError n m \<Rightarrow> m | ZOther m \<Rightarrow> m),
     gl_regex_new = (\<lambda>_. None)\<rparr>"

definition toy_proc :: proc_dir where
  "toy_proc = Some [Some (''acpi'', None), Some (''7'', Some ''/bin/aa''), Some (''12'', Some ''/bin/ab'')]"

definition toy_gui :: "string gstate" where
  "toy_gui = gui_init toy_gui_lib Theme_Dark \<lparr>ch_open = True, ch_sent = []\<rparr> \<lparr>ch_open = True, ch_sent = []\<rparr>"

definition toy_gview_lib :: gview_lib where
  "toy_gview_lib = \<lparr>gv_getifaddrs = Some [''lo''], gv_fuzzy_sorted = (\<lambda>_ xs. xs), gv_fixed2 = (\<lambda>_ _. '''')\<rparr>"

lemma toy_proc_readable: "readable toy_proc"
  by (simp add: readable_def toy_proc_def)

lemma toy_gui_run: "gui_run toy_gui_lib toy_gui {} 0"
  unfolding toy_gui_def by (rule gui_run.start) simp_all

theorem gui_never_panics_witness:
  "gui_run toy_gui_lib toy_gui {} 0 \<and> readable toy_proc \<and>
   (\<exists>e. view toy_gui_lib toy_gview_lib toy_gui = Inr e \<and>
     (\<forall>m \<in> emits e. is_ok (update toy_gui_lib toy_proc toy_gui m))) \<and>
   is_ok (update toy_gui_lib toy_proc toy_gui (M_Matches [gmatch_default]))"
  using gui_never_panics [OF toy_gui_run _ toy_proc_readable, of toy_gview_lib]
  by (simp add: toy_gui_run toy_proc_readable plain_def row_of_def proc_of_def)

section \<open>Where the window goes wrong\<close>

text \<open>Two processes match what is typed, then one: the list of the second view is shorter.\<close>

definition toy_focused :: "string gstate" where
  "toy_focused = toy_gui\<lparr>g_proc_input_focus := True\<rparr>"

definition toy_two :: "string gstate" where
  "toy_two = toy_focused\<lparr>g_proc_input := ''a'', g_procs_all_max := 10,
     g_procs_all := Some [(''/bin/aa'', 1), (''/bin/ab'', 1)]\<rparr>"

definition toy_one :: "string gstate" where
  "toy_one = toy_two\<lparr>g_proc_input := ''aa'', g_procs_all := Some [(''/bin/aa'', 1)]\<rparr>"

lemmas toy_gui_defs = toy_gui_def toy_gui_lib_def gui_init_def toy_proc_def toy_focused_def toy_two_def toy_one_def
lemmas sweep_defs = on_procs_def refresh_procs_all_def procs_all_with_def current_match_def gmatch_matches_def
  gmatch_default_def KIND_DEFAULT_def KINDS_def METHOD_DEFAULT_def is_pid_name_def str_contains_def
  str_prefix_def after_slash_def fin_def upt_rec numeral_eq_Suc

lemma toy_types:
  "update toy_gui_lib toy_proc toy_gui M_MatchFocus = Inr (toy_focused, [])"
  "update toy_gui_lib toy_proc toy_focused (M_Procs ''a'') = Inr (toy_two, [])"
  "update toy_gui_lib toy_proc toy_two (M_Procs ''aa'') = Inr (toy_one, [])"
  "update toy_gui_lib toy_proc toy_one (M_MatchFromProc 0 1) = Inl Panic"
  by (simp_all add: toy_gui_defs sweep_defs Let_def if_gen_def on_match_from_proc_def idx_def)

lemma toy_two_offers:
  assumes "view toy_gui_lib toy_gview_lib toy_two = Inr e"
  shows "M_MatchFromProc 0 1 \<in> emits e"
  using assms
  by (auto simp: view_def view_search_def view_search_overlay_def search_overlay_show_def proc_buttons_def
      toy_gui_defs Let_def opt_set_def)

text \<open>
  A click on a process can reach the handler after another message has replaced the list,
  since typing does not change the generation; the handler then takes an entry that is not there
  and panics.
\<close>

theorem stale_process_panics:
  "\<exists>s P n. gui_run toy_gui_lib s P n \<and> n < 2 ^ 64 \<and> M_MatchFromProc 0 1 \<in> P \<and> readable toy_proc \<and>
    update toy_gui_lib toy_proc s (M_MatchFromProc 0 1) = Inl Panic"
proof -
  have plain: "plain M_MatchFocus" "plain (M_Procs t)" for t
    by (simp_all add: plain_simps)
  have "gui_run toy_gui_lib toy_focused {} (Suc 0)"
    using gui_run.handle [OF toy_gui_run _ toy_proc_readable toy_types(1)] plain by blast
  then have two: "gui_run toy_gui_lib toy_two {} (Suc (Suc 0))"
    using gui_run.handle [OF _ _ toy_proc_readable toy_types(2)] plain by blast
  obtain e where e: "view toy_gui_lib toy_gview_lib toy_two = Inr e"
    using view_total gui_run_inv [OF two] by fastforce
  have "gui_run toy_gui_lib toy_two ({} \<union> emits e) (Suc (Suc 0))"
    using two e by (rule gui_run.show_view)
  then have "gui_run toy_gui_lib toy_one ({} \<union> emits e) (Suc (Suc (Suc 0)))"
    using gui_run.handle [OF _ _ toy_proc_readable toy_types(3)] plain by blast
  then show ?thesis
    using toy_two_offers [OF e] toy_types(4) toy_proc_readable by fastforce
qed

text \<open>
  A refused change.  The comment of the handler announces a rollback; the output device and the
  edited rows do go back, but the settings stay as edited and are taken for the service's: they stay
  on the screen, and submitting them again sends nothing.
\<close>

theorem refused_settings_stay:
  "\<exists>s'. update L dir s (M_DbusErr err) = Inr (s', []) \<and>
    g_output_dev_input s' = at_to_ifname (g_attached s) \<and> g_matches_override s' = (\<lambda>_. None) \<and>
    g_settings s' = g_settings s \<and> g_settings_override s' = g_settings s \<and>
    update L dir s' M_SettingsSubmit = Inr (s', [])"
  by (auto simp: on_dbus_err_def on_modal_replace_def on_settings_submit_def Let_def)

end
