(* ===== verification/Service_Correct.thy ===== *)
theory Service_Correct
  imports Service Dns_Correct
begin

text \<open>
  What the D-Bus service promises: a call that fails leaves the state behind the channel
  and wakes nobody, a caller without authorization can only touch its own per-process
  matches, the dictionaries it hands out can be read back, and the list of process names
  is grouped by the match that selected them.
\<close>

section \<open>Calls as transactions\<close>

datatype svc_call =
    CallEnable | CallDisable | CallToggle
  | CallChangeOutput string
  | CallUpdateConfig hashmap
  | CallAddMatch hashmap
  | CallUpdateMatch hashmap hashmap
  | CallDeleteMatch hashmap

fun svc_step :: "bus \<times> libs \<Rightarrow> svc \<Rightarrow> header \<times> svc_call \<Rightarrow> svc \<times> unit result" where
  "svc_step (b, lib) s (h, CallEnable) = (svc_enable s, Inr ())"
| "svc_step (b, lib) s (h, CallDisable) = (svc_disable s, Inr ())"
| "svc_step (b, lib) s (h, CallToggle) = (svc_toggle s, Inr ())"
| "svc_step (b, lib) s (h, CallChangeOutput out) = change_output b h out s"
| "svc_step (b, lib) s (h, CallUpdateConfig new) = update_config b h new s"
| "svc_step (b, lib) s (h, CallAddMatch new) = add_match b lib h new s"
| "svc_step (b, lib) s (h, CallUpdateMatch f t) = update_match b lib h f t s"
| "svc_step (b, lib) s (h, CallDeleteMatch d) = delete_match b lib h d s"

definition svc_wf :: "bus \<times> libs \<Rightarrow> bool" where
  "svc_wf e \<longleftrightarrow> build_wf (snd e) \<and> bu_iface (fst e) = Inr ()"

definition svc_inv :: "svc \<Rightarrow> bool" where
  "svc_inv s \<longleftrightarrow> dns_count_ok (st_matches (sv_state s))"

text \<open>The operation on the list that a call asks for, when it is let through.\<close>

fun call_op :: "bus \<Rightarrow> header \<times> svc_call \<Rightarrow> matches_op option" where
  "call_op b (h, CallAddMatch new) =
    (case rbind (peer_uid b h) (match_from_hashmap new) of Inr m \<Rightarrow> Some (OpAdd m) | _ \<Rightarrow> None)"
| "call_op b (h, CallUpdateMatch f t) =
    (case (rbind (peer_uid b h) (match_from_hashmap f), rbind (peer_uid b h) (match_from_hashmap t)) of
       (Inr f, Inr t) \<Rightarrow> Some (OpReplace f t) | _ \<Rightarrow> None)"
| "call_op b (h, CallDeleteMatch d) =
    (case rbind (peer_uid b h) (match_from_hashmap d) of Inr m \<Rightarrow> Some (OpDel m) | _ \<Rightarrow> None)"
| "call_op b (h, _) = None"

fun op_needs_auth :: "u32 \<Rightarrow> matches_op \<Rightarrow> bool" where
  "op_needs_auth uid (OpAdd m) = needs_auth uid m"
| "op_needs_auth uid (OpReplace f t) = (needs_auth uid f \<or> needs_auth uid t)"
| "op_needs_auth uid (OpDel m) = needs_auth uid m"

text \<open>A call on the list either is refused or is the list operation on the stored list.\<close>

definition apply_op :: "bus \<Rightarrow> libs \<Rightarrow> matches_op \<Rightarrow> svc \<Rightarrow> svc \<times> unit result" where
  "apply_op b lib a s = try_modify_matches b (on_matches (\<lambda>ms. matches_step lib ms a)) s"

fun is_matches_call :: "svc_call \<Rightarrow> bool" where
  "is_matches_call (CallAddMatch _) = True"
| "is_matches_call (CallUpdateMatch _ _) = True"
| "is_matches_call (CallDeleteMatch _) = True"
| "is_matches_call _ = False"

text \<open>The guard of the three calls: the caller is root, asks for its own, or is authorized.\<close>

definition let_through :: "bus \<Rightarrow> header \<Rightarrow> matches_op \<Rightarrow> bool" where
  "let_through b h a \<longleftrightarrow>
    (\<exists>uid. peer_uid b h = Inr uid \<and> (uid \<noteq> 0 \<and> op_needs_auth uid a \<longrightarrow> auth_or_err b h = Inr ()))"

lemma guard_cases:
  obtains (refuses) e where "(if c then r else Inr ()) = Inl e"
  | (passes) "(if c then r else Inr ()) = Inr ()" "c \<longrightarrow> r = Inr ()"
  by (cases r; cases c) auto

lemma matches_call_step:
  assumes "is_matches_call c"
  shows "(\<exists>e. svc_step (b, lib) s (h, c) = (s, Inl e)) \<or>
    (\<exists>a. call_op b (h, c) = Some a \<and> let_through b h a \<and> svc_step (b, lib) s (h, c) = apply_op b lib a s)"
proof (cases "peer_uid b h")
  case (Inl e)
  with assms show ?thesis
    by (cases c) (simp_all add: add_match_def update_match_def delete_match_def)
next
  case (Inr uid)
  note u = Inr
  note defs = u add_match_def update_match_def delete_match_def let_through_def apply_op_def
  show ?thesis
  proof (cases c)
    case (CallAddMatch new)
    show ?thesis
    proof (cases "match_from_hashmap new uid")
      case (Inr m)
      then show ?thesis
        by (cases rule: guard_cases [of "uid \<noteq> 0 \<and> needs_auth uid m" "auth_or_err b h"])
          (simp_all add: CallAddMatch defs)
    qed (simp add: CallAddMatch defs)
  next
    case (CallDeleteMatch new)
    show ?thesis
    proof (cases "match_from_hashmap new uid")
      case (Inr m)
      then show ?thesis
        by (cases rule: guard_cases [of "uid \<noteq> 0 \<and> needs_auth uid m" "auth_or_err b h"])
          (simp_all add: CallDeleteMatch defs)
    qed (simp add: CallDeleteMatch defs)
  next
    case (CallUpdateMatch f t)
    show ?thesis
    proof (cases "rbind (match_from_hashmap f uid) (\<lambda>f. rbind (match_from_hashmap t uid) (\<lambda>t. Inr (f, t)))")
      case (Inl e)
      then show ?thesis
        by (cases "match_from_hashmap f uid"; cases "match_from_hashmap t uid") (simp_all add: CallUpdateMatch defs)
    next
      case (Inr ft)
      then obtain m n where "match_from_hashmap f uid = Inr m" "match_from_hashmap t uid = Inr n"
        by (auto simp: rbind_eq_Inr)
      then show ?thesis
        by (cases rule: guard_cases [of "uid \<noteq> 0 \<and> (needs_auth uid m \<or> needs_auth uid n)" "auth_or_err b h"])
          (simp_all add: CallUpdateMatch defs)
    qed
  qed (use assms in simp_all)
qed

lemma apply_op_cases:
  assumes wf: "svc_wf (b, lib)"
  obtains (fails) e where "apply_op b lib a s = (s, Inl e)" "e \<noteq> Panic"
  | (commits) ms s' where "matches_step lib (st_matches (sv_state s)) a = (ms, Inr ())"
      "apply_op b lib a s = (s', Inr ())"
      "sv_state s' = (sv_state s)\<lparr>st_matches := ms\<rparr>" "sv_wakes s' = sv_wakes s + 1"
      "sv_signals s' = sv_signals s @ [''matches_changed'']"
proof (cases "matches_step lib (st_matches (sv_state s)) a")
  case (Pair ms r)
  from wf have w: "build_wf lib" and iface: "bu_iface b = Inr ()" by (simp_all add: svc_wf_def)
  show thesis
  proof (cases r)
    case (Inl e)
    with Pair have ms: "ms = st_matches (sv_state s)" and "e \<noteq> Panic"
      using matches_step_fails [OF w] matches_step_error [OF w] by blast+
    then show thesis
      by (intro fails [of "to_inval e"])
        (simp_all add: apply_op_def try_modify_matches_def send_if_modified_def on_matches_def Pair Inl to_inval_def)
  next
    case (Inr u)
    with Pair iface show thesis
      by (intro commits [of ms "s\<lparr>sv_state := (sv_state s)\<lparr>st_matches := ms\<rparr>, sv_wakes := sv_wakes s + 1,
          sv_signals := sv_signals s @ [''matches_changed'']\<rparr>"])
        (simp_all add: apply_op_def try_modify_matches_def send_if_modified_def on_matches_def emit_def)
  qed
qed

lemma other_call_step:
  assumes wf: "bu_iface b = Inr ()" and "\<not> is_matches_call c"
  shows "(\<exists>e. svc_step (b, lib) s (h, c) = (s, Inl e)) \<or>
    (\<exists>s'. svc_step (b, lib) s (h, c) = (s', Inr ()) \<and> sv_wakes s' = sv_wakes s + 1 \<and>
      st_matches (sv_state s') = st_matches (sv_state s) \<and>
      (auth_or_err b h = Inr () \<or>
        (st_config (sv_state s') = st_config (sv_state s) \<and> st_to_dev (sv_state s') = st_to_dev (sv_state s))))"
  using assms
  by (cases c; cases "auth_or_err b h")
    (auto simp: svc_enable_def svc_disable_def svc_toggle_def send_modify_def change_output_def
      update_config_def emit_def split: sum.split)

interpretation stx: transactional svc_wf svc_step svc_inv sv_wakes
proof
  fix e s and c :: "header \<times> svc_call" and s' err
  assume wf: "svc_wf e"
  obtain b lib h k where ec: "e = (b, lib)" "c = (h, k)" by (metis surj_pair)
  have w: "build_wf lib" "bu_iface b = Inr ()" using wf by (simp_all add: ec svc_wf_def)
  have step: "(\<exists>err. svc_step e s c = (s, Inl err)) \<or>
    (\<exists>s'. svc_step e s c = (s', Inr ()) \<and> sv_wakes s' = sv_wakes s + 1 \<and> (svc_inv s \<longrightarrow> svc_inv s'))"
  proof (cases "is_matches_call k")
    case True
    from matches_call_step [OF this, of b lib s h] show ?thesis
    proof (elim disjE exE conjE)
      fix a
      assume run: "svc_step (b, lib) s (h, k) = apply_op b lib a s"
      show ?thesis
        using mtx.keeps [OF w(1), of "st_matches (sv_state s)" a]
        by (cases rule: apply_op_cases [OF wf [unfolded ec], of a s]) (auto simp: ec svc_inv_def run)
    qed (simp add: ec)
  next
    case False
    from other_call_step [OF w(2) this, of lib s h] show ?thesis by (auto simp: ec svc_inv_def)
  qed
  show "svc_step e s c = (s', Inl err) \<Longrightarrow> s' = s"
    and "svc_step e s c = (s', Inr ()) \<Longrightarrow> sv_wakes s' = sv_wakes s + 1"
    and "svc_inv s \<Longrightarrow> svc_step e s c = (s', Inr ()) \<Longrightarrow> svc_inv s'"
    using step by auto
qed

text \<open>The bus of the witnesses: the caller is user 1000 and polkit refuses.\<close>

definition ex_bus :: bus where
  "ex_bus = \<lparr>bu_dbus = Inr (), bu_authority = Inr (), bu_unix_user = (\<lambda>_. Inr 1000), bu_subject = (\<lambda>_. True),
     bu_check = (\<lambda>_. Inr False), bu_iface = Inr ()\<rparr>"

definition ex_header :: header where
  "ex_header = \<lparr>hd_sender = Some '':1.7'', hd_member = Some ''AddMatch''\<rparr>"

definition ex_svc :: svc where
  "ex_svc = \<lparr>sv_state = state_default\<lparr>st_matches := matches_default\<lparr>ms_matches := [ex_path]\<rparr>\<rparr>, sv_wakes = 0, sv_signals = [], sv_reloads = 0\<rparr>"

lemma ex_bus_wf: "svc_wf (ex_bus, all_libs)"
  by (simp add: svc_wf_def ex_bus_def all_libs_wf)

lemma ex_bus_auth: "peer_uid ex_bus ex_header = Inr 1000" "auth_or_err ex_bus ex_header \<noteq> Inr ()"
  by (simp_all add: peer_uid_def auth_or_err_def ex_bus_def ex_header_def)

text \<open>
  C27: a sequence of calls is as good as its successful part.  A call that fails leaves the
  state of the channel, the wake-ups of its readers and the signals; replaying only the
  calls that succeeded gives the same service, each of them wakes the readers once, and
  the counter of DNS matches stays right.
\<close>

theorem svc_run_committed:
  assumes "svc_wf e"
  shows "run_ops svc_step e s (committed svc_step e s calls) = run_ops svc_step e s calls
    \<and> sv_wakes (run_ops svc_step e s calls) = sv_wakes s + length (committed svc_step e s calls)
    \<and> (svc_inv s \<longrightarrow> svc_inv (run_ops svc_step e s calls))"
  using stx.run_committed [OF assms] stx.run_gen [OF assms] stx.run_inv [OF assms] by simp

theorem svc_run_committed_witness:
  "sv_wakes (run_ops svc_step (ex_bus, all_libs) ex_svc
     [(ex_header, CallToggle), (ex_header, CallChangeOutput ''wg0'')]) = 1"
proof -
  have "committed svc_step (ex_bus, all_libs) ex_svc
      [(ex_header, CallToggle), (ex_header, CallChangeOutput ''wg0'')] = [(ex_header, CallToggle)]"
    by (simp add: change_output_def auth_or_err_def ex_bus_def)
  with svc_run_committed [OF ex_bus_wf, of ex_svc "[(ex_header, CallToggle), (ex_header, CallChangeOutput ''wg0'')]"]
  show ?thesis by (simp add: ex_svc_def)
qed

section \<open>Authorization\<close>

text \<open>What a caller must not change without authorization.\<close>

definition foreign :: "u32 \<Rightarrow> svc \<Rightarrow> Match multiset \<times> Config \<times> string" where
  "foreign uid s = (filter_mset (needs_auth uid) (mset (ms_matches (st_matches (sv_state s)))),
     st_config (sv_state s), st_to_dev (sv_state s))"

lemma bag_step_foreign:
  assumes "M' \<in> bag_step M a" and "\<not> op_needs_auth uid a"
  shows "filter_mset (needs_auth uid) M' = filter_mset (needs_auth uid) M"
proof -
  have drop_own: "filter_mset (needs_auth uid) (M - {#x#}) = filter_mset (needs_auth uid) M"
    if "is_eq_to x m" "\<not> needs_auth uid m" for x m
    using that is_eq_to_is_per_process [of x m] by (simp add: needs_auth_def is_eq_to_def filter_mset_eq_conv)
  show ?thesis using assms drop_own by (cases a) auto
qed

lemma step_foreign:
  assumes wf: "svc_wf (b, lib)" and uid: "peer_uid b h = Inr uid" "uid \<noteq> 0" and no: "auth_or_err b h \<noteq> Inr ()"
  shows "foreign uid (fst (svc_step (b, lib) s (h, c))) = foreign uid s"
proof (cases "is_matches_call c")
  case True
  have w: "build_wf lib" using wf by (simp add: svc_wf_def)
  from matches_call_step [OF True, of b lib s h] show ?thesis
  proof (elim disjE exE conjE)
    fix a
    assume a: "let_through b h a" "svc_step (b, lib) s (h, c) = apply_op b lib a s"
    then have own: "\<not> op_needs_auth uid a" using uid no by (simp add: let_through_def)
    show ?thesis
      using bag_step_foreign [OF _ own] matches_step_bag [OF w, of "st_matches (sv_state s)" a]
      by (cases rule: apply_op_cases [OF wf, of a s]) (auto simp: a foreign_def)
  qed simp
next
  case False
  from wf have "bu_iface b = Inr ()" by (simp add: svc_wf_def)
  from other_call_step [OF this False, of lib s h] no show ?thesis by (auto simp: foreign_def)
qed



section \<open>Dictionaries\<close>

text \<open>
  C29: what the properties \<^verbatim>\<open>matches\<close> and \<^verbatim>\<open>config\<close> hand out can be sent back: in whatever
  order the dictionary is iterated, for every caller, reading it gives the match of the
  list it was made from, or the whole configuration.
\<close>

theorem dictionaries_read_back:
  assumes "i < length (svc_matches st)" and "mset h = mset (svc_matches st ! i)" and "mset g = mset (svc_config st)"
  shows "match_from_hashmap h uid = Inr (ms_matches (st_matches st) ! i) \<and> config_from_hashmap g c = Inr (st_config st)"
proof
  let ?m = "ms_matches (st_matches st) ! i"
  have h: "mset (match_to_hashmap ?m) = mset h" using assms(1,2) by (simp add: svc_matches_def)
  show "match_from_hashmap h uid = Inr ?m"
    using match_fields.from_iter_order [OF h match_to_hashmap_distinct] match_from_to_iter [of ?m uid]
    by (simp add: match_from_hashmap_def match_from_iter_def)
  have g: "mset (config_to_hashmap (st_config st)) = mset g" using assms(3) by (simp add: svc_config_def)
  show "config_from_hashmap g c = Inr (st_config st)"
    using config_fields.from_iter_order [OF g config_to_hashmap_distinct] config_from_to_iter [of "st_config st" c]
    by (simp add: config_from_hashmap_def config_from_iter_def)
qed

theorem dictionaries_read_back_witness:
  "match_from_hashmap (rev (svc_matches (sv_state ex_svc) ! 0)) 7 = Inr ex_path
    \<and> config_from_hashmap (rev (svc_config state_default)) config_default = Inr config_default"
  using dictionaries_read_back [of 0 "sv_state ex_svc" "rev (svc_matches (sv_state ex_svc) ! 0)" "rev (svc_config state_default)" 7]
  by (simp add: svc_matches_def svc_config_def ex_svc_def state_default_def)

section \<open>Process names\<close>

text \<open>The layout of the buffer: an identifier, a length, the bytes of a name.\<close>

definition bytes_wf :: "bytes_lib \<Rightarrow> bool" where
  "bytes_wf pb \<longleftrightarrow> (\<forall>a b c d. pb_u32 pb [a, b, c, d] = Some (from_ne_bytes a b c d)
     \<and> pb_i32 pb [a, b, c, d] = Some (from_ne_bytes a b c d))"

definition proc_bytes :: "u32 \<times> u8 list \<Rightarrow> u8 list" where
  "proc_bytes e = to_ne_bytes (fst e) @ to_ne_bytes (of_nat (length (snd e))) @ snd e"

definition proc_ok :: "u32 \<times> u8 list \<Rightarrow> bool" where
  "proc_ok e \<longleftrightarrow> 0 \<le> sint (fst e) \<and> length (snd e) < 2 ^ 32"

text \<open>The names of one match in the order of the buffer, and how many matches there are.\<close>

definition names_of :: "bytes_lib \<Rightarrow> (u32 \<times> u8 list) list \<Rightarrow> nat \<Rightarrow> string list" where
  "names_of pb es p = map (\<lambda>e. pb_lossy pb (snd e)) (filter (\<lambda>e. unat (fst e) = p) es)"

definition groups :: "(u32 \<times> u8 list) list \<Rightarrow> nat" where
  "groups es = foldl (\<lambda>n e. max n (Suc (unat (fst e)))) 0 es"

definition bucket :: "string list list \<Rightarrow> nat \<Rightarrow> string list" where
  "bucket h p = (if p < length h then h ! p else [])"

definition push_all :: "bytes_lib \<Rightarrow> string list list \<Rightarrow> (u32 \<times> u8 list) list \<Rightarrow> string list list" where
  "push_all pb h es = foldl (\<lambda>h e. push_name h (unat (fst e)) (pb_lossy pb (snd e))) h es"

lemma ne_bytes_parse:
  assumes "bytes_wf pb"
  shows "pb_u32 pb (to_ne_bytes w) = Some w" and "pb_i32 pb (to_ne_bytes w) = Some w"
proof -
  obtain a b c d where t: "to_ne_bytes w = [a, b, c, d]" by (simp add: to_ne_bytes_def)
  with from_to_ne_bytes [of w] have "from_ne_bytes a b c d = w" by simp
  with assms t show "pb_u32 pb (to_ne_bytes w) = Some w" and "pb_i32 pb (to_ne_bytes w) = Some w"
    by (simp_all add: bytes_wf_def)
qed

lemma slice_mid: "slice (xs @ ys @ zs) (length xs) (length xs + length ys) = Inr ys"
  by (simp add: slice_def)

lemma proc_entry_bytes:
  assumes wf: "bytes_wf pb" and "length (snd e) < 2 ^ 32"
  shows "proc_entry pb (proc_bytes e @ rest) =
    Inr (if sint (fst e) < 0 then None else Some (unat (fst e), pb_lossy pb (snd e), rest))"
proof -
  let ?l = "to_ne_bytes (of_nat (length (snd e)))"
  have c: "proc_bytes e @ rest = [] @ to_ne_bytes (fst e) @ ?l @ snd e @ rest" by (simp add: proc_bytes_def)
  have "slice (proc_bytes e @ rest) 0 4 = Inr (to_ne_bytes (fst e))"
    using slice_mid [of "[]" "to_ne_bytes (fst e)" "?l @ snd e @ rest"] by (simp add: c)
  moreover have "slice (proc_bytes e @ rest) 4 8 = Inr ?l"
    using slice_mid [of "to_ne_bytes (fst e)" ?l "snd e @ rest"] by (simp add: c)
  moreover have "slice (proc_bytes e @ rest) 8 (8 + length (snd e)) = Inr (snd e)"
    using slice_mid [of "to_ne_bytes (fst e) @ ?l" "snd e" rest] by (simp add: c)
  moreover have "drop (8 + length (snd e)) (proc_bytes e @ rest) = rest" by (simp add: c)
  ultimately show ?thesis
    using assms(2) by (simp add: proc_entry_def ne_bytes_parse [OF wf] unat_of_nat_u32)
qed

lemma proc_bytes_nonempty: "proc_bytes e \<noteq> []"
  by (simp add: proc_bytes_def to_ne_bytes_def)

lemma proc_loop_entries:
  assumes wf: "bytes_wf pb" and "\<forall>e \<in> set es. proc_ok e"
  shows "proc_loop pb (concat (map proc_bytes es) @ rest) h = proc_loop pb rest (push_all pb h es)"
  using assms(2)
proof (induction es arbitrary: h)
  case (Cons e es)
  let ?c = "proc_bytes e @ concat (map proc_bytes es) @ rest"
  have "proc_entry pb ?c = Inr (Some (unat (fst e), pb_lossy pb (snd e), concat (map proc_bytes es) @ rest))"
    using Cons.prems by (subst proc_entry_bytes [OF wf]) (simp_all add: proc_ok_def)
  then have "proc_loop pb ?c h = proc_loop pb (concat (map proc_bytes es) @ rest)
      (push_name h (unat (fst e)) (pb_lossy pb (snd e)))"
    by (subst proc_loop.simps) (simp add: proc_bytes_nonempty)
  with Cons.IH [of "push_name h (unat (fst e)) (pb_lossy pb (snd e))"] Cons.prems show ?case by (simp add: push_all_def)
qed (simp add: push_all_def)

lemma bucket_push_name: "bucket (push_name h i n) p = bucket h p @ (if p = i then [n] else [])"
  by (auto simp: push_name_def bucket_def Let_def nth_list_update nth_append)

lemma length_push_name: "length (push_name h i n) = max (length h) (Suc i)"
  by (simp add: push_name_def Let_def)

lemma bucket_push_all: "bucket (push_all pb h es) p = bucket h p @ names_of pb es p"
  by (induction es arbitrary: h) (simp_all add: push_all_def names_of_def bucket_push_name)

lemma length_push_all: "length (push_all pb h es) = foldl (\<lambda>n e. max n (Suc (unat (fst e)))) (length h) es"
  by (induction es arbitrary: h) (simp_all add: push_all_def length_push_name)

lemma proc_dicts_buckets: "proc_dicts h = concat (map (\<lambda>p. map (proc_dict p) (bucket h p)) [0..<length h])"
proof -
  have "map (\<lambda>(p, ns). map (proc_dict p) ns) (enumerate 0 h) = map (\<lambda>p. map (proc_dict p) (bucket h p)) [0..<length h]"
    by (rule nth_equalityI) (simp_all add: nth_enumerate_eq bucket_def)
  then show ?thesis by (simp add: proc_dicts_def)
qed

lemma proc_names_decoded:
  assumes "bytes_wf pb" and "SECOND < now - bc_matches_time lock" and "\<forall>e \<in> set es. proc_ok e"
  defines "ds \<equiv> concat (map (\<lambda>p. map (proc_dict p) (names_of pb es p)) [0..<groups es])"
  shows "get_proc_names pb now (Some (concat (map proc_bytes es))) lock =
    Some (lock\<lparr>bc_matches_time := now, bc_matches := ds\<rparr>, Inr ds)"
proof -
  have "proc_loop pb (concat (map proc_bytes es)) [] = Some (Inr (push_all pb [] es))"
    using proc_loop_entries [OF assms(1,3), of "[]" "[]"] by (simp add: proc_loop.simps [of pb "[]"])
  moreover have "proc_dicts (push_all pb [] es) = ds"
    by (simp add: proc_dicts_buckets length_push_all bucket_push_all ds_def groups_def)
      (simp add: bucket_def)
  ultimately show ?thesis using assms(2) by (simp add: get_proc_names_def Let_def)
qed

text \<open>
  Reading a buffer of processes returns, with no panic and no endless loop, the
  dictionaries grouped by match in the order of the matches, the names of one match in the
  order of the buffer; they are cached with the time of the read.
\<close>

theorem proc_names_grouped:
  assumes "bytes_wf pb" and "SECOND < now - bc_matches_time lock" and "\<forall>e \<in> set es. proc_ok e"
  defines "ds \<equiv> concat (map (\<lambda>p. map (proc_dict p) (names_of pb es p)) [0..<groups es])"
  shows "get_proc_names pb now (Some (concat (map proc_bytes es))) lock =
    Some (lock\<lparr>bc_matches_time := now, bc_matches := ds\<rparr>, Inr ds)"
  unfolding ds_def by (rule proc_names_decoded [OF assms(1-3)])

definition ex_bytes :: bytes_lib where
  "ex_bytes = \<lparr>pb_u32 = (\<lambda>bs. case bs of [a, b, c, d] \<Rightarrow> Some (from_ne_bytes a b c d) | _ \<Rightarrow> None),
     pb_i32 = (\<lambda>bs. case bs of [a, b, c, d] \<Rightarrow> Some (from_ne_bytes a b c d) | _ \<Rightarrow> None),
     pb_lossy = map (\<lambda>b. char_of (unat b))\<rparr>"

lemma ex_bytes_wf: "bytes_wf ex_bytes"
  by (simp add: bytes_wf_def ex_bytes_def)

definition ex_bpf_ctx :: BpfCtx where
  "ex_bpf_ctx = \<lparr>bc_mark = None, bc_matches_time = 0, bc_matches = [], bc_last_gen = 0, bc_arena = []\<rparr>"

theorem proc_names_grouped_witness:
  "map_option snd (get_proc_names ex_bytes (2 * SECOND)
     (Some (concat (map proc_bytes [(1, [98]), (0, [97]), (1, [99])]))) ex_bpf_ctx) =
   Some (Inr [proc_dict 0 ''a'', proc_dict 1 ''b'', proc_dict 1 ''c''])"
proof -
  let ?es = "[(1, [98]), (0, [97]), (1, [99])] :: (u32 \<times> u8 list) list"
  have t: "SECOND < 2 * SECOND - bc_matches_time ex_bpf_ctx" by (simp add: SECOND_def ex_bpf_ctx_def)
  have ok: "\<forall>e \<in> set ?es. proc_ok e" by (simp add: proc_ok_def)
  have "names_of ex_bytes ?es 0 = ''a''  # []" "names_of ex_bytes ?es 1 = [''b'', ''c'']" "groups ?es = 2"
    by (simp_all add: names_of_def groups_def ex_bytes_def char_of_def bit_0)
  with proc_names_grouped [OF ex_bytes_wf t ok] show ?thesis by (simp add: numeral_2_eq_2)
qed

text \<open>
  The loop over the buffer does not return once it meets a negative identifier: the
  \<^verbatim>\<open>continue\<close> leaves the slice where it is.
\<close>

lemma stuck_diverges: "proc_loop pb c h = Some r \<Longrightarrow> \<not> (c \<noteq> [] \<and> proc_entry pb c = Inr None)"
  by (erule proc_loop.raw_induct [rotated]) (force split: if_splits)

theorem negative_id_diverges:
  assumes "bytes_wf pb" and "\<forall>e \<in> set es. proc_ok e" and "sint (fst n) < 0" and "length (snd n) < 2 ^ 32"
  shows "proc_loop pb (concat (map proc_bytes es) @ proc_bytes n @ rest) h = None"
proof -
  have "proc_bytes n @ rest \<noteq> []" by (simp add: proc_bytes_nonempty)
  moreover have "proc_entry pb (proc_bytes n @ rest) = Inr None"
    using assms(3) by (simp add: proc_entry_bytes [OF assms(1,4)])
  ultimately have "proc_loop pb (proc_bytes n @ rest) (push_all pb h es) = None"
    using stuck_diverges [of pb "proc_bytes n @ rest"] by (cases "proc_loop pb (proc_bytes n @ rest) (push_all pb h es)") auto
  with proc_loop_entries [OF assms(1,2)] show ?thesis by simp
qed

theorem negative_id_diverges_witness:
  "proc_loop ex_bytes (concat (map proc_bytes [(1, [98])]) @ proc_bytes (- 1, [99])) [] = None"
  using negative_id_diverges [OF ex_bytes_wf, of "[(1, [98])]" "(- 1, [99])" "[]"] by (simp add: proc_ok_def)

section \<open>Retiring a record\<close>

lemma dns_record_dict_keys:
  assumes "dns_record_dict nm now c r = Inr d"
  shows "map_of d ''name'' = Some (nm_show nm (rec_name r))" and "map_of d ''destination'' = None"
  using assms by (auto simp: dns_record_dict_def rbind_eq_Inr split: option.splits prod.splits)

text \<open>
  Sending the dictionary of a record back to \<^verbatim>\<open>retire_dns_record\<close> succeeds and removes
  every record of that name, whatever its address: the dictionary names the address
  \<^verbatim>\<open>address\<close>, the call looks for \<^verbatim>\<open>destination\<close>.  No record of another name is removed.
\<close>

theorem retire_by_name:
  assumes "r \<in> set (dn_heap dns)" and "dns_record_dict nm now (dn_cache dns) r = Inr d"
    and "nm_parse nm (nm_show nm (rec_name r)) = Inr n" and "nm_key nm (nm_fqdn nm n) = nm_key nm (rec_name r)"
  shows "\<exists>dns' log'. retire_dns_record k nm table d dns log = (dns', log', Inr ())
    \<and> dn_heap dns' = filter (\<lambda>x. nm_key nm (rec_name x) \<noteq> nm_key nm (rec_name r)) (dn_heap dns)"
proof -
  let ?sel = "record_selected nm (Some (nm_fqdn nm n)) None"
  have sel: "?sel x \<longleftrightarrow> nm_key nm (rec_name x) = nm_key nm (rec_name r)" for x
    using assms(4) by (simp add: record_selected_def)
  obtain log' hash where "retain_records k nm table (Some (nm_fqdn nm n)) None (dn_heap dns) (dn_hash dns) log =
      (filter (\<lambda>x. \<not> ?sel x) (dn_heap dns), hash, (\<exists>x \<in> set (dn_heap dns). ?sel x), log')"
    using retain_records_eq by blast
  with assms(1,3) show ?thesis
    by (auto simp: retire_dns_record_def dns_record_dict_keys [OF assms(2)] remove_records_def sel)
qed

theorem retire_by_name_witness:
  "\<exists>dns' log'. retire_dns_record silent_kernel ex_names 7
      [(''ttl'', show_nat 0), (''name'', ''a.org''), (''address'', show_ipv4 (rec_dest ex_rec))]
      (dns_initial\<lparr>dn_heap := [ex_rec, ex_rec\<lparr>rec_dest := Ipv4 5 6 7 8\<rparr>]\<rparr>) [] = (dns', log', Inr ())
    \<and> dn_heap dns' = []"
proof -
  let ?dns = "dns_initial\<lparr>dn_heap := [ex_rec, ex_rec\<lparr>rec_dest := Ipv4 5 6 7 8\<rparr>]\<rparr>"
  have "dns_record_dict ex_names 9 (dn_cache ?dns) ex_rec =
      Inr [(''ttl'', show_nat 0), (''name'', ''a.org''), (''address'', show_ipv4 (rec_dest ex_rec))]"
    by (simp add: dns_record_dict_def dns_cache_get_def dns_initial_def ex_names_def ex_rec_def del: show_ipv4.simps)
  from retire_by_name [OF _ this, of "''a.org''" silent_kernel 7 "[]"] show ?thesis
    by (simp add: ex_names_def ex_rec_def del: show_ipv4.simps)
qed

end
