(* ===== verification/Gui_Backend_Correct.thy ===== *)
theory Gui_Backend_Correct
  imports Gui_Backend Gui_Correct Service_Correct
begin

text \<open>
  The window, its D-Bus client and the daemon together: what the window shows and sends back is
  what the daemon holds, no task of the client ends the program, and the client polls the daemon
  while the window is open.
\<close>

section \<open>Window messages\<close>

text \<open>Whether the window is open after these messages; \<open>None\<close> where it is opened or closed twice.\<close>

fun replay :: "bool \<Rightarrow> D list \<Rightarrow> bool option" where
  "replay w [] = Some w"
| "replay w (D_WindowOpened # ds) = (if w then None else replay True ds)"
| "replay w (D_WindowClosed # ds) = (if w then replay False ds else None)"
| "replay w (_ # ds) = replay w ds"

lemma replay_append: "replay w (xs @ ys) = Option.bind (replay w xs) (\<lambda>w. replay w ys)"
  by (induction w xs rule: replay.induct) auto

definition window_open :: "'c gstate \<Rightarrow> bool" where
  "window_open s \<longleftrightarrow> g_window s \<noteq> None"

text \<open>What a handler adds to the channel takes the window from its old to its new state.\<close>

definition win_step :: "'c gstate \<Rightarrow> 'c gstate \<Rightarrow> bool" where
  "win_step s s' \<longleftrightarrow> (\<exists>ds. g_d_tx s' = map_option (ch_sent_update (\<lambda>q. q @ ds)) (g_d_tx s) \<and>
     replay (window_open s) ds = Some (window_open s'))"

definition quiet :: "'c gstate \<Rightarrow> 'c gstate \<Rightarrow> bool" where
  "quiet s s' \<longleftrightarrow> g_d_tx s' = g_d_tx s \<and> g_window s' = g_window s"

lemma quiet_win_step: "quiet s s' \<Longrightarrow> win_step s s'"
  unfolding win_step_def quiet_def window_open_def
  by (intro exI [of _ "[]"]) (simp add: option.map_ident_strong)

lemma win_step_trans:
  assumes "win_step s t" and "win_step t u"
  shows "win_step s u"
proof -
  obtain ds es where "g_d_tx t = map_option (ch_sent_update (\<lambda>q. q @ ds)) (g_d_tx s)"
    "replay (window_open s) ds = Some (window_open t)"
    "g_d_tx u = map_option (ch_sent_update (\<lambda>q. q @ es)) (g_d_tx t)"
    "replay (window_open t) es = Some (window_open u)"
    using assms by (auto simp: win_step_def)
  then show ?thesis
    unfolding win_step_def by (intro exI [of _ "ds @ es"]) (simp add: replay_append option.map_comp comp_def)
qed

lemma send_d_win_step:
  assumes "send_d s d = Inr s'" and "replay (window_open s) [d] = Some (window_open t)"
    and "g_d_tx t = g_d_tx s'"
  shows "win_step s t"
  using assms unfolding win_step_def
  by (intro exI [of _ "[d]"]) (auto simp: send_d_def unbounded_send_def tx_send_def rbind_eq_Inr split: if_splits)

lemma send_d_window: "send_d s d = Inr s' \<Longrightarrow> g_window s' = g_window s"
  by (auto simp: send_d_def rbind_eq_Inr)

lemma send_plain: "send_d s d = Inr s' \<Longrightarrow> d \<noteq> D_WindowOpened \<Longrightarrow> d \<noteq> D_WindowClosed \<Longrightarrow> win_step s s'"
  using send_d_window [of s d s'] by (cases d) (auto intro!: send_d_win_step simp: window_open_def)

definition win_ok :: "'c gstate \<Rightarrow> 'c upd \<Rightarrow> bool" where
  "win_ok s r \<longleftrightarrow> (\<forall>s' ts. r = Inr (s', ts) \<longrightarrow> win_step s s')"

text \<open>A sub-operation whose new state is one step away, followed by the rest of the handler.\<close>

lemma win_ok_bind:
  "(\<And>t. r = Inr t \<Longrightarrow> win_step s t) \<Longrightarrow> (\<And>t. win_ok t (f t)) \<Longrightarrow> win_ok s (rbind r f)"
  unfolding win_ok_def rbind_eq_Inr by (blast intro: win_step_trans)

lemma win_ok_read: "(\<And>x. win_ok s (f x)) \<Longrightarrow> win_ok s (rbind r f)"
  by (auto simp: win_ok_def rbind_eq_Inr)

lemma win_ok_Inr: "quiet s t \<Longrightarrow> win_ok s (Inr (t, ts))"
  by (simp add: win_ok_def quiet_win_step)

lemma win_ok_Inl [simp]: "win_ok s (Inl e)"
  by (simp add: win_ok_def)

lemma win_ok_from: "win_ok t r \<Longrightarrow> quiet s t \<Longrightarrow> win_ok s r"
  unfolding win_ok_def by (blast intro: win_step_trans quiet_win_step)

lemma win_step_send_t: "send_t s t = Inr s' \<Longrightarrow> win_step s s'"
  by (rule quiet_win_step) (auto simp: send_t_def rbind_eq_Inr quiet_def)

lemma win_step_refresh: "refresh_procs_all L dir s = Inr s' \<Longrightarrow> win_step s s'"
  by (rule quiet_win_step) (auto simp: refresh_procs_all_def Let_def rbind_eq_Inr quiet_def)

lemma win_step_override: "override_entry s i f = Inr s' \<Longrightarrow> win_step s s'"
  by (rule quiet_win_step) (auto simp: override_entry_def rbind_eq_Inr quiet_def)

lemmas win_steps = send_plain win_step_send_t win_step_refresh win_step_override

lemma win_ok_fin: "(\<And>t. r = Inr t \<Longrightarrow> win_step s t) \<Longrightarrow> win_ok s (fin r)"
  unfolding fin_def by (rule win_ok_bind) (simp_all add: win_ok_Inr quiet_def)

lemma win_ok_settings: "quiet s t \<Longrightarrow> win_ok s (on_settings_submit t)"
  by (rule win_ok_from [of t]) (auto simp: on_settings_submit_def quiet_def intro!: win_ok_fin win_ok_Inr elim!: win_steps)

lemma win_ok_output:
  assumes "quiet s t"
  shows "win_ok s (on_output_dev_submit t)"
proof (rule win_ok_from [OF _ assms], unfold on_output_dev_submit_def Let_def, rule win_ok_bind)
  fix u
  let ?t = "t\<lparr>g_output_dev_input_focus := False, g_output_dev_popup_focus := False\<rparr>"
  assume u: "(if \<not> g_output_dev_input_sent ?t \<and> g_output_dev_input ?t \<noteq> at_to_ifname (g_attached ?t)
       then send_d (?t\<lparr>g_output_dev_input_sent := True\<rparr>) (D_ChangeOutput (g_output_dev_input ?t)) else Inr ?t) = Inr u"
  have "quiet t ?t" and "quiet t (?t\<lparr>g_output_dev_input_sent := True\<rparr>)"
    by (simp_all add: quiet_def)
  with u show "win_step t u"
    by (auto split: if_splits dest!: send_plain intro: quiet_win_step win_step_trans)
qed (simp add: win_ok_Inr quiet_def)

lemma win_ok_submit: "win_ok s (on_match_submit s i)"
proof (unfold on_match_submit_def Let_def, rule win_ok_bind)
  fix u
  let ?t = "s\<lparr>g_matches_override := (g_matches_override s)(i := None)\<rparr>"
  assume u: "(case g_matches_override s i of None \<Rightarrow> Inr ?t
     | Some m \<Rightarrow> rbind (idx (g_matches ?t) i) (\<lambda>mi. if m \<noteq> fst mi then send_d ?t (D_MatchUpdate (fst mi) m) else Inr ?t)) = Inr u"
  have "quiet s ?t"
    by (simp add: quiet_def)
  with u show "win_step s u"
    by (auto simp: rbind_eq_Inr split: option.splits if_splits dest!: send_plain
        intro: quiet_win_step win_step_trans)
qed (auto intro!: win_ok_read win_ok_Inr simp: quiet_def)

lemma win_ok_close: "g_window s = Some w \<Longrightarrow> win_ok s (on_window_close s w)"
  by (auto simp: win_ok_def on_window_close_def rbind_eq_Inr window_open_def intro!: send_d_win_step)

lemma win_ok_open: "g_window s = None \<Longrightarrow> win_ok s (on_window_open L s)"
  by (auto simp: win_ok_def on_window_open_def rbind_eq_Inr window_open_def Let_def intro!: send_d_win_step)

lemma win_ok_match_add: "win_ok s (on_match_add s)"
  unfolding on_match_add_def by (rule win_ok_bind) (auto simp: quiet_def intro!: win_ok_Inr elim: win_steps)

lemma win_ok_match_delete: "win_ok s (on_match_delete s i)"
  unfolding on_match_delete_def by (intro win_ok_read win_ok_fin) (erule win_steps; simp)

lemma win_ok_override_submit: "win_ok s (rbind (override_entry s i f) (\<lambda>s. on_match_submit s i))"
  by (rule win_ok_bind) (auto intro: win_steps win_ok_submit)

lemma win_ok_from_proc: "win_ok s (on_match_from_proc L dir s i)"
  unfolding on_match_from_proc_def
  by (rule win_ok_read, rule win_ok_read, rule win_ok_from, rule win_ok_bind, erule win_step_refresh)
    (auto intro!: win_ok_Inr simp: quiet_def)

lemma win_ok_procs: "win_ok s (on_procs L dir s n)"
  unfolding on_procs_def Let_def
  by (auto split: if_splits simp: quiet_def intro!: win_ok_Inr win_ok_from [OF win_ok_fin] elim: win_steps)

lemma win_ok_attached: "win_ok s (on_attached s n)"
  unfolding on_attached_def Let_def
  by (rule win_ok_from [OF win_ok_fin], erule win_steps) (simp add: quiet_def)

lemma win_ok_cant_connect: "quiet s t \<Longrightarrow> win_ok s (on_dbus_cant_connect t err)"
  unfolding on_dbus_cant_connect_def Let_def
  by (rule win_ok_from [OF win_ok_fin], erule win_steps) (simp add: quiet_def)

lemma modal_fields [simp]:
  "g_d_tx (on_modal_replace L s) = g_d_tx s" "g_window (on_modal_replace L s) = g_window s"
  "g_d_tx (on_modal_next L s) = g_d_tx s" "g_window (on_modal_next L s) = g_window s"
  "g_d_tx (on_dbus_err L s err) = g_d_tx s" "g_window (on_dbus_err L s err) = g_window s"
  "g_d_tx (on_esc L s) = g_d_tx s" "g_window (on_esc L s) = g_window s"
  by (simp_all add: on_modal_replace_def on_modal_next_def on_dbus_err_def on_esc_def Let_def)

lemma win_ok_if_gen: "win_ok s r \<Longrightarrow> win_ok s (if_gen s g r)"
  by (simp add: if_gen_def win_ok_Inr quiet_def)

lemma win_ok_match_dir: "win_ok s (on_match_dir s)"
  by (simp add: on_match_dir_def win_ok_Inr quiet_def)

lemmas win_ok_intros = win_ok_settings win_ok_output win_ok_submit win_ok_close win_ok_open win_ok_match_add
  win_ok_match_delete win_ok_override_submit win_ok_from_proc win_ok_procs win_ok_attached win_ok_cant_connect
  win_ok_if_gen win_ok_match_dir win_ok_fin [OF send_plain] win_ok_fin [OF win_step_override] win_ok_Inr

lemma update_win_step:
  assumes "update L dir s m = Inr (s', ts)"
  shows "win_step s s'"
proof -
  have "win_ok s (update L dir s m)"
    by (cases m) (auto simp: win_ok_intros on_matches_msg_def on_kind_def on_output_dev_set_def Let_def quiet_def
        split: option.split)
  with assms show ?thesis
    by (simp add: win_ok_def)
qed

section \<open>The window and its client\<close>

text \<open>
  The window and the harness over time.  \<open>k\<close> counts the requests \<^verbatim>\<open>WindowClosed\<close> that were dropped
  while they waited for the permit of a poll.
\<close>

inductive sys_run :: "'c gui_lib \<Rightarrow> 'c gstate \<Rightarrow> backend \<Rightarrow> nat \<Rightarrow> bool" for L where
  start: "ch_sent d_tx = [] \<Longrightarrow> sys_run L (gui_init L theme d_tx t_tx) backend_init 0"
| gui: "sys_run L s be k \<Longrightarrow> update L dir s m = Inr (s', ts) \<Longrightarrow> sys_run L s' be k"
| menu: "sys_run L s be k \<Longrightarrow> d = D_Enable \<or> d = D_Disable \<Longrightarrow> send_d s d = Inr s' \<Longrightarrow> sys_run L s' be k"
| recv: "sys_run L s be k \<Longrightarrow> \<not> be_waiting be \<Longrightarrow> g_d_tx s = Some ch \<Longrightarrow> ch_sent ch = d # ds \<Longrightarrow>
    sys_run L (s\<lparr>g_d_tx := Some (ch\<lparr>ch_sent := ds\<rparr>)\<rparr>) (process_requests_sema d be) k"
| forget: "sys_run L s be k \<Longrightarrow> be_waiting be \<Longrightarrow> 0 < be_permits be \<Longrightarrow> sys_run L s (forget_permit be) k"
| poll: "sys_run L s be k \<Longrightarrow> be_connected be \<Longrightarrow> \<not> be_guard be \<Longrightarrow> 0 < be_permits be \<Longrightarrow>
    sys_run L s (take_guard be) k"
| polled: "sys_run L s be k \<Longrightarrow> be_guard be \<Longrightarrow> sys_run L s (drop_guard be) k"
| check: "sys_run L s be k \<Longrightarrow> \<not> be_connected be \<Longrightarrow> \<not> be_waiting be \<Longrightarrow>
    harness_check res be m_tx = Inr (be', m_tx') \<Longrightarrow> sys_run L s be' k"
| leave: "sys_run L s be k \<Longrightarrow> be_connected be \<Longrightarrow> harness_leave ended be m_tx = Inr (be', m_tx') \<Longrightarrow>
    sys_run L s be' (k + of_bool (be_waiting be))"

text \<open>
  The permits are those of the window, as far as the harness has heard of it, and those of
  requests that wait or were lost.
\<close>

definition permits_inv :: "bool \<Rightarrow> backend \<Rightarrow> nat \<Rightarrow> bool" where
  "permits_inv w be k \<longleftrightarrow> be_permits be + of_bool (be_guard be) = of_bool w + of_bool (be_waiting be) + k"

definition sys_inv :: "'c gstate \<Rightarrow> backend \<Rightarrow> nat \<Rightarrow> bool" where
  "sys_inv s be k \<longleftrightarrow> (\<exists>ch w. g_d_tx s = Some ch \<and> replay w (ch_sent ch) = Some (window_open s) \<and> permits_inv w be k)"

lemma sys_inv_win_step:
  assumes "sys_inv s be k" and "win_step s s'"
  shows "sys_inv s' be k"
proof -
  obtain ch w ds where "g_d_tx s = Some ch" "replay w (ch_sent ch) = Some (window_open s)" "permits_inv w be k"
    "g_d_tx s' = map_option (ch_sent_update (\<lambda>q. q @ ds)) (g_d_tx s)"
    "replay (window_open s) ds = Some (window_open s')"
    using assms by (auto simp: sys_inv_def win_step_def)
  then show ?thesis
    unfolding sys_inv_def
    by (intro exI [of _ "ch_sent_update (\<lambda>q. q @ ds) ch"] exI [of _ w]) (simp add: replay_append)
qed

lemma permits_recv:
  assumes "permits_inv w be k" and "\<not> be_waiting be" and "replay w (d # ds) = Some w'"
  shows "\<exists>v. replay v ds = Some w' \<and> permits_inv v (process_requests_sema d be) k"
proof (cases d)
  case D_WindowOpened
  with assms show ?thesis
    by (intro exI [of _ True]) (simp add: permits_inv_def process_requests_sema_def split: if_splits)
next
  case D_WindowClosed
  with assms show ?thesis
    by (intro exI [of _ False]) (simp add: permits_inv_def process_requests_sema_def split: if_splits)
qed (use assms in \<open>auto simp: process_requests_sema_def intro!: exI [of _ w]\<close>)

lemma permits_harness:
  "harness_check res be m_tx = Inr (be', m_tx') \<Longrightarrow> permits_inv w be k \<Longrightarrow> permits_inv w be' k"
  "harness_leave ended be m_tx = Inr (be', m_tx') \<Longrightarrow> permits_inv w be k \<Longrightarrow>
    permits_inv w be' (k + of_bool (be_waiting be))"
  by (auto simp: harness_check_def harness_leave_def drop_guard_def permits_inv_def rbind_eq_Inr Let_def
      split: sum.splits if_splits option.splits)

lemma permits_moves:
  "permits_inv w be k \<Longrightarrow> be_waiting be \<Longrightarrow> 0 < be_permits be \<Longrightarrow> permits_inv w (forget_permit be) k"
  "permits_inv w be k \<Longrightarrow> \<not> be_guard be \<Longrightarrow> 0 < be_permits be \<Longrightarrow> permits_inv w (take_guard be) k"
  "permits_inv w be k \<Longrightarrow> permits_inv w (drop_guard be) k"
  by (auto simp: permits_inv_def forget_permit_def take_guard_def drop_guard_def)

lemma sys_run_inv: "sys_run L s be k \<Longrightarrow> sys_inv s be k"
proof (induction rule: sys_run.induct)
  case (start d_tx theme t_tx)
  then show ?case
    unfolding sys_inv_def
    by (intro exI [of _ d_tx] exI [of _ False])
      (simp add: gui_init_def backend_init_def permits_inv_def window_open_def)
next
  case (gui s be k dir m s' ts)
  then show ?case
    using update_win_step sys_inv_win_step by blast
next
  case (menu s be k d s')
  then show ?case
    using send_plain sys_inv_win_step by blast
next
  case (recv s be k ch d ds)
  then show ?case
    using permits_recv [of _ be k d ds "window_open s"] by (auto simp: sys_inv_def window_open_def)
next
  case (leave s be k ended m_tx be' m_tx')
  then show ?case
    using permits_harness(2) unfolding sys_inv_def by blast
next
  case (check s be k res m_tx be' m_tx')
  then show ?case
    using permits_harness(1) unfolding sys_inv_def by blast
qed (unfold sys_inv_def, (blast intro: permits_moves)+)

text \<open>
  C36: the client polls the daemon exactly while the window is open.  In any interleaving of the
  window, the tray menu and the tasks of the client in which no request was dropped while waiting,
  once the client has worked off the window's messages there is one permit if the window is open and
  none otherwise, free or held by the poll; and a closing request that waits finds a permit.
\<close>

theorem polling_follows_window:
  assumes "sys_run L s be 0"
  shows "(be_waiting be \<longrightarrow> 0 < be_permits be + of_bool (be_guard be)) \<and>
    (\<not> be_waiting be \<and> map_option ch_sent (g_d_tx s) = Some [] \<longrightarrow>
      be_permits be + of_bool (be_guard be) = of_bool (window_open s))"
  using sys_run_inv [OF assms] by (auto simp: sys_inv_def permits_inv_def)

definition toy_opened :: "string gstate" where
  "toy_opened = toy_gui\<lparr>g_window := Some 0, g_windows := 1\<rparr>"

definition toy_polling :: backend where
  "toy_polling = backend_init\<lparr>be_connected := True, be_guard := True\<rparr>"

lemma toy_sys_opened: "sys_run toy_gui_lib toy_opened toy_polling 0"
proof -
  have "sys_run toy_gui_lib toy_gui backend_init 0"
    unfolding toy_gui_def by (rule sys_run.start) simp
  then have "sys_run toy_gui_lib (toy_opened\<lparr>g_d_tx := Some \<lparr>ch_open = True, ch_sent = [D_WindowOpened]\<rparr>\<rparr>) backend_init 0"
    by (rule sys_run.gui [where dir = toy_proc and m = M_WindowOpen])
      (simp add: toy_opened_def toy_gui_defs on_window_open_def send_d_def unbounded_send_def tx_send_def Let_def)
  then have "sys_run toy_gui_lib toy_opened (backend_init\<lparr>be_permits := 1\<rparr>) 0"
    using sys_run.recv [of toy_gui_lib "toy_opened\<lparr>g_d_tx := Some \<lparr>ch_open = True, ch_sent = [D_WindowOpened]\<rparr>\<rparr>"
        backend_init 0 "\<lparr>ch_open = True, ch_sent = [D_WindowOpened]\<rparr>" D_WindowOpened "[]"]
    by (simp add: backend_init_def process_requests_sema_def toy_opened_def toy_gui_def gui_init_def)
  then have "sys_run toy_gui_lib toy_opened (backend_init\<lparr>be_permits := 1, be_connected := True\<rparr>) 0"
    by (rule sys_run.check [where res = "Inr []" and m_tx = "\<lparr>ch_open = True, ch_sent = []\<rparr>"])
      (simp_all add: backend_init_def harness_check_def tx_send_def)
  then have "sys_run toy_gui_lib toy_opened (take_guard (backend_init\<lparr>be_permits := 1, be_connected := True\<rparr>)) 0"
    by (rule sys_run.poll) (simp_all add: backend_init_def)
  then show ?thesis
    by (simp add: take_guard_def toy_polling_def backend_init_def)
qed

theorem polling_follows_window_witness:
  "sys_run toy_gui_lib toy_opened toy_polling 0 \<and> \<not> be_waiting toy_polling \<and>
   be_permits toy_polling + of_bool (be_guard toy_polling) = of_bool (window_open toy_opened)"
  using polling_follows_window [OF toy_sys_opened] toy_sys_opened
  by (simp add: toy_polling_def backend_init_def toy_opened_def toy_gui_defs)

text \<open>
  A close that is lost.  If the service changes its owner while \<^verbatim>\<open>WindowClosed\<close> waits for the
  poll to release its permit, the request is dropped with its task: the window is closed, its
  messages are worked off, and the permit stays, so that the client goes on polling.
\<close>

theorem lost_close_keeps_polling:
  "\<exists>s be. sys_run toy_gui_lib s be 1 \<and> \<not> window_open s \<and> map_option ch_sent (g_d_tx s) = Some [] \<and>
    \<not> be_waiting be \<and> be_permits be = 1"
proof -
  let ?closed = "toy_opened\<lparr>g_window := None\<rparr>"
  have "sys_run toy_gui_lib (?closed\<lparr>g_d_tx := Some \<lparr>ch_open = True, ch_sent = [D_WindowClosed]\<rparr>\<rparr>) toy_polling 0"
    by (rule sys_run.gui [OF toy_sys_opened, where dir = toy_proc and m = M_WindowToggle and ts = "[T_exit]"])
      (simp add: toy_opened_def toy_gui_defs on_window_close_def send_d_def unbounded_send_def tx_send_def)
  then have "sys_run toy_gui_lib ?closed (toy_polling\<lparr>be_waiting := True\<rparr>) 0"
    using sys_run.recv [of toy_gui_lib "?closed\<lparr>g_d_tx := Some \<lparr>ch_open = True, ch_sent = [D_WindowClosed]\<rparr>\<rparr>"
        toy_polling 0 "\<lparr>ch_open = True, ch_sent = [D_WindowClosed]\<rparr>" D_WindowClosed "[]"]
    by (simp add: toy_polling_def backend_init_def process_requests_sema_def toy_opened_def toy_gui_def gui_init_def)
  then have "sys_run toy_gui_lib ?closed (backend_init\<lparr>be_permits := 1\<rparr>)
      (0 + of_bool (be_waiting (toy_polling\<lparr>be_waiting := True\<rparr>)))"
    by (rule sys_run.leave [where ended = None and m_tx = "\<lparr>ch_open = True, ch_sent = []\<rparr>"])
      (simp_all add: harness_leave_def drop_guard_def toy_polling_def backend_init_def)
  then have "sys_run toy_gui_lib ?closed (backend_init\<lparr>be_permits := 1\<rparr>) 1"
    by simp
  then show ?thesis
    by (intro exI conjI, assumption)
      (simp_all add: window_open_def toy_opened_def toy_gui_def gui_init_def backend_init_def)
qed

section \<open>The tasks of the client\<close>

definition task_fails :: "task \<Rightarrow> bool" where
  "task_fails r \<longleftrightarrow> (\<exists>m_tx err. r = Inr (m_tx, Inl err) \<and> ch_open m_tx)"

text \<open>A task that leaves the channel open, whatever its result.\<close>

definition task_open :: "task \<Rightarrow> bool" where
  "task_open r \<longleftrightarrow> (\<exists>m_tx res. r = Inr (m_tx, res) \<and> ch_open m_tx)"

lemma and_then_fails: "task_open r \<Longrightarrow> (\<And>m_tx. ch_open m_tx \<Longrightarrow> task_fails (f m_tx)) \<Longrightarrow> task_fails (and_then r f)"
  by (auto simp: task_open_def task_fails_def and_then_def split: sum.split)

lemma and_then_open: "task_open r \<Longrightarrow> (\<And>m_tx. ch_open m_tx \<Longrightarrow> task_open (f m_tx)) \<Longrightarrow> task_open (and_then r f)"
  by (auto simp: task_open_def and_then_def split: sum.split)

lemma read_open:
  "ch_open m_tx \<Longrightarrow> task_open (read_attached px m_tx)"
  "ch_open m_tx \<Longrightarrow> task_open (read_matches px m_tx)"
  "ch_open m_tx \<Longrightarrow> task_open (read_config px m_tx)"
  "ch_open m_tx \<Longrightarrow> task_open (Inr (m_tx, res))"
  by (auto simp: task_open_def read_attached_def read_matches_def read_config_def tx_send_def split: sum.split)

lemma read_changed_open: "ch_open m_tx \<Longrightarrow> task_open (read_changed ks m_tx)"
  by (induction ks m_tx rule: read_changed.induct) (auto intro!: and_then_open read_open)

lemma props_loop_fails: "ch_open m_tx \<Longrightarrow> task_fails (props_loop ns m_tx)"
proof (induction ns arbitrary: m_tx)
  case (Cons n ns)
  then show ?case
    by (cases n) (simp add: task_fails_def, simp add: and_then_fails read_changed_open)
qed (simp add: task_fails_def)

text \<open>
  The reader of the properties never ends the harness with a success: whatever the service
  answers and signals, it returns an error and leaves the channel to the window open, so that
  \<^verbatim>\<open>unwrap_err\<close> does not panic; the harness then reports the failure and can start again.
\<close>

theorem listen_props_fails:
  assumes "ch_open m_tx"
  shows "\<exists>m_tx' err. listen_props px subscribe signals m_tx = Inr (m_tx', Inl err) \<and>
    (\<exists>be'. harness_leave (Some (Inl err)) be m_tx' =
      Inr (be', m_tx'\<lparr>ch_sent := ch_sent m_tx' @ [M_DbusFail err]\<rparr>) \<and> \<not> be_connected be')"
proof -
  have "task_fails (listen_props px subscribe signals m_tx)"
    unfolding listen_props_def using assms by (intro and_then_fails read_open props_loop_fails)
  then show ?thesis
    by (fastforce simp: task_fails_def harness_leave_def tx_send_def Let_def)
qed

theorem listen_props_fails_witness:
  "ch_open \<lparr>ch_open = True, ch_sent = []\<rparr> \<and>
   (\<exists>m_tx'. listen_props \<lparr>px_attached = Inr [], px_matches = Inr [], px_config = Inl (ZOther ''gone'')\<rparr> (Inr ()) []
      \<lparr>ch_open = True, ch_sent = []\<rparr> = Inr (m_tx', Inl (ZOther ''gone'')) \<and>
      ch_sent m_tx' = [M_Attached attached_default, M_Matches []])"
  using listen_props_fails [of "\<lparr>ch_open = True, ch_sent = []\<rparr>"
      "\<lparr>px_attached = Inr [], px_matches = Inr [], px_config = Inl (ZOther ''gone'')\<rparr>" "Inr ()" "[]" backend_init]
  by (auto simp: listen_props_def and_then_def read_attached_def read_matches_def read_config_def tx_send_def
      attached_from_hashmap_def attached_from_iter_def)

section \<open>Window and daemon\<close>

text \<open>The row of the window that is read from a match of the daemon.\<close>

definition shown_match :: "Match \<Rightarrow> GMatch" where
  "shown_match m = \<lparr>gm_pattern = m_pattern m, gm_kind = kind_display (m_kind m), gm_method = method_display (m_method m),
     gm_direction = direction_display (m_direction m), gm_user = '''', gm_uid = show_u32 (m_uid m)\<rparr>"

lemma gmatch_of_match:
  assumes "mset h = mset (match_to_hashmap m)"
  shows "gmatch_from_hashmap h = shown_match m"
proof -
  have "gmatch_from_hashmap (match_to_hashmap m) = shown_match m"
    by (simp add: gmatch_from_hashmap_def gmatch_from_iter_def match_to_hashmap_def norm_key_def
        dash_to_underscore_def gmatch_default_def shown_match_def)
  moreover have "distinct (map fst (map norm_key (match_to_hashmap m)))"
    by (simp add: match_to_hashmap_def norm_key_def dash_to_underscore_def)
  ultimately show ?thesis
    using gmatch_order [of "match_to_hashmap m" h] assms by simp
qed

lemma display_nonempty: "kind_display k \<noteq> ''''" "method_display n \<noteq> ''''" "direction_display d \<noteq> ''''" "show_u32 u \<noteq> ''''"
proof -
  show "kind_display k \<noteq> ''''" by (cases k) simp_all
  show "method_display n \<noteq> ''''" by (cases n) simp_all
  show "direction_display d \<noteq> ''''" by (cases d) simp_all
  show "show_u32 u \<noteq> ''''" by (simp add: show_u32_def)
qed

lemma match_of_gmatch: "gmatch_to_hashmap (shown_match m) = match_to_hashmap m"
  by (simp add: gmatch_to_hashmap_def shown_match_def match_to_hashmap_def field_unless_empty_def display_nonempty)

text \<open>What the settings of the window change of a configuration.\<close>

definition with_settings :: "Settings \<Rightarrow> ipv4 \<Rightarrow> Config \<Rightarrow> Config" where
  "with_settings S ip c = c\<lparr>c_allow_lan := gs_allow_lan S, c_spoof_dns := gs_spoof_dns S, c_spoof_dns_ipv4 := ip,
     c_drop_egress_without_output := gs_drop_egress_without_output S\<rparr>"

lemma config_of_settings:
  assumes "parse_ipv4 (gs_spoof_dns_ipv4 S) = Some ip" and "mset h = mset (settings_into_hashmap S)"
  shows "config_from_hashmap h c = Inr (with_settings S ip c)"
proof -
  have "rfoldl config_set_field c (settings_into_hashmap S) = Inr (with_settings S ip c)"
    using assms(1) by (simp add: settings_into_hashmap_def with_settings_def)
  moreover have "distinct (map fst (settings_into_hashmap S))"
    by (simp add: settings_into_hashmap_def)
  ultimately show ?thesis
    using config_fields.from_iter_order [of "settings_into_hashmap S" h] assms(2)
    by (simp add: config_from_hashmap_def config_from_iter_def)
qed

lemma match_of_shown:
  assumes "mset h = mset (match_to_hashmap m)" and "mset d = mset (gmatch_to_hashmap (gmatch_from_hashmap h))"
  shows "match_from_hashmap d uid = Inr m"
  using match_fields.from_iter_order [of "match_to_hashmap m" d, OF _ match_to_hashmap_distinct]
    match_from_to_iter [of m uid] assms(2)
  by (simp add: gmatch_of_match [OF assms(1)] match_of_gmatch match_from_hashmap_def match_from_iter_def)

text \<open>
  C34: an edit reaches what the user saw.  A row that the window read from the daemon, in whatever
  order the dictionaries are iterated on the way, names the very match it was read from when an
  authorized user deletes it; the settings, whose address parses, change their four fields of the
  configuration and keep the others.
\<close>

theorem edits_reach_daemon:
  assumes "peer_uid b hdr = Inr uid" and "auth_or_err b hdr = Inr ()"
    and "i < length (svc_matches (sv_state sv))" and "mset h = mset (svc_matches (sv_state sv) ! i)"
    and "request_of (D_MatchDelete (gmatch_from_hashmap h)) = Some (R_delete_match d)" and "mset d' = mset d"
    and "request_of (D_SettingsUpdate S) = Some (R_update_config c)" and "mset c' = mset c"
    and "parse_ipv4 (gs_spoof_dns_ipv4 S) = Some ip"
  shows "serve b lib hdr (R_delete_match d') sv =
      try_modify_matches b (on_matches (\<lambda>ms. matches_del lib ms (ms_matches (st_matches (sv_state sv)) ! i))) sv \<and>
    serve b lib hdr (R_update_config c') sv =
      emit b ''config_changed'' (send_modify (\<lambda>st. st\<lparr>st_config := with_settings S ip (st_config (sv_state sv))\<rparr>) sv)"
proof
  have "match_from_hashmap d' uid = Inr (ms_matches (st_matches (sv_state sv)) ! i)"
    using assms(3-6) by (intro match_of_shown [of h]) (auto simp: svc_matches_def)
  then show "serve b lib hdr (R_delete_match d') sv =
      try_modify_matches b (on_matches (\<lambda>ms. matches_del lib ms (ms_matches (st_matches (sv_state sv)) ! i))) sv"
    using assms(1,2) by (simp add: delete_match_def)
  have "config_from_hashmap c' (st_config (sv_state sv)) = Inr (with_settings S ip (st_config (sv_state sv)))"
    using assms(7-9) by (intro config_of_settings) auto
  then show "serve b lib hdr (R_update_config c') sv =
      emit b ''config_changed'' (send_modify (\<lambda>st. st\<lparr>st_config := with_settings S ip (st_config (sv_state sv))\<rparr>) sv)"
    using assms(2) by (simp add: update_config_def)
qed

definition root_bus :: bus where
  "root_bus = ex_bus\<lparr>bu_unix_user := (\<lambda>_. Inr 0), bu_check := (\<lambda>_. Inr True)\<rparr>"

theorem edits_reach_daemon_witness:
  "peer_uid root_bus ex_header = Inr 0 \<and> auth_or_err root_bus ex_header = Inr () \<and>
   parse_ipv4 ''9.9.9.9'' = Some (Ipv4 9 9 9 9) \<and>
   serve root_bus all_libs ex_header (R_delete_match (rev (match_to_hashmap ex_path))) ex_svc =
     try_modify_matches root_bus (on_matches (\<lambda>ms. matches_del all_libs ms ex_path)) ex_svc \<and>
   serve root_bus all_libs ex_header
       (R_update_config (settings_into_hashmap (settings_default\<lparr>gs_spoof_dns_ipv4 := ''9.9.9.9''\<rparr>))) ex_svc =
     emit root_bus ''config_changed'' (send_modify (\<lambda>st. st\<lparr>st_config :=
       with_settings (settings_default\<lparr>gs_spoof_dns_ipv4 := ''9.9.9.9''\<rparr>) (Ipv4 9 9 9 9) (st_config (sv_state ex_svc))\<rparr>) ex_svc)"
proof -
  have bus: "peer_uid root_bus ex_header = Inr 0" "auth_or_err root_bus ex_header = Inr ()"
    by (simp_all add: root_bus_def ex_bus_def ex_header_def peer_uid_def auth_or_err_def)
  have ip: "parse_ipv4 ''9.9.9.9'' = Some (Ipv4 9 9 9 9)"
    by code_simp
  have row: "svc_matches (sv_state ex_svc) = [match_to_hashmap ex_path]" "ms_matches (st_matches (sv_state ex_svc)) = [ex_path]"
    by (simp_all add: svc_matches_def ex_svc_def)
  show ?thesis
    using edits_reach_daemon [OF bus, of 0 ex_svc "match_to_hashmap ex_path" "match_to_hashmap ex_path"
        "rev (match_to_hashmap ex_path)" "settings_default\<lparr>gs_spoof_dns_ipv4 := ''9.9.9.9''\<rparr>" _ _ "Ipv4 9 9 9 9" all_libs]
    by (simp add: bus ip row gmatch_of_match match_of_gmatch)
qed

section \<open>The state shown\<close>

lemma attached_of_dict:
  assumes "mset h = mset (svc_attached show_v6 st attached blocker routes)"
  shows "at_enabled (attached_from_hashmap h) = st_enable st \<and> at_attached (attached_from_hashmap h) = attached \<and>
    at_blocker (attached_from_hashmap h) = blocker \<and>
    at_to_ifname (attached_from_hashmap h) = (case routes of None \<Rightarrow> st_to_dev st | Some r \<Rightarrow> r_ifname r)"
proof -
  have "distinct (map fst (map norm_key (svc_attached show_v6 st attached blocker routes)))"
    by (auto simp: svc_attached_def fmt_dev_def norm_key_def dash_to_underscore_def split: option.split list.split)
  then have "attached_from_hashmap h = attached_from_hashmap (svc_attached show_v6 st attached blocker routes)"
    using assms by (intro attached_order) simp_all
  then show ?thesis
    by (auto simp: attached_from_hashmap_def attached_from_iter_def svc_attached_def fmt_dev_def norm_key_def
        dash_to_underscore_def attached_default_def split: option.split list.split)
qed

text \<open>
  C38: what the window and the tray show of the daemon.  The dictionary of the property
  \<^verbatim>\<open>attached\<close>, in any order, gives the tray a state and the status line a text that follow the
  daemon's switch, its attachment and its blocker; the interface is that of the route, or the
  configured one.
\<close>

theorem state_shown:
  assumes "mset h = mset (svc_attached show_v6 st attached blocker routes)"
    and "g_t_tx s = Some ch" and "ch_open ch" and "g_dbus_conn_err s = None"
  shows "\<exists>s'. update L dir s (M_Attached (attached_from_hashmap h)) = Inr (s', []) \<and>
    map_option ch_sent (g_t_tx s') = Some (ch_sent ch @
      [\<lparr>ts_state = (if \<not> attached \<or> blocker \<noteq> '''' then Tray_NotConnected else if st_enable st then Tray_Enabled else Tray_Disabled),
        ts_theme = g_tray_theme s, ts_blocker = blocker,
        ts_output_dev = (case routes of None \<Rightarrow> st_to_dev st | Some r \<Rightarrow> r_ifname r)\<rparr>]) \<and>
    status_line L s' =
      (if blocker \<noteq> '''' then (blocker, True) else if \<not> attached then (''Not connected'', True)
       else (if st_enable st then ''Status: Enabled'' else ''Status: Disabled'', False))"
  using attached_of_dict [OF assms(1)] assms(2-)
  by (auto simp: on_attached_def send_t_def unbounded_send_def tx_send_def fin_def tray_of_def status_line_def Let_def
      cong: option.case_cong)

theorem state_shown_witness:
  "\<exists>s'. update toy_gui_lib toy_proc toy_gui (M_Attached (attached_from_hashmap
      (rev (svc_attached (\<lambda>_. '''') (state_default\<lparr>st_enable := True, st_to_dev := ''wg0''\<rparr>) True '''' None)))) = Inr (s', []) \<and>
    status_line toy_gui_lib s' = (''Status: Enabled'', False)"
  using state_shown [of "rev (svc_attached (\<lambda>_. '''') (state_default\<lparr>st_enable := True, st_to_dev := ''wg0''\<rparr>) True '''' None)"
      "\<lambda>_. ''''" "state_default\<lparr>st_enable := True, st_to_dev := ''wg0''\<rparr>" True "''''" None toy_gui
      "\<lparr>ch_open = True, ch_sent = []\<rparr>" toy_gui_lib toy_proc]
  by (auto simp: toy_gui_def gui_init_def)

end
