(* ===== verification/System.thy ===== *)
theory System
  imports First_Match Gui_Backend_Correct
begin

text \<open>
  The parts of the program together: the calls of the service on the channels of the tasks, and the way
  from the button of the window to the mark of a socket.
\<close>

section \<open>The service on the channels\<close>

text \<open>
  \<^verbatim>\<open>Item\<close> holds the context that the tasks share: the channel of the state and \<^verbatim>\<open>do_reload\<close>.  The signals that
  it emits are not part of what the tasks see.
\<close>

definition svc_of :: "tasks \<Rightarrow> svc" where
  "svc_of s = \<lparr>sv_state = w_value (ch_state (tk_ch s)), sv_wakes = w_version (ch_state (tk_ch s)), sv_signals = [],
     sv_reloads = w_version (ch_do_reload (tk_ch s))\<rparr>"

definition put_svc :: "svc \<Rightarrow> tasks \<Rightarrow> tasks" where
  "put_svc sv s = s\<lparr>tk_ch := (tk_ch s)\<lparr>ch_state := \<lparr>w_value = sv_state sv, w_version = sv_wakes sv\<rparr>,
     ch_do_reload := \<lparr>w_value = (), w_version = sv_reloads sv\<rparr>\<rparr>\<rparr>"

definition service_call :: "bus \<Rightarrow> libs \<Rightarrow> header \<times> svc_call \<Rightarrow> tasks \<Rightarrow> tasks \<times> unit result" where
  "service_call b lib hc s = (case svc_step (b, lib) (svc_of s) hc of (sv, r) \<Rightarrow> (put_svc sv s, r))"

text \<open>Calls of any caller, and whatever else happens.\<close>

datatype system_event = Sy_call header svc_call | Sy_task task_event

fun system_step :: "env \<Rightarrow> bus \<Rightarrow> system_event \<Rightarrow> tasks \<Rightarrow> tasks option" where
  "system_step v b (Sy_call h c) s = Some (fst (service_call b (ev_libs v) (h, c) s))"
| "system_step v b (Sy_task e) s = task_step v e s"

fun system_run :: "env \<Rightarrow> bus \<Rightarrow> system_event list \<Rightarrow> tasks \<Rightarrow> tasks option" where
  "system_run v b [] s = Some s"
| "system_run v b (e # es) s = Option.bind (system_step v b e s) (system_run v b es)"

text \<open>The hooks of the events are those of one set of tasks.\<close>

fun sys_hooks_in :: "(TaskId \<Rightarrow> task_struct) \<Rightarrow> system_event \<Rightarrow> bool" where
  "sys_hooks_in procs (Sy_task e) = hooks_in procs e"
| "sys_hooks_in procs (Sy_call h c) = True"

section \<open>A call is an event of the tasks, or nothing\<close>

lemma put_svc_of [simp]: "put_svc (svc_of s) s = s"
  by (simp add: put_svc_def svc_of_def)

lemma send_modify_event:
  assumes "f (w_value (ch_state (tk_ch s))) =
    (w_value (ch_state (tk_ch s)))\<lparr>st_enable := enable, st_to_dev := to_dev, st_config := config\<rparr>"
  shows "task_step v (Tk_settings enable to_dev config) s = Some (put_svc (send_modify f (svc_of s)) s)"
  using assms by (simp add: put_svc_def svc_of_def send_modify_def watch_send_def Let_def)

lemma emit_ok: "bu_iface b = Inr () \<Longrightarrow> emit b n sv = (sv\<lparr>sv_signals := sv_signals sv @ [n]\<rparr>, Inr ())"
  by (simp add: emit_def)

lemma put_svc_signals [simp]: "put_svc (sv\<lparr>sv_signals := x\<rparr>) s = put_svc sv s"
  by (simp add: put_svc_def)

text \<open>The settings that a call asks for, where it is not about the list.\<close>

lemma other_call_event:
  assumes iface: "bu_iface b = Inr ()" and other: "\<not> is_matches_call c" and call: "service_call b lib (h, c) s = (t, r)"
  shows "(t = s \<and> r \<noteq> Inr ()) \<or> r = Inr () \<and> (\<exists>enable to_dev config. task_step v (Tk_settings enable to_dev config) s = Some t)"
proof -
  let ?st = "w_value (ch_state (tk_ch s))"
  have modify: "\<exists>enable to_dev config. task_step v (Tk_settings enable to_dev config) s = Some (put_svc (send_modify f (svc_of s)) s)"
    if "f ?st = ?st\<lparr>st_enable := enable, st_to_dev := to_dev, st_config := config\<rparr>" for f enable to_dev config
    by (intro exI) (rule send_modify_event [where f = f], rule that)
  have eta: "?st\<lparr>st_enable := x\<rparr> = ?st\<lparr>st_enable := x, st_to_dev := st_to_dev ?st, st_config := st_config ?st\<rparr>"
    "?st\<lparr>st_to_dev := y\<rparr> = ?st\<lparr>st_enable := st_enable ?st, st_to_dev := y, st_config := st_config ?st\<rparr>"
    "?st\<lparr>st_config := z\<rparr> = ?st\<lparr>st_enable := st_enable ?st, st_to_dev := st_to_dev ?st, st_config := z\<rparr>" for x y z
    by simp_all
  show ?thesis
  proof (cases c)
    case CallEnable
    with call modify [where f = "\<lambda>st. st\<lparr>st_enable := True\<rparr>", OF eta(1)] show ?thesis
      by (auto simp: service_call_def svc_enable_def)
  next
    case CallDisable
    with call modify [where f = "\<lambda>st. st\<lparr>st_enable := False\<rparr>", OF eta(1)] show ?thesis
      by (auto simp: service_call_def svc_disable_def)
  next
    case CallToggle
    with call modify [where f = "\<lambda>st. st\<lparr>st_enable := \<not> st_enable st\<rparr>", OF eta(1)] show ?thesis
      by (auto simp: service_call_def svc_toggle_def)
  next
    case (CallChangeOutput out)
    with call modify [where f = "\<lambda>st. st\<lparr>st_to_dev := out\<rparr>", OF eta(2)] show ?thesis
      by (auto simp: service_call_def change_output_def split: sum.splits)
  next
    case (CallUpdateConfig new)
    show ?thesis
    proof (cases "rbind (auth_or_err b h) (\<lambda>_. map_err to_inval (config_from_hashmap new (st_config (sv_state (svc_of s)))))")
      case (Inr z)
      with CallUpdateConfig call modify [where f = "\<lambda>st. st\<lparr>st_config := z\<rparr>", OF eta(3)] show ?thesis
        by (auto simp: service_call_def update_config_def emit_ok [OF iface])
    qed (use CallUpdateConfig call in \<open>auto simp: service_call_def update_config_def\<close>)
  qed (use other in auto)
qed

lemma matches_call_event:
  assumes wf: "svc_wf (b, ev_libs v)" and list: "is_matches_call c" and call: "service_call b (ev_libs v) (h, c) s = (t, r)"
  shows "(t = s \<and> r \<noteq> Inr ()) \<or> r = Inr () \<and> (\<exists>a. call_op b (h, c) = Some a \<and> task_step v (Tk_matches a) s = Some t)"
  using matches_call_step [OF list, of b "ev_libs v" "svc_of s" h]
proof (elim disjE exE conjE)
  fix e assume "svc_step (b, ev_libs v) (svc_of s) (h, c) = (svc_of s, Inl e)"
  with call show ?thesis by (auto simp: service_call_def)
next
  fix a assume a: "call_op b (h, c) = Some a" "svc_step (b, ev_libs v) (svc_of s) (h, c) = apply_op b (ev_libs v) a (svc_of s)"
  show ?thesis
  proof (cases rule: apply_op_cases [OF wf, of a "svc_of s"])
    case (1 e)
    with call a(2) show ?thesis by (auto simp: service_call_def)
  next
    case (2 ms sv)
    moreover have "sv_reloads sv = sv_reloads (svc_of s)"
      using 2(2) by (auto simp: apply_op_def try_modify_matches_def send_if_modified_def emit_def split: prod.splits sum.splits)
    ultimately show ?thesis
      using call a by (auto simp: service_call_def put_svc_def svc_of_def watch_send_def Let_def)
  qed
qed

lemma call_event:
  assumes wf: "svc_wf (b, ev_libs v)" and call: "service_call b (ev_libs v) (h, c) s = (t, r)"
  shows "(t = s \<and> r \<noteq> Inr ()) \<or> r = Inr () \<and> (\<exists>e. task_step v e s = Some t \<and> hooks_in procs e)"
proof (cases "is_matches_call c")
  case True
  with matches_call_event [OF wf True call] show ?thesis by (metis hooks_in.simps(2))
next
  case False
  from wf have "bu_iface b = Inr ()" by (simp add: svc_wf_def)
  from other_call_event [OF this False call, of v] show ?thesis by (metis hooks_in.simps(3))
qed

lemma system_run_append: "system_run v b (es @ fs) s = Option.bind (system_run v b es s) (system_run v b fs)"
  by (induction es arbitrary: s) (simp_all split: Option.bind_split)

lemma system_run_tasks [simp]: "system_run v b (map Sy_task es) = task_run v es"
proof
  show "system_run v b (map Sy_task es) s = task_run v es s" for s
    by (induction es arbitrary: s) (simp_all split: Option.bind_split)
qed

lemma system_events:
  assumes wf: "svc_wf (b, ev_libs v)" and run: "system_run v b es s = Some t" and procs: "list_all (sys_hooks_in procs) es"
  shows "\<exists>es'. task_run v es' s = Some t \<and> length es' \<le> length es \<and> list_all (hooks_in procs) es'"
  using run procs
proof (induction es arbitrary: s)
  case Nil
  then show ?case by (intro exI [of _ "[]"]) simp
next
  case (Cons e es)
  obtain u where u: "system_step v b e s = Some u" "system_run v b es u = Some t"
    using Cons.prems(1) by (auto simp: bind_eq_Some_conv)
  obtain es' where es': "task_run v es' u = Some t" "length es' \<le> length es" "list_all (hooks_in procs) es'"
    using Cons.IH [OF u(2)] Cons.prems(2) by auto
  have "u = s \<or> (\<exists>e'. task_step v e' s = Some u \<and> hooks_in procs e')"
  proof (cases e)
    case (Sy_call h c)
    obtain x r where "service_call b (ev_libs v) (h, c) s = (x, r)" by fastforce
    with call_event [OF wf this, of procs] u(1) Sy_call show ?thesis by auto
  next
    case (Sy_task e')
    with u(1) Cons.prems(2) show ?thesis by auto
  qed
  then show ?case
  proof (elim disjE exE conjE)
    assume "u = s"
    with es' show ?thesis by (intro exI [of _ es']) simp
  next
    fix e' assume "task_step v e' s = Some u" "hooks_in procs e'"
    with es' show ?thesis by (intro exI [of _ "e' # es'"]) simp
  qed
qed

section \<open>What additions change\<close>

lemma add_call_list:
  assumes wf: "svc_wf (b, lib)" and uid: "peer_uid b h = Inr uid" "uid \<noteq> 0" and no: "auth_or_err b h \<noteq> Inr ()"
  shows "\<exists>own. (\<forall>m \<in> set own. m_uid m = uid) \<and>
    ms_matches (st_matches (sv_state (fst (svc_step (b, lib) s (h, CallAddMatch new))))) = ms_matches (st_matches (sv_state s)) @ own"
proof -
  have w: "build_wf lib" using wf by (simp add: svc_wf_def)
  have list: "is_matches_call (CallAddMatch new)" by simp
  from matches_call_step [OF list, of b lib s h] show ?thesis
  proof (elim disjE exE conjE)
    fix a
    assume a: "call_op b (h, CallAddMatch new) = Some a" "let_through b h a" "svc_step (b, lib) s (h, CallAddMatch new) = apply_op b lib a s"
    then obtain m where m: "a = OpAdd m" by (auto split: sum.splits)
    have own: "m_uid m = uid" using a(2) uid no by (auto simp: let_through_def m needs_auth_def)
    show ?thesis
    proof (cases rule: apply_op_cases [OF wf, of a s])
      case (1 e)
      then show ?thesis by (intro exI [of _ "[]"]) (simp only: a(3), simp)
    next
      case (2 ms s')
      with matches_add_ok [OF w, of "st_matches (sv_state s)" m ms "Inr ()"] own show ?thesis
        by (intro exI [of _ "[m]"]) (simp only: a(3), simp add: m)
    qed
  qed simp
qed

lemma add_calls_list:
  assumes wf: "svc_wf (b, lib)" and "uid \<noteq> 0"
    and "\<And>h c. (h, c) \<in> set calls \<Longrightarrow> (\<exists>new. c = CallAddMatch new) \<and> peer_uid b h = Inr uid \<and> auth_or_err b h \<noteq> Inr ()"
  obtains own where "\<forall>m \<in> set own. m_uid m = uid"
    "ms_matches (st_matches (sv_state (run_ops svc_step (b, lib) s calls))) = ms_matches (st_matches (sv_state s)) @ own"
proof -
  have "\<exists>own. (\<forall>m \<in> set own. m_uid m = uid) \<and>
      ms_matches (st_matches (sv_state (run_ops svc_step (b, lib) s calls))) = ms_matches (st_matches (sv_state s)) @ own"
    using assms(3)
  proof (induction calls arbitrary: s)
    case (Cons hc calls)
    obtain h new where hc: "hc = (h, CallAddMatch new)" "peer_uid b h = Inr uid" "auth_or_err b h \<noteq> Inr ()"
      using Cons.prems [of "fst hc" "snd hc"] by (cases hc) auto
    obtain x where x: "\<forall>m \<in> set x. m_uid m = uid"
      "ms_matches (st_matches (sv_state (fst (svc_step (b, lib) s hc)))) = ms_matches (st_matches (sv_state s)) @ x"
      using add_call_list [OF wf hc(2) assms(2) hc(3), of s new] hc(1) by blast
    obtain y where "\<forall>m \<in> set y. m_uid m = uid" "ms_matches (st_matches (sv_state (run_ops svc_step (b, lib) (fst (svc_step (b, lib) s hc)) calls))) =
        ms_matches (st_matches (sv_state (fst (svc_step (b, lib) s hc)))) @ y"
      using Cons.IH [of "fst (svc_step (b, lib) s hc)"] Cons.prems by (metis list.set_intros(2))
    with x show ?case by (intro exI [of _ "x @ y"]) (auto simp: run_ops_def)
  qed (simp add: run_ops_def)
  with that show thesis by blast
qed

lemma find_append: "List.find P (xs @ ys) = (case List.find P xs of None \<Rightarrow> List.find P ys | Some x \<Rightarrow> Some x)"
  by (induction xs) auto

lemma direction_appended:
  assumes "ms_matches ms' = ms_matches ms @ own" and "\<forall>m \<in> set own. m_uid m = uid" and "uid \<noteq> 0"
    and "u \<noteq> uid \<or> first_match rx lib ms path \<noteq> None"
  shows "direction_for rx lib ms' u path = direction_for rx lib ms u path"
proof -
  have "\<not> uid_applies u m" if "List.find P own = Some m" "u \<noteq> uid" for P m
    using that assms(2,3) by (auto simp: uid_applies_def find_Some_iff)
  with assms(1,4) show ?thesis
    by (auto simp: direction_for_def first_match_def find_append split: option.split)
qed

section \<open>A user that adds a match\<close>

lemma ex_sys_wf: "svc_wf (ex_bus, ev_libs ex_env)"
  by (simp add: svc_wf_def ex_bus_def ex_env_def two_libs_wf)

text \<open>User 1000 adds a match for the executable that the first match already names for user 7.\<close>

definition ex_own :: Match where
  "ex_own = ex_path\<lparr>m_uid := 1000\<rparr>"

definition ex_before :: svc where
  "ex_before = \<lparr>sv_state = uid_match 7, sv_wakes = 0, sv_signals = [], sv_reloads = 0\<rparr>"

lemma two_builds:
  assumes "path_loop_set two_libs 0 (ms_matches ms) ([], []) = (pat # pats, 0 # pim)" and "ms_matches ms \<noteq> []"
  obtains arena dfa where "build_path_dfa two_libs ms [] = Inr (arena, dfa)" "length arena \<le> ARENA_SIZE"
proof -
  have "extract_dfa two_libs (pat # pats) = dfa_extract (two_dense [0] [0]) True"
    by (simp add: extract_dfa_def build_dfa_def two_libs_def)
  then obtain arena dfa where "encode_dfa two_libs (pat # pats) [] (0 # pim) ms = Inr (arena, dfa)" "length arena \<le> ARENA_SIZE"
    using two_extract [of "[0]" "[0]"] assms(2)
    by (auto elim!: encode_dfa_ok [of two_libs "pat # pats" _ "0 # pim" ms "two_dense [0] [0]"]
        simp: two_libs_align ARENA_SIZE_def pat_ok_def)
  then show thesis by (intro that) (auto simp: build_path_dfa_def assms(1))
qed

lemma ex_patterns:
  "path_loop_set two_libs 0 [ex_path\<lparr>m_uid := 7\<rparr>, ex_own] ([], []) = ([''^/b$'', ''^/b$''], [0, 1])"
  by (simp add: ex_own_def ex_path_def match_default_def path_regex_def method_regex_def two_libs_def table_libs_def)

lemma ex_added:
  obtains ms where "st_matches (sv_state (run_ops svc_step (ex_bus, two_libs) ex_before [(ex_header, CallAddMatch (match_to_hashmap ex_own))])) = ms"
    "ms_matches ms = [ex_path\<lparr>m_uid := 7\<rparr>, ex_own]"
proof -
  let ?ms = "st_matches (uid_match 7)"
  have list: "ms_matches ?ms = [ex_path\<lparr>m_uid := 7\<rparr>]" by (simp add: uid_match_def)
  obtain arena dfa where "build_path_dfa two_libs (?ms\<lparr>ms_matches := ms_matches ?ms @ [ex_own]\<rparr>) [] = Inr (arena, dfa)"
    by (rule two_builds [of "?ms\<lparr>ms_matches := ms_matches ?ms @ [ex_own]\<rparr>" "''^/b$''" "[''^/b$'']" "[1]"])
      (simp_all add: list ex_patterns del: path_loop_set.simps)
  then have "with_pushed ex_own (\<lambda>s. build_path_dfa two_libs s []) ?ms = (?ms, Inr ())"
    by (simp add: with_pushed_def)
  moreover have "m_kind ex_own = Kind_path" by (simp add: ex_own_def ex_path_def)
  ultimately have "matches_add two_libs ?ms ex_own = (?ms\<lparr>ms_dns_count := ms_dns_count ?ms + of_bool (is_dns ex_own),
      ms_matches := ms_matches ?ms @ [ex_own], ms_generation := ms_generation ?ms + 1\<rparr>, Inr ())"
    by (simp add: matches_add_def try_parse_def)
  moreover have "match_from_hashmap (match_to_hashmap ex_own) 1000 = Inr ex_own"
    by (simp add: match_from_hashmap_def match_from_to_iter)
  moreover have "\<not> needs_auth 1000 ex_own"
    by (simp add: needs_auth_def ex_own_def ex_path_def is_per_process_def)
  moreover have "bu_iface ex_bus = Inr ()" by (simp add: ex_bus_def)
  ultimately have "ms_matches (st_matches (sv_state (run_ops svc_step (ex_bus, two_libs) ex_before [(ex_header, CallAddMatch (match_to_hashmap ex_own))])))
      = [ex_path\<lparr>m_uid := 7\<rparr>, ex_own]"
    by (simp add: ex_before_def run_ops_def add_match_def ex_bus_auth try_modify_matches_def send_if_modified_def on_matches_def emit_def list)
  then show thesis by (intro that) simp_all
qed

lemma loaded_in_force: "build_path_dfa lib ms [] = Inr (arena, dfa) \<Longrightarrow> in_force lib ms (loaded_globals arena dfa)"
  by (auto simp: in_force_def loaded_globals_def)

section \<open>A row of the window\<close>

text \<open>The match that the row at the end of the list asks for, in the name of the user.\<close>

definition row_match :: "'c gstate \<Rightarrow> Kind \<Rightarrow> Method \<Rightarrow> Direction \<Rightarrow> u32 \<Rightarrow> Match" where
  "row_match gs k n d uid = match_default\<lparr>m_pattern := g_proc_input gs, m_kind := k, m_method := n, m_direction := d, m_uid := uid\<rparr>"

definition row_shows :: "'c gstate \<Rightarrow> Kind \<Rightarrow> Method \<Rightarrow> Direction \<Rightarrow> bool" where
  "row_shows gs k n d \<longleftrightarrow> g_proc_input_kind gs = kind_display k \<and> g_proc_input_method gs = method_display n \<and>
    g_proc_input_dir gs = direction_display d"

lemma row_read:
  assumes "row_shows gs k n d" and "mset h = mset (gmatch_to_hashmap (current_match gs))"
  shows "match_from_hashmap h uid = Inr (row_match gs k n d uid)"
proof -
  let ?h = "gmatch_to_hashmap (current_match gs)"
  have fields: "?h = field_unless_empty ''pattern'' (g_proc_input gs) @
      [(''kind'', kind_display k), (''method'', method_display n), (''direction'', direction_display d)]"
    using assms(1) by (simp add: row_shows_def gmatch_to_hashmap_def current_match_def gmatch_default_def field_unless_empty_def display_nonempty)
  then have "distinct (map fst ?h)" by (simp add: field_unless_empty_def)
  moreover have "match_from_iter ?h uid = Inr (row_match gs k n d uid)"
    by (simp add: fields match_from_iter_def field_unless_empty_def row_match_def match_default_def)
  ultimately show ?thesis
    using match_fields.from_iter_order [of ?h h] assms(2) by (simp add: match_from_hashmap_def match_from_iter_def)
qed

lemma settle_state:
  assumes "task_run v (settle mark) u = Some s"
  shows "ch_state (tk_ch s) = ch_state (tk_ch u)"
proof -
  have turn: "ch_state (tk_ch y) = ch_state (tk_ch x)" if "task_step v e x = Some y" "e \<in> set (settle mark)" for e x y
    using that by (auto simp: settle_def routes_task_def reload_task_def dns_routes_task_def Let_def
        split: reload_pc.splits dns_pc.splits option.splits sum.splits prod.splits if_splits)
  have "ch_state (tk_ch s) = ch_state (tk_ch u)" if "task_run v es u = Some s" "set es \<subseteq> set (settle mark)" for es
    using that turn by (induction es arbitrary: u) (auto simp: bind_eq_Some_conv)
  with assms show ?thesis by blast
qed

lemma added_list:
  assumes wf: "svc_wf (b, lib)" and op: "call_op b (h, CallAddMatch new) = Some (OpAdd m)"
    and call: "service_call b lib (h, CallAddMatch new) u = (u', Inr ())"
  shows "ms_matches (st_matches (w_value (ch_state (tk_ch u')))) = ms_matches (st_matches (w_value (ch_state (tk_ch u)))) @ [m]
    \<and> st_enable (w_value (ch_state (tk_ch u'))) = st_enable (w_value (ch_state (tk_ch u)))"
proof -
  have w: "build_wf lib" using wf by (simp add: svc_wf_def)
  have list: "is_matches_call (CallAddMatch new)" by simp
  from matches_call_step [OF list, of b lib "svc_of u" h] obtain a where
    a: "call_op b (h, CallAddMatch new) = Some a" "svc_step (b, lib) (svc_of u) (h, CallAddMatch new) = apply_op b lib a (svc_of u)"
    using call by (force simp: service_call_def)
  with op have m: "a = OpAdd m" by simp
  show ?thesis
  proof (cases rule: apply_op_cases [OF wf, of a "svc_of u"])
    case (1 e)
    with call a(2) show ?thesis by (simp add: service_call_def del: svc_step.simps)
  next
    case (2 ms sv)
    with call a(2) have "u' = put_svc sv u" by (simp add: service_call_def del: svc_step.simps)
    with 2 matches_add_ok [OF w, of "st_matches (sv_state (svc_of u))" m ms "Inr ()"] show ?thesis
      by (simp add: m put_svc_def svc_of_def)
  qed
qed

text \<open>User 1000 types the first match of a daemon.\<close>

definition ex_row :: "string gstate" where
  "ex_row = toy_gui\<lparr>g_proc_input := ''/b'', g_proc_input_kind := kind_display Kind_path, g_proc_input_method := method_display (m_method match_default),
     g_proc_input_dir := direction_display Direction_redirect\<rparr>"

definition no_matches :: "State watch" where
  "no_matches = watch_new ((tun_for 1000)\<lparr>st_matches := matches_default\<rparr>)"

definition first_added :: "State watch" where
  "first_added = \<lparr>w_value = tun_for 1000, w_version = 1\<rparr>"

lemma ex_row_match: "row_match ex_row Kind_path (m_method match_default) Direction_redirect 1000 = ex_own"
  by (simp add: row_match_def ex_row_def ex_own_def ex_path_def match_default_def)

lemma ex_row_shows: "row_shows ex_row Kind_path (m_method match_default) Direction_redirect"
  by (simp add: row_shows_def ex_row_def)

lemma ex_first_call:
  assumes "match_from_hashmap d 1000 = Inr ex_own"
  shows "service_call ex_bus (ev_libs ex_env) (ex_header, CallAddMatch d) (tasks_init no_matches []) = (tasks_init first_added [], Inr ())"
proof -
  obtain arena dfa where "build_path_dfa two_libs (matches_default\<lparr>ms_matches := [ex_own]\<rparr>) [] = Inr (arena, dfa)"
    by (rule two_builds [of "matches_default\<lparr>ms_matches := [ex_own]\<rparr>" "''^/b$''" "[]" "[]"])
      (simp_all add: ex_own_def ex_path_def match_default_def path_regex_def method_regex_def two_libs_def table_libs_def)
  moreover have "m_kind ex_own = Kind_path" "ms_matches matches_default = []" by (simp_all add: ex_own_def ex_path_def matches_default_def)
  ultimately have "matches_add two_libs matches_default ex_own = (st_matches (uid_match 1000), Inr ())"
    by (simp add: matches_add_def try_parse_def with_pushed_def is_dns_def uid_match_def ex_own_def matches_default_def)
  moreover have "\<not> needs_auth 1000 ex_own" "bu_iface ex_bus = Inr ()"
    by (simp_all add: needs_auth_def ex_own_def ex_path_def is_per_process_def ex_bus_def)
  ultimately show ?thesis
    using assms
    by (simp add: service_call_def add_match_def ex_bus_auth try_modify_matches_def send_if_modified_def on_matches_def emit_def ex_env_def
        svc_of_def put_svc_def tasks_init_def no_matches_def first_added_def watch_new_def tun_for_def)
qed

section \<open>Properties\<close>

text \<open>
  C6: what the service does to the daemon is an event of its tasks.  Whatever callers call and whatever else happens
  in between, a call that fails leaves every channel, and the others have the effect of one
  event; so what holds of the tasks for all orders of events holds for the daemon with its
  service.
\<close>

theorem calls_are_events:
  assumes "svc_wf (b, ev_libs v)" and "list_all (sys_hooks_in procs) es"
  shows "(system_run v b es s = Some t \<longrightarrow>
      (\<exists>es'. task_run v es' s = Some t \<and> length es' \<le> length es \<and> list_all (hooks_in procs) es'))
    \<and> (service_call b (ev_libs v) hc s = (u, Inl err) \<longrightarrow> u = s)"
  using system_events [OF assms(1) _ assms(2)] call_event [OF assms(1), of "fst hc" "snd hc" s u "Inl err" procs] by auto

theorem calls_are_events_witness:
  "\<exists>es'. task_run ex_env es' (tasks_init (watch_new tun_state) []) = system_run ex_env ex_bus [Sy_call ex_header CallToggle] (tasks_init (watch_new tun_state) [])
    \<and> length es' \<le> 1"
proof -
  have "list_all (sys_hooks_in (\<lambda>i. ex_task 0)) [Sy_call ex_header CallToggle]" by simp
  from calls_are_events [OF ex_sys_wf this, of "tasks_init (watch_new tun_state) []"
      "fst (service_call ex_bus (ev_libs ex_env) (ex_header, CallToggle) (tasks_init (watch_new tun_state) []))" "(ex_header, CallToggle)"]
  show ?thesis by (simp, blast)
qed

text \<open>
  C2: from the calls of the service to the mark of a socket.  Let calls of any callers, turns of the tasks,
  notifications, packets and hooks come in any order, the daemon settle, and the tasks of the hooks keep
  executable and user.  Then a socket that a task creates is given the daemon's mark exactly when the
  daemon is enabled and its output is up, it is an internet socket, and the first match of the present
  list whose pattern accepts the path of the executable is for the user and redirects.  (Hooks run between
  the turns of the tasks, not between the assignments of a load.)
\<close>

theorem socket_follows_list:
  assumes env: "svc_wf (b, ev_libs v)" "kernel_sane (ev_kernel v)" "pages_free (ev_alloc v)" and lf: "leftmost_first rx (ev_libs v) (st_matches st)"
    and bound: "unat (ms_generation (st_matches (w_value w))) + length es + 11 < 2 ^ 64"
    and run: "system_run v b (es @ map Sy_task (settle mark)) (tasks_init w log) = Some s"
    and procs: "list_all (sys_hooks_in procs) es" "procs (task_id t) = t"
    and now: "w_value (ch_state (tk_ch s)) = st" "w_value (ch_routes (tk_ch s)) = r" and gen: "ms_generation (st_matches st) \<noteq> 0"
    and built: "build_path_dfa (ev_libs v) (st_matches st) [] = Inr (arena, dfa)" "length arena \<le> ARENA_SIZE"
    and few: "length (ms_matches (st_matches st)) < 2 ^ 32"
    and t: "ta_exe t = Some dents" "walkable dents"
  shows "snd (cgroup_socket_create (ev_alloc v) (ev_keep v) family t (tk_bpf s)) =
    (if st_enable st \<and> (\<exists>l. r = Some l \<and> r_is_up l) \<and> is_inet family
        \<and> direction_for rx (ev_libs v) (st_matches st) (ta_uid t) (full_path dents) = Some Direction_redirect
     then Some (tk_sockets s) else None)"
proof -
  obtain u where u: "system_run v b es (tasks_init w log) = Some u" "task_run v (settle mark) u = Some s"
    using run by (auto simp: system_run_append bind_eq_Some_conv)
  obtain es' where es': "task_run v es' (tasks_init w log) = Some u" "length es' \<le> length es" "list_all (hooks_in procs) es'"
    using system_events [OF env(1) u(1) procs(1)] by blast
  have "task_run v (es' @ settle mark) (tasks_init w log) = Some s" using es'(1) u(2) by (simp add: task_run_append)
  moreover have "unat (ms_generation (st_matches (w_value w))) + length es' + 11 < 2 ^ 64" using bound es'(2) by linarith
  moreover have "build_wf (ev_libs v)" using env(1) by (simp add: svc_wf_def)
  ultimately show ?thesis
    using settled_socket env(2,3) lf es'(3) procs(2) now gen built few t by blast
qed

theorem socket_follows_list_witness:
  "\<exists>s. system_run ex_env ex_bus ([] @ map Sy_task (settle 70000)) (tasks_init (watch_new tun_state) []) = Some s \<and>
    snd (cgroup_socket_create (ev_alloc ex_env) (ev_keep ex_env) 2 (ex_task 0) (tk_bpf s)) = Some 70000 \<and>
    snd (cgroup_socket_create (ev_alloc ex_env) (ev_keep ex_env) 1 (ex_task 0) (tk_bpf s)) = None"
proof -
  have libs: "ev_libs ex_env = two_libs" by (simp add: ex_env_def)
  have st: "st_matches tun_state = st_matches one_match" "st_enable tun_state" by (simp_all add: tun_for_def)
  obtain arena dfa where b: "build_path_dfa two_libs (st_matches one_match) [] = Inr (arena, dfa)" "length arena \<le> ARENA_SIZE"
    by (rule two_libs_build)
  obtain s where run: "system_run ex_env ex_bus ([] @ map Sy_task (settle 70000)) (tasks_init (watch_new tun_state) []) = Some s"
    "tk_sockets s = 70000" "w_value (ch_state (tk_ch s)) = tun_state" "w_value (ch_routes (tk_ch s)) = Some tun_route"
    by (rule ex_settle_run [of "watch_new tun_state" 0]) (simp_all add: watch_new_def)
  note e = example_facts
  have some: "list_all (sys_hooks_in (\<lambda>i. ex_task 0)) []" "length (ms_matches (st_matches one_match)) < 2 ^ 32"
    "unat (ms_generation (st_matches (w_value (watch_new tun_state)))) + length ([] :: system_event list) + 11 < 2 ^ 64"
    using ex_env_facts(4) by (simp_all add: uid_match_def)
  have first: "direction_for (\<lambda>pat path. True) two_libs (st_matches one_match) (ta_uid (ex_task 0)) path = Some Direction_redirect" for path
    by (simp add: direction_for_def first_match_def accepts_def uid_match_def ex_path_def match_default_def path_regex_def method_regex_def
        two_libs_def table_libs_def uid_applies_def)
  note mark = socket_follows_list [OF ex_sys_wf ex_env_facts(2,3) two_leftmost [of "st_matches tun_state", folded libs] some(3) run(1) some(1) refl run(3,4),
      unfolded libs st(1), OF e(6) b some(2) e(9,10), unfolded first]
  have "snd (cgroup_socket_create (ev_alloc ex_env) (ev_keep ex_env) 2 (ex_task 0) (tk_bpf s)) = Some 70000"
    "snd (cgroup_socket_create (ev_alloc ex_env) (ev_keep ex_env) 1 (ex_task 0) (tk_bpf s)) = None"
    by (simp_all add: mark st run(2) tun_route_def is_inet_def AF_INET6_def)
  with run(1) show ?thesis by (simp only: ex_simps) auto
qed

text \<open>
  C7: a user's own matches stay with the user.  Let a user other than root add matches without
  authorization, as many and as often as the calls allow, and the kernel have the automaton of the list after the calls as before it
  had that of the list before them.  Then the verdict on every task of another user is what it was, and
  so is that on the user's own tasks whose executable a match accepted before.
\<close>

theorem added_matches_stay_local:
  assumes wf: "svc_wf (b, lib)" and user: "uid \<noteq> 0"
    and calls: "\<And>h c. (h, c) \<in> set calls \<Longrightarrow> (\<exists>new. c = CallAddMatch new) \<and> peer_uid b h = Inr uid \<and> auth_or_err b h \<noteq> Inr ()"
    and run: "st_matches (sv_state s) = ms" "st_matches (sv_state (run_ops svc_step (b, lib) s calls)) = ms'"
    and lf: "leftmost_first rx lib ms" "leftmost_first rx lib ms'" and force: "in_force lib ms g" "in_force lib ms' g'"
    and built: "build_path_dfa lib ms [] = Inr (arena, dfa)" "length arena \<le> ARENA_SIZE"
    and built': "build_path_dfa lib ms' [] = Inr (arena', dfa')" "length arena' \<le> ARENA_SIZE" "length (ms_matches ms') < 2 ^ 32"
    and t: "ta_exe t = Some dents" "walkable dents" "ta_uid t \<noteq> uid \<or> first_match rx lib ms (full_path dents) \<noteq> None"
  shows "fst (verdict g' t) = fst (verdict g t)"
proof -
  obtain own where own: "\<forall>m \<in> set own. m_uid m = uid" "ms_matches ms' = ms_matches ms @ own"
    using add_calls_list [OF wf user calls] run by metis
  then have few: "length (ms_matches ms) < 2 ^ 32" using built'(3) by simp
  have w: "build_wf lib" using wf by (simp add: svc_wf_def)
  show ?thesis
    using verdict_of_list [OF w lf(1) force(1) built few t(1,2)] verdict_of_list [OF w lf(2) force(2) built' t(1,2)]
      direction_appended [OF own(2,1) user t(3)] by simp
qed

theorem added_matches_stay_local_witness:
  "\<exists>arena dfa arena' dfa'. build_path_dfa two_libs (st_matches (sv_state ex_before)) [] = Inr (arena, dfa)
    \<and> build_path_dfa two_libs (st_matches (sv_state (run_ops svc_step (ex_bus, two_libs) ex_before
        [(ex_header, CallAddMatch (match_to_hashmap ex_own))]))) [] = Inr (arena', dfa')
    \<and> fst (verdict (loaded_globals arena' dfa') (ex_task 7)) = fst (verdict (loaded_globals arena dfa) (ex_task 7))"
proof -
  let ?calls = "[(ex_header, CallAddMatch (match_to_hashmap ex_own))]"
  obtain ms where ms: "st_matches (sv_state (run_ops svc_step (ex_bus, two_libs) ex_before ?calls)) = ms"
    "ms_matches ms = [ex_path\<lparr>m_uid := 7\<rparr>, ex_own]"
    by (rule ex_added)
  obtain arena dfa where b: "build_path_dfa two_libs (st_matches (uid_match 7)) [] = Inr (arena, dfa)" "length arena \<le> ARENA_SIZE"
    by (rule two_libs_build)
  obtain arena' dfa' where b': "build_path_dfa two_libs ms [] = Inr (arena', dfa')" "length arena' \<le> ARENA_SIZE"
    by (rule two_builds [of ms "''^/b$''" "[''^/b$'']" "[1]"]) (simp_all add: ms(2) ex_patterns del: path_loop_set.simps)
  have wf: "svc_wf (ex_bus, two_libs)" using ex_sys_wf by (simp add: ex_env_def)
  have calls: "(\<exists>new. c = CallAddMatch new) \<and> peer_uid ex_bus h = Inr 1000 \<and> auth_or_err ex_bus h \<noteq> Inr ()" if "(h, c) \<in> set ?calls" for h c
    using that ex_bus_auth by auto
  have before: "st_matches (sv_state ex_before) = st_matches (uid_match 7)" by (simp add: ex_before_def)
  have t: "length (ms_matches ms) < 2 ^ 32" "ta_uid (ex_task 7) \<noteq> 1000 \<or> P" for P
    by (simp_all add: ms(2) ex_task_def)
  have "fst (verdict (loaded_globals arena' dfa') (ex_task 7)) = fst (verdict (loaded_globals arena dfa) (ex_task 7))"
    using added_matches_stay_local [OF wf _ calls before ms(1) two_leftmost two_leftmost loaded_in_force [OF b(1)] loaded_in_force [OF b'(1)]
        b b' t(1) _ _ t(2)] example_facts(10) by (simp add: ex_task_def)
  with b b' ms before show ?thesis by auto
qed

text \<open>
  C5: from the row of the window to the socket.  After any events, let the window send the row at the end of
  its list, whose fields show a kind, a method and a redirection, in whatever order the dictionary is iterated, the
  service accept it from the user, and the daemon settle with its output up.  If no match of the list
  accepted the path of the user's executable and the new one does, then a new internet socket of the
  user's task is given the mark.  (As before, a load is one step with respect to the hooks.)
\<close>

theorem typed_row_redirects:
  assumes env: "svc_wf (b, ev_libs v)" "kernel_sane (ev_kernel v)" "pages_free (ev_alloc v)"
    and bound: "unat (ms_generation (st_matches (w_value w))) + length es + 12 < 2 ^ 64"
    and before: "system_run v b es (tasks_init w log) = Some u" "w_value (ch_state (tk_ch u)) = st" "st_enable st"
    and row: "row_shows gs k n Direction_redirect" "request_of (D_MatchAdd (current_match gs)) = Some (R_add_match d)" "mset d' = mset d"
    and accepted: "peer_uid b h = Inr uid" "service_call b (ev_libs v) (h, CallAddMatch d') u = (u', Inr ())"
    and after: "task_run v (settle mark) u' = Some s" "st_matches (w_value (ch_state (tk_ch u'))) = ms" "ms_generation ms \<noteq> 0"
    and up: "w_value (ch_routes (tk_ch s)) = Some l" "r_is_up l"
    and lf: "leftmost_first rx (ev_libs v) ms"
    and built: "build_path_dfa (ev_libs v) ms [] = Inr (arena, dfa)" "length arena \<le> ARENA_SIZE" "length (ms_matches ms) < 2 ^ 32"
    and procs: "list_all (sys_hooks_in procs) es" "procs (task_id t) = t"
    and t: "ta_exe t = Some dents" "walkable dents" "ta_uid t = uid" "is_inet family"
    and path: "first_match rx (ev_libs v) (st_matches st) (full_path dents) = None"
      "accepts rx (ev_libs v) (full_path dents) (row_match gs k n Direction_redirect uid)"
  shows "snd (cgroup_socket_create (ev_alloc v) (ev_keep v) family t (tk_bpf s)) = Some (tk_sockets s)"
proof -
  let ?m = "row_match gs k n Direction_redirect uid"
  have "match_from_hashmap d' uid = Inr ?m"
    using row by (intro row_read) auto
  then have "call_op b (h, CallAddMatch d') = Some (OpAdd ?m)" using accepted(1) by simp
  from added_list [OF env(1) this accepted(2)]
  have list: "ms_matches ms = ms_matches (st_matches st) @ [?m]" "st_enable (w_value (ch_state (tk_ch u')))"
    using before(2,3) after(2) by simp_all
  have state: "ch_state (tk_ch s) = ch_state (tk_ch u')" by (rule settle_state [OF after(1)])
  have run: "system_run v b (es @ [Sy_call h (CallAddMatch d')]) (tasks_init w log) = Some u'"
    using before(1) accepted(2) by (simp add: system_run_append)
  have hooks: "list_all (sys_hooks_in procs) (es @ [Sy_call h (CallAddMatch d')])" using procs(1) by simp
  obtain es' where es': "task_run v es' (tasks_init w log) = Some u'" "length es' \<le> Suc (length es)" "list_all (hooks_in procs) es'"
    using system_events [OF env(1) run hooks] by auto
  have whole: "task_run v (es' @ settle mark) (tasks_init w log) = Some s" using es'(1) after(1) by (simp add: task_run_append)
  have few: "unat (ms_generation (st_matches (w_value w))) + length es' + 11 < 2 ^ 64" using bound es'(2) by linarith
  have wf: "build_wf (ev_libs v)" using env(1) by (simp add: svc_wf_def)
  have "direction_for rx (ev_libs v) ms (ta_uid t) (full_path dents) = Some Direction_redirect"
    using path list(1) t(3) by (simp add: direction_for_def first_match_def find_append uid_applies_def row_match_def)
  with settled_socket [OF wf env(2,3), of rx "w_value (ch_state (tk_ch u'))" w es' mark log s procs t "Some l" arena dfa dents family]
  show ?thesis
    using lf few whole es'(3) procs(2) state up after(2,3) built t list(2) by simp
qed

theorem typed_row_redirects_witness:
  "\<exists>s. task_run ex_env (settle 70000) (tasks_init first_added []) = Some s \<and>
    snd (cgroup_socket_create (ev_alloc ex_env) (ev_keep ex_env) 2 (ex_task 1000) (tk_bpf s)) = Some (tk_sockets s)"
proof -
  have libs: "ev_libs ex_env = two_libs" by (simp add: ex_env_def)
  obtain d where d: "request_of (D_MatchAdd (current_match ex_row)) = Some (R_add_match d)" by simp
  have read: "match_from_hashmap d 1000 = Inr ex_own"
    using row_read [OF ex_row_shows, of d 1000] d by (simp add: ex_row_match)
  obtain s where s: "task_run ex_env ([] @ settle 70000) (tasks_init first_added []) = Some s"
    "w_value (ch_routes (tk_ch s)) = Some tun_route"
    by (rule ex_settle_run [of first_added 1000]) (simp_all add: first_added_def)
  obtain arena dfa where b: "build_path_dfa two_libs (st_matches (uid_match 1000)) [] = Inr (arena, dfa)" "length arena \<le> ARENA_SIZE"
    by (rule two_libs_build)
  have before: "system_run ex_env ex_bus [] (tasks_init no_matches []) = Some (tasks_init no_matches [])"
    "unat (ms_generation (st_matches (w_value no_matches))) + length ([] :: system_event list) + 12 < 2 ^ 64"
    "w_value (ch_state (tk_ch (tasks_init no_matches []))) = w_value no_matches" "st_enable (w_value no_matches)"
    by (simp_all add: no_matches_def watch_new_def matches_default_def tasks_init_def tun_for_def)
  have after: "st_matches (w_value (ch_state (tk_ch (tasks_init first_added [])))) = st_matches (uid_match 1000)"
    by (simp add: tasks_init_def first_added_def tun_for_def)
  have t: "list_all (sys_hooks_in (\<lambda>i. ex_task 1000)) []" "length (ms_matches (st_matches (uid_match 1000))) < 2 ^ 32" "r_is_up tun_route"
    "ms_generation (st_matches (uid_match 1000)) \<noteq> 0" "ta_exe (ex_task 1000) = Some [[98], [SLASH]]" "ta_uid (ex_task 1000) = 1000" "is_inet 2"
    by (simp_all add: uid_match_def tun_route_def ex_task_def is_inet_def)
  have path: "first_match (\<lambda>pat path. True) two_libs (st_matches (w_value no_matches)) x = None"
    "accepts (\<lambda>pat path. True) two_libs x (row_match ex_row Kind_path (m_method match_default) Direction_redirect 1000)" for x
    unfolding ex_row_match
    by (simp_all add: first_match_def no_matches_def watch_new_def matches_default_def accepts_def ex_own_def ex_path_def
        match_default_def path_regex_def method_regex_def two_libs_def table_libs_def)
  have "snd (cgroup_socket_create (ev_alloc ex_env) (ev_keep ex_env) 2 (ex_task 1000) (tk_bpf s)) = Some (tk_sockets s)"
    using typed_row_redirects [OF ex_sys_wf ex_env_facts(2,3) before(2,1,3,4) ex_row_shows d refl ex_bus_auth(1) ex_first_call [OF read]
        s(1) [unfolded append_Nil] after t(4) s(2) t(3) two_leftmost [folded libs] b [folded libs] t(2,1) refl t(5) _ t(6,7)
        path [folded libs]] example_facts(10) by blast
  with s(1) show ?thesis by auto
qed

end
