(* ===== verification/Process.thy ===== *)
theory Process
  imports Tasks
begin

text \<open>
  The daemon as one process: \<^verbatim>\<open>main\<close> and \<^verbatim>\<open>run\<close> of \<^verbatim>\<open>main.rs\<close> from the command line to the tasks, the
  task that saves the state beside the others, and what is taken down when the first of them ends.
\<close>

section \<open>From the command line to the tasks\<close>

text \<open>
  The system as \<^verbatim>\<open>main\<close> finds it: the user database, the user it was started as, the address of the
  bus and how to connect to it, the number of its threads if \<^verbatim>\<open>/proc\<close> can be read, whether
  \<^verbatim>\<open>bpf_drop_caps\<close> returns for a user and a group, and what the bus answers: to the connection, to serving
  the object, to the request for the name.
\<close>

record host =
  ho_getpwnam :: "string \<Rightarrow> passwd option"
  ho_own :: "u32 \<times> u32"
  ho_transport :: "bus_transport result"
  ho_connect :: "bus_transport \<Rightarrow> nat result"
  ho_threads :: "nat option"
  ho_drop_caps :: "u32 \<Rightarrow> u32 \<Rightarrow> bool"
  ho_bus :: "(nat \<times> u32) option \<Rightarrow> unit result"
  ho_serve :: "unit result"
  ho_name :: "unit result"

text \<open>
  Where \<^verbatim>\<open>save_state\<close> is: without files it is not spawned; spawned but not yet polled; waiting for a
  change; in the pause after one.
\<close>

datatype saver_pc = Sv_none | Sv_start Files | Sv_wait saver | Sv_sleep saver

record process =
  pr_tasks :: tasks
  pr_saver :: saver_pc

text \<open>What \<^verbatim>\<open>main\<close> does in the unprivileged process before it gives up its capabilities.\<close>

definition main_prepare ::
  "host \<Rightarrow> serde \<Rightarrow> (nat \<Rightarrow> u8 list option) \<Rightarrow> CliArgs
    \<Rightarrow> ((u32 \<times> u32) \<times> (nat \<times> u32) option \<times> State watch \<times> Files option) result" where
  "main_prepare bo sd fs args =
    rbind (daemon_user (ho_getpwnam bo) (ho_own bo) args) (\<lambda>(uid, gid).
    rbind (root_conn uid (ho_transport bo) (ho_connect bo)) (\<lambda>conn.
    rbind (load_state sd fs) (\<lambda>(state, files).
    rbind (case ho_threads bo of None \<Rightarrow> Inr () | Some n \<Rightarrow> assert_that (n = 1)) (\<lambda>_.
    Inr ((uid, gid), conn, state, files)))))"

text \<open>\<open>None\<close> is the exit of a failed check in \<^verbatim>\<open>bpf_drop_caps\<close>; the requests are those of the static rules.\<close>

definition main_start ::
  "host \<Rightarrow> serde \<Rightarrow> (nat \<Rightarrow> u8 list option) \<Rightarrow> env \<Rightarrow> CliArgs \<Rightarrow> (nl_request list \<times> process result) option" where
  "main_start bo sd fs v args =
    (case main_prepare bo sd fs args of
       Inl e \<Rightarrow> Some ([], Inl e)
     | Inr ((uid, gid), conn, state, files) \<Rightarrow>
       if \<not> ho_drop_caps bo uid gid then None
       else Some
        (case run_start (ev_kernel v) (ev_table v) args (ho_bus bo conn) (ho_serve bo) (ho_name bo) state [] of
           (log, Inl e) \<Rightarrow> (log, Inl e)
         | (log, Inr state) \<Rightarrow>
             (log, Inr \<lparr>pr_tasks = tasks_init state log,
                       pr_saver = (case files of None \<Rightarrow> Sv_none | Some f \<Rightarrow> Sv_start f)\<rparr>)))"

section \<open>The saver beside the other tasks\<close>

text \<open>
  From one \<^verbatim>\<open>await\<close> of \<^verbatim>\<open>save_state\<close> to the next; \<open>torn\<close> and \<open>trunc\<close> are the failures of the write.  \<open>None\<close> is
  the end of the task.
\<close>

definition saver_turn :: "serde \<Rightarrow> nat option \<Rightarrow> bool \<Rightarrow> State watch \<Rightarrow> saver_pc \<Rightarrow> saver_pc option" where
  "saver_turn sd torn trunc w pc =
    (case pc of
       Sv_none \<Rightarrow> Some Sv_none
     | Sv_start f \<Rightarrow> Some (Sv_wait (save_begin w f))
     | Sv_wait sa \<Rightarrow> Some (if has_changed w (Some (fi_seen (sa_files sa))) then Sv_sleep sa else Sv_wait sa)
     | Sv_sleep sa \<Rightarrow>
       (case save_round sd torn trunc w sa of
          (sa, Inl e) \<Rightarrow> None
        | (sa, Inr _) \<Rightarrow> Some (Sv_wait sa)))"

datatype process_event = Pr_task task_event | Pr_save "nat option" bool

fun process_step :: "env \<Rightarrow> serde \<Rightarrow> process_event \<Rightarrow> process \<Rightarrow> process option" where
  "process_step v sd (Pr_task e) p = map_option (\<lambda>t. p\<lparr>pr_tasks := t\<rparr>) (task_step v e (pr_tasks p))"
| "process_step v sd (Pr_save torn trunc) p =
    map_option (\<lambda>pc. p\<lparr>pr_saver := pc\<rparr>) (saver_turn sd torn trunc (ch_state (tk_ch (pr_tasks p))) (pr_saver p))"

fun process_run :: "env \<Rightarrow> serde \<Rightarrow> process_event list \<Rightarrow> process \<Rightarrow> process option" where
  "process_run v sd [] p = Some p"
| "process_run v sd (e # es) p = Option.bind (process_step v sd e p) (process_run v sd es)"

text \<open>The state as the readers of the channel see it.\<close>

abbreviation state_of :: "process \<Rightarrow> State watch" where
  "state_of p \<equiv> ch_state (tk_ch (pr_tasks p))"

section \<open>The end of a run\<close>

text \<open>
  The context and the requests after the turn in which a task ends with an error.  A task that ends
  without sending anything more, such as the saver or the one that waits for a signal, leaves both
  as they were.
\<close>

definition last_turn :: "env \<Rightarrow> task_event \<Rightarrow> tasks \<Rightarrow> BpfCtx \<times> nl_request list" where
  "last_turn v e s =
    (let k = ev_kernel v; c = tk_ch s; conf = w_value (ch_state c); routes = w_value (ch_routes c); def = w_value (ch_default c);
         log = tk_log s
     in case e of
          Tk_reload iface new_mark \<Rightarrow>
            (case tk_reload s of
               Rl_rules mark \<Rightarrow>
                 (case watch_reload_step k (ev_nl v) (ev_libs v) conf routes mark (tk_ctx s) log of
                    Some (log, ctx, Inl e) \<Rightarrow> (ctx, log)
                  | _ \<Rightarrow> (tk_ctx s, log))
             | _ \<Rightarrow> (tk_ctx s, log))
        | Tk_routes \<Rightarrow> (tk_ctx s, fst (watch_routes_step k conf routes log))
        | Tk_multicast t as_route as_link \<Rightarrow> (tk_ctx s, fst (watch_multicast_step k conf def routes t as_route as_link log))
        | Tk_multicast_start \<Rightarrow> (tk_ctx s, fst (default_link_or_none k (st_config conf) log))
        | Tk_dns_routes \<Rightarrow>
            (case tk_dns_routes s of
               Dr_lock update_caches \<Rightarrow>
                 (tk_ctx s, fst (snd (watch_dns_routes_step k (ev_libs v) (ev_names v) (ev_table v) conf routes def update_caches (tk_dns s) log)))
             | _ \<Rightarrow> (tk_ctx s, log))
        | Tk_ttl now changed \<Rightarrow>
            (tk_ctx s, fst (snd (watch_dns_ttl_step k (ev_names v) (ev_table v) now changed (tk_dns s) log)))
        | _ \<Rightarrow> (tk_ctx s, log))"

definition left_by :: "env \<Rightarrow> task_event option \<Rightarrow> process \<Rightarrow> BpfCtx \<times> nl_request list" where
  "left_by v cause p =
    (case cause of None \<Rightarrow> (tk_ctx (pr_tasks p), tk_log (pr_tasks p)) | Some e \<Rightarrow> last_turn v e (pr_tasks p))"

text \<open>\<open>cause\<close> is the turn that ended the run, if it was one of a task that sends requests.\<close>

definition process_end :: "env \<Rightarrow> task_event option \<Rightarrow> process \<Rightarrow> (nl_request list \<times> unit result) option" where
  "process_end v cause p = (case left_by v cause p of (ctx, log) \<Rightarrow> shutdown (ev_kernel v) (ev_table v) ctx log)"

end
