(* ===== verification/Daemon_Correct.thy ===== *)
theory Daemon_Correct
  imports Daemon Reload_Correct
begin

text \<open>
  Properties of the daemon's life cycle: what a start finds after the saves of the
  previous run, complete or torn, and that the end of a run leaves no routing rule.
\<close>

section \<open>Loading two slots\<close>

text \<open>What \<^verbatim>\<open>serde_json\<close> writes for a state, under any generation, it reads back.\<close>

definition serde_rt :: "serde \<Rightarrow> State \<Rightarrow> bool" where
  "serde_rt sd s \<longleftrightarrow> (\<forall>g. \<exists>b. sd_utf8 sd (sd_to_vec sd (s\<lparr>st_generation := g\<rparr>)) = Some b
     \<and> sd_from_str sd b = Inr (s\<lparr>st_generation := g\<rparr>))"

definition readable :: "serde \<Rightarrow> u8 list \<Rightarrow> bool" where
  "readable sd c \<longleftrightarrow> sd_utf8 sd c \<noteq> None"

definition slot_state :: "serde \<Rightarrow> u8 list \<Rightarrow> State option" where
  "slot_state sd c =
    (case sd_utf8 sd c of None \<Rightarrow> None | Some b \<Rightarrow> (case sd_from_str sd b of Inl _ \<Rightarrow> None | Inr s \<Rightarrow> Some s))"

definition counted :: "State \<Rightarrow> State" where
  "counted s = s\<lparr>st_matches := matches_update (st_matches s)\<rparr>"

definition fs_of :: "u8 list list \<Rightarrow> nat \<Rightarrow> u8 list option" where
  "fs_of cs i = (if i < length cs then Some (cs ! i) else None)"

fun pick :: "State option \<Rightarrow> State option \<Rightarrow> State \<times> nat" where
  "pick None None = (state_default, 0)"
| "pick (Some s) None = (counted s, 0)"
| "pick None (Some t) = (counted t, 1)"
| "pick (Some s) (Some t) = (if st_generation s \<le> st_generation t then (counted t, 1) else (counted s, 0))"

lemma open_two: "open_slots fs [0..<2] [] = (case (fs 0, fs 1) of (Some a, Some b) \<Rightarrow> [a, b] | _ \<Rightarrow> [])"
  by (simp add: numeral_2_eq_2 split: option.split)

lemma load_two:
  assumes "fs 0 = Some a" "fs 1 = Some b" "readable sd a" "readable sd b"
  shows "\<exists>w f. load_state sd fs = Inr (w, Some f) \<and> (w_value w, fi_last_i f) = pick (slot_state sd a) (slot_state sd b)
    \<and> fi_files f = [a, b] \<and> fi_seen f = w_version w"
proof -
  from assms(3,4) obtain x y where "sd_utf8 sd a = Some x" "sd_utf8 sd b = Some y" by (auto simp: readable_def)
  with assms(1,2) show ?thesis
    by (cases "sd_from_str sd x"; cases "sd_from_str sd y")
      (auto simp: load_state_def open_two load_slot_def Let_def slot_state_def watch_send_def watch_new_def counted_def)
qed

lemma load_slot_readable: "load_slot sd acc (i, c) = Inr acc' \<Longrightarrow> readable sd c"
  by (auto simp: load_slot_def readable_def Let_def rbind_eq_Inr split: prod.splits)

lemma load_two_conv:
  assumes "load_state sd fs = Inr (w, Some f)"
  obtains a b where "fs 0 = Some a" "fs 1 = Some b" "readable sd a" "readable sd b"
proof -
  from assms obtain a b where ab: "fs 0 = Some a" "fs 1 = Some b"
    by (cases "fs 0"; cases "fs 1") (auto simp: load_state_def open_two Let_def)
  with assms have "\<exists>acc acc' acc''. load_slot sd acc (0, a) = Inr acc' \<and> load_slot sd acc' (1, b) = Inr acc''"
    by (auto simp: load_state_def open_two Let_def rbind_eq_Inr) metis
  with ab that show thesis by (blast intro: load_slot_readable)
qed

lemma load_newest:
  assumes cs: "length cs = 2" "list_all (readable sd) cs" "j < 2" "slot_state sd (cs ! j) = Some s"
    and older: "\<And>t. slot_state sd (cs ! (1 - j)) = Some t \<Longrightarrow> st_generation t < st_generation s"
  shows "\<exists>w f. load_state sd (fs_of cs) = Inr (w, Some f) \<and> w_value w = counted s"
proof -
  from cs(1) obtain a b where ab: "cs = [a, b]" by (auto simp: numeral_2_eq_2 length_Suc_conv)
  have pick: "fst (pick (slot_state sd a) (slot_state sd b)) = counted s"
  proof (cases "j = 0")
    case True
    with cs(4) older ab show ?thesis by (cases "slot_state sd b") (auto simp: not_le)
  next
    case False
    with cs(3) have "j = 1" by simp
    with cs(4) older ab show ?thesis by (cases "slot_state sd a") (auto simp: less_imp_le)
  qed
  from cs(2) ab load_two [of "fs_of cs" a b sd] obtain w f where "load_state sd (fs_of cs) = Inr (w, Some f)"
    "(w_value w, fi_last_i f) = pick (slot_state sd a) (slot_state sd b)" by (auto simp: fs_of_def)
  with pick show ?thesis by (metis fst_conv)
qed

section \<open>The saver\<close>

definition saver_ok :: "serde \<Rightarrow> saver \<Rightarrow> bool" where
  "saver_ok sd sa \<longleftrightarrow> length (fi_files (sa_files sa)) = 2 \<and> fi_last_i (sa_files sa) < 2
    \<and> list_all (readable sd) (fi_files (sa_files sa))
    \<and> (\<forall>c \<in> set (fi_files (sa_files sa)). \<forall>s. slot_state sd c = Some s \<longrightarrow> st_generation s \<le> sa_generation sa)"

text \<open>After a save the slot that is not next holds the state \<open>s\<close>, newer than the other.\<close>

definition saver_holds :: "serde \<Rightarrow> saver \<Rightarrow> State \<Rightarrow> bool" where
  "saver_holds sd sa s \<longleftrightarrow> saver_ok sd sa \<and> st_generation s = sa_generation sa
    \<and> slot_state sd (fi_files (sa_files sa) ! (1 - fi_last_i (sa_files sa))) = Some s
    \<and> (\<forall>t. slot_state sd (fi_files (sa_files sa) ! fi_last_i (sa_files sa)) = Some t \<longrightarrow> st_generation t < st_generation s)"

lemma loaded_saver_ok:
  assumes "load_state sd fs = Inr (w, Some f)"
  shows "saver_ok sd (save_begin w f)"
proof -
  obtain a b where ab: "fs 0 = Some a" "fs 1 = Some b" "readable sd a" "readable sd b"
    using load_two_conv [OF assms] .
  from load_two [of fs, OF this] assms have pick: "(w_value w, fi_last_i f) = pick (slot_state sd a) (slot_state sd b)"
    and files: "fi_files f = [a, b]" by auto
  from pick have "fi_last_i f < 2"
    by (cases "slot_state sd a"; cases "slot_state sd b") (auto split: if_splits)
  moreover from pick have "\<forall>s. slot_state sd a = Some s \<or> slot_state sd b = Some s \<longrightarrow> st_generation s \<le> st_generation (w_value w)"
    by (cases "slot_state sd a"; cases "slot_state sd b") (auto simp: counted_def split: if_splits)
  ultimately show ?thesis using ab files by (simp add: saver_ok_def save_begin_def)
qed

lemma succ_greater: "unat (g :: u64) + 1 < 2 ^ 64 \<Longrightarrow> unat (g + 1) = unat g + 1 \<and> g < g + 1"
  by (simp add: word_less_nat_alt unat_word_ariths)

lemma save_round_holds:
  fixes w
  assumes rt: "serde_rt sd (w_value w)" and ok: "saver_ok sd sa" and gen: "unat (sa_generation sa) + 1 < 2 ^ 64"
  defines "sa' \<equiv> fst (save_round sd None True w sa)"
  shows "saver_holds sd sa' ((w_value w)\<lparr>st_generation := sa_generation sa + 1\<rparr>)"
    and "sa_generation sa' = sa_generation sa + 1"
proof -
  let ?s = "(w_value w)\<lparr>st_generation := sa_generation sa + 1\<rparr>"
  let ?fs = "fi_files (sa_files sa)" and ?i = "fi_last_i (sa_files sa)"
  from ok have i: "length ?fs = 2" "?i < 2" by (simp_all add: saver_ok_def)
  then have sa': "sa' = \<lparr>sa_files = (sa_files sa)\<lparr>fi_seen := w_version w, fi_files := ?fs[?i := sd_to_vec sd ?s],
      fi_last_i := 1 - ?i\<rparr>, sa_generation = sa_generation sa + 1\<rparr>"
    by (auto simp: sa'_def save_round_def Let_def idx_def less_2_cases_iff)
  then show "sa_generation sa' = sa_generation sa + 1" by simp
  obtain b where "sd_utf8 sd (sd_to_vec sd ?s) = Some b" "sd_from_str sd b = Inr ?s"
    using rt unfolding serde_rt_def by blast
  then have new: "readable sd (sd_to_vec sd ?s)" "slot_state sd (sd_to_vec sd ?s) = Some ?s"
    by (simp_all add: readable_def slot_state_def)
  from ok have old: "st_generation t < sa_generation sa + 1" if "c \<in> set ?fs" "slot_state sd c = Some t" for c t
    using that succ_greater [OF gen] unfolding saver_ok_def by (meson le_less_trans)
  have sub: "set (?fs[?i := x]) \<subseteq> insert x (set ?fs)" for x by (rule set_update_subset_insert)
  have "list_all (readable sd) (?fs[?i := sd_to_vec sd ?s])"
    using ok new(1) sub unfolding saver_ok_def list_all_iff by blast
  moreover have "st_generation t \<le> sa_generation sa + 1"
    if "c \<in> set (?fs[?i := sd_to_vec sd ?s])" "slot_state sd c = Some t" for c t
  proof (cases "c \<in> set ?fs")
    case True
    from old [OF this that(2)] show ?thesis by (rule less_imp_le)
  next
    case False
    with that(1) sub have "c = sd_to_vec sd ?s" by blast
    with that(2) new(2) show ?thesis by auto
  qed
  ultimately have "saver_ok sd sa'"
    using i by (auto simp: saver_ok_def sa')
  moreover from i have "1 - (1 - ?i) = ?i" "?fs[?i := x] ! (1 - ?i) = ?fs ! (1 - ?i)" "1 - ?i < length ?fs" for x
    by (auto simp: less_2_cases_iff)
  ultimately show "saver_holds sd sa' ?s"
    using i new old [OF nth_mem] by (simp add: saver_holds_def sa')
qed

lemma saver_holds_loads:
  assumes "saver_holds sd sa s"
  shows "\<exists>w f. load_state sd (fs_of (fi_files (sa_files sa))) = Inr (w, Some f) \<and> w_value w = counted s"
proof -
  let ?i = "fi_last_i (sa_files sa)"
  have "?i < 2" using assms by (simp add: saver_holds_def saver_ok_def)
  then have "1 - (1 - ?i) = ?i" by (auto simp: less_2_cases_iff)
  with assms show ?thesis
    by (intro load_newest [where j = "1 - ?i"]) (auto simp: saver_holds_def saver_ok_def)
qed

text \<open>Complete saves of the states that the channel held, one after the other.\<close>

definition saves :: "serde \<Rightarrow> saver \<Rightarrow> State watch list \<Rightarrow> saver" where
  "saves sd sa ws = foldl (\<lambda>sa w. fst (save_round sd None True w sa)) sa ws"

lemma saves_hold:
  assumes rt: "\<forall>w \<in> set ws. serde_rt sd (w_value w)" and ok: "saver_ok sd sa"
    and gen: "unat (sa_generation sa) + length ws < 2 ^ 64" and "ws \<noteq> []"
  shows "saver_holds sd (saves sd sa ws) ((w_value (last ws))\<lparr>st_generation := sa_generation sa + of_nat (length ws)\<rparr>)"
  using rt ok gen \<open>ws \<noteq> []\<close>
proof (induction ws arbitrary: sa)
  case (Cons w ws)
  let ?sa = "fst (save_round sd None True w sa)"
  have g: "unat (sa_generation sa) + 1 < 2 ^ 64" using Cons.prems by simp
  have "serde_rt sd (w_value w)" using Cons.prems(1) by simp
  note once = save_round_holds [OF this Cons.prems(2) g]
  show ?case
  proof (cases "ws = []")
    case True
    with once show ?thesis by (simp add: saves_def)
  next
    case False
    have "saver_ok sd ?sa" using once(1) by (simp add: saver_holds_def)
    moreover have "unat (sa_generation ?sa) + length ws < 2 ^ 64"
      using Cons.prems(3) succ_greater [OF g] once(2) by simp
    ultimately show ?thesis using Cons.IH [of ?sa] Cons.prems(1) False once(2) by (simp add: saves_def ac_simps)
  qed
qed simp

section \<open>Persistence\<close>

text \<open>A format for the witnesses: the generation in decimal, closed by a brace.\<close>

definition ex_serde :: serde where
  "ex_serde = \<lparr>sd_utf8 = (\<lambda>c. Some (map (\<lambda>b. char_of (unat b)) c)),
     sd_from_str = (\<lambda>t. if t \<noteq> [] \<and> last t = CHR ''}'' then
         (case parse_uint (2 ^ 64 - 1) (butlast t) of None \<Rightarrow> Inl ''digits'' | Some n \<Rightarrow> Inr (state_default\<lparr>st_generation := of_nat n\<rparr>))
       else Inl ''EOF''),
     sd_to_vec = (\<lambda>s. map (\<lambda>c. of_nat (of_char c)) (show_nat (unat (st_generation s)) @ ''}''))\<rparr>"

lemma char_byte: "char_of (unat (of_nat (of_char c) :: u8)) = c"
  by (simp add: unat_of_nat take_bit_eq_mod char_of_mod_256)

lemma ex_serde_rt: "serde_rt ex_serde state_default"
proof -
  have "parse_uint (2 ^ 64 - 1) (show_nat (unat g)) = Some (unat g)" for g :: u64
    using unsigned_less [of g, where ?'a = nat] by (intro parse_uint_show_nat) simp
  moreover have "char_of (125 :: nat) = CHR ''}''" by (simp add: char_of_def bit_0)
  ultimately show ?thesis by (simp add: serde_rt_def ex_serde_def char_byte o_def)
qed

lemma ex_serde_empty: "readable ex_serde []" "slot_state ex_serde [] = None"
  by (simp_all add: readable_def slot_state_def ex_serde_def)

lemma ex_serde_start:
  "load_state ex_serde (fs_of [[], []]) =
    Inr (watch_new state_default, Some \<lparr>fi_seen = 0, fi_files = [[], []], fi_last_i = 0\<rparr>)"
  by (simp add: load_state_def open_two fs_of_def Let_def load_slot_def ex_serde_def watch_new_def)

text \<open>
  Whatever was on disk when the daemon started, after any positive number of complete
  saves (fewer than the generations left) a new start loads the state that was saved last,
  with its counter of DNS matches recomputed.
\<close>

theorem save_then_load:
  assumes "\<forall>w \<in> set ws. serde_rt sd (w_value w)" and "load_state sd fs = Inr (w, Some f)"
    and "ws \<noteq> []" and "unat (st_generation (w_value w)) + length ws < 2 ^ 64"
  shows "\<exists>w' f'. load_state sd (fs_of (fi_files (sa_files (saves sd (save_begin w f) ws)))) = Inr (w', Some f')
    \<and> w_value w' = (w_value (last ws))\<lparr>st_generation := st_generation (w_value w) + of_nat (length ws),
        st_matches := matches_update (st_matches (w_value (last ws)))\<rparr>"
  using saver_holds_loads [OF saves_hold [OF assms(1) loaded_saver_ok [OF assms(2)] _ assms(3)]] assms(4)
  by (simp add: save_begin_def counted_def)

theorem save_then_load_witness:
  "\<exists>w' f'. load_state ex_serde (fs_of (fi_files (sa_files (saves ex_serde
      (save_begin (watch_new state_default) \<lparr>fi_seen = 0, fi_files = [[], []], fi_last_i = 0\<rparr>)
      [watch_new state_default])))) = Inr (w', Some f') \<and> st_generation (w_value w') = 1"
  using save_then_load [of "[watch_new state_default]", OF _ ex_serde_start] ex_serde_rt
  by (auto simp: watch_new_def state_default_def)

text \<open>
  C31: once this run has saved something, a write that fails at any byte costs nothing but
  the state being written: as long as the torn slot is still text and does not parse, a new
  start loads the state of the last complete save, because the slots alternate.
\<close>

theorem torn_save_keeps_last:
  assumes "\<forall>w \<in> set ws. serde_rt sd (w_value w)" and "load_state sd fs = Inr (w, Some f)"
    and "ws \<noteq> []" and "unat (st_generation (w_value w)) + length ws < 2 ^ 64"
    and sa: "saves sd (save_begin w f) ws = sa"
    and torn: "save_round sd (Some n) trunc w2 sa = (sa', r)"
    and bad: "readable sd (fi_files (sa_files sa') ! fi_last_i (sa_files sa'))"
      "slot_state sd (fi_files (sa_files sa') ! fi_last_i (sa_files sa')) = None"
  shows "\<exists>w' f'. load_state sd (fs_of (fi_files (sa_files sa'))) = Inr (w', Some f')
    \<and> w_value w' = (w_value (last ws))\<lparr>st_generation := st_generation (w_value w) + of_nat (length ws),
        st_matches := matches_update (st_matches (w_value (last ws)))\<rparr>"
proof -
  let ?s = "(w_value (last ws))\<lparr>st_generation := st_generation (w_value w) + of_nat (length ws)\<rparr>"
  let ?i = "fi_last_i (sa_files sa)" and ?fs = "fi_files (sa_files sa)"
  have holds: "saver_holds sd sa ?s"
    using saves_hold [OF assms(1) loaded_saver_ok [OF assms(2)] _ assms(3)] assms(4) sa by (simp add: save_begin_def)
  then have i: "?i < 2" "length ?fs = 2" "list_all (readable sd) ?fs" by (simp_all add: saver_holds_def saver_ok_def)
  then obtain c where c: "fi_files (sa_files sa') = ?fs[?i := c]" "fi_last_i (sa_files sa') = ?i"
    using torn by (auto simp: save_round_def Let_def idx_def split: if_splits)
  with i have other: "1 - (1 - ?i) = ?i" "?fs[?i := c] ! (1 - ?i) = ?fs ! (1 - ?i)" by (auto simp: less_2_cases_iff)
  have "list_all (readable sd) (?fs[?i := c])"
    using i bad(1) c set_update_subset_insert [of ?fs ?i c] by (auto simp: list_all_iff)
  then have "\<exists>w' f'. load_state sd (fs_of (?fs[?i := c])) = Inr (w', Some f') \<and> w_value w' = counted ?s"
    using i bad(2) c holds other by (intro load_newest [where j = "1 - ?i"]) (auto simp: saver_holds_def)
  with c show ?thesis by (simp add: counted_def)
qed

theorem torn_save_keeps_last_witness:
  "\<exists>w' f'. load_state ex_serde (fs_of (fi_files (sa_files (fst (save_round ex_serde (Some 0) True (watch_new state_default)
      (saves ex_serde (save_begin (watch_new state_default) \<lparr>fi_seen = 0, fi_files = [[], []], fi_last_i = 0\<rparr>)
      [watch_new state_default])))))) = Inr (w', Some f') \<and> st_generation (w_value w') = 1"
proof -
  define sa where "sa = saves ex_serde (save_begin (watch_new state_default) \<lparr>fi_seen = 0, fi_files = [[], []], fi_last_i = 0\<rparr>)
    [watch_new state_default]"
  obtain sa' r where torn: "save_round ex_serde (Some 0) True (watch_new state_default) sa = (sa', r)" by fastforce
  then have "fi_files (sa_files sa') ! fi_last_i (sa_files sa') = []"
    by (auto simp: sa_def saves_def save_round_def save_begin_def Let_def idx_def write_at_def)
  with torn_save_keeps_last [of "[watch_new state_default]", OF _ ex_serde_start _ _ sa_def [symmetric] torn]
    ex_serde_rt ex_serde_empty torn
  show ?thesis unfolding sa_def [symmetric] by (auto simp: watch_new_def state_default_def)
qed

text \<open>
  The first save of a run has no such protection: it goes into the slot that was just
  loaded, the newest, so that a write torn there takes the start after it back to the
  older slot, although nothing was wrong with the state that had been loaded.
\<close>

theorem first_torn_save_rolls_back:
  assumes load: "load_state sd (fs_of [a, b]) = Inr (w, Some f)"
    and old: "slot_state sd a = Some s" and new: "slot_state sd b = Some t" and "st_generation s \<le> st_generation t"
    and torn: "save_round sd (Some n) trunc w2 (save_begin w f) = (sa, r)"
    and bad: "readable sd (fi_files (sa_files sa) ! 1)" "slot_state sd (fi_files (sa_files sa) ! 1) = None"
  shows "w_value w = counted t \<and> (\<exists>w' f'. load_state sd (fs_of (fi_files (sa_files sa))) = Inr (w', Some f') \<and> w_value w' = counted s)"
proof -
  from load_two_conv [OF load] have r: "readable sd a" "readable sd b" by (auto simp: fs_of_def)
  from load_two [of "fs_of [a, b]" a b sd] r load have w: "(w_value w, fi_last_i f) = pick (Some s) (Some t)"
    "fi_files f = [a, b]" by (auto simp: fs_of_def old new)
  then have "w_value w = counted t" "fi_last_i f = 1" using assms(4) by simp_all
  moreover obtain c where "fi_files (sa_files sa) = [a, c]"
    using torn w \<open>fi_last_i f = 1\<close> by (auto simp: save_round_def save_begin_def Let_def idx_def)
  ultimately show ?thesis
    using bad r load_two [of "fs_of [a, c]" a c sd] by (auto simp: fs_of_def old)
qed

text \<open>The slots of generations 5 and 9; the write of generation 10 ends after two bytes.\<close>

theorem first_torn_save_rolls_back_witness:
  "\<exists>w f w' f'. load_state ex_serde (fs_of [map (\<lambda>c. of_nat (of_char c)) ''5}'', map (\<lambda>c. of_nat (of_char c)) ''9}'']) = Inr (w, Some f)
    \<and> st_generation (w_value w) = 9
    \<and> load_state ex_serde (fs_of (fi_files (sa_files (fst (save_round ex_serde (Some 2) True w (save_begin w f)))))) = Inr (w', Some f')
    \<and> st_generation (w_value w') = 5"
proof -
  let ?a = "map (\<lambda>c. of_nat (of_char c)) ''5}'' :: u8 list" and ?b = "map (\<lambda>c. of_nat (of_char c)) ''9}'' :: u8 list"
  have utf8: "sd_utf8 ex_serde (map (\<lambda>c. of_nat (of_char c)) t) = Some t" for t
    by (simp add: ex_serde_def char_byte o_def)
  have "parse_uint (2 ^ 64 - 1) ''5'' = Some 5" "parse_uint (2 ^ 64 - 1) ''9'' = Some 9"
    using parse_uint_show_nat [of 5 "2 ^ 64 - 1"] parse_uint_show_nat [of 9 "2 ^ 64 - 1"]
    by (simp_all add: show_nat.simps digit_char_def char_of_def bit_0)
  then have "sd_from_str ex_serde ''5}'' = Inr (state_default\<lparr>st_generation := 5\<rparr>)"
    "sd_from_str ex_serde ''9}'' = Inr (state_default\<lparr>st_generation := 9\<rparr>)" by (simp_all add: ex_serde_def)
  with utf8 [of "''5}''"] utf8 [of "''9}''"] have st: "slot_state ex_serde ?a = Some (state_default\<lparr>st_generation := 5\<rparr>)"
    "slot_state ex_serde ?b = Some (state_default\<lparr>st_generation := 9\<rparr>)" "readable ex_serde ?a" "readable ex_serde ?b"
    by (simp_all add: slot_state_def readable_def)
  with load_two [of "fs_of [?a, ?b]" ?a ?b ex_serde] obtain w f
    where load: "load_state ex_serde (fs_of [?a, ?b]) = Inr (w, Some f)" and w: "st_generation (w_value w) = 9" "fi_last_i f = 1"
      and files: "fi_files f = [?a, ?b]"
    by (auto simp: fs_of_def counted_def)
  obtain sa r where torn: "save_round ex_serde (Some 2) True w (save_begin w f) = (sa, r)" by fastforce
  have "show_nat 10 = ''10''" by (simp add: show_nat.simps digit_char_def char_of_def bit_0)
  then have "sd_to_vec ex_serde ((w_value w)\<lparr>st_generation := 10\<rparr>) = map (\<lambda>c. of_nat (of_char c)) ''10}''"
    by (simp add: ex_serde_def)
  with torn w files have "fi_files (sa_files sa) ! 1 = map (\<lambda>c. of_nat (of_char c)) ''10''"
    by (auto simp: save_round_def save_begin_def Let_def idx_def write_at_def)
  moreover have "sd_from_str ex_serde ''10'' = Inl ''EOF''" by (simp add: ex_serde_def)
  ultimately have "readable ex_serde (fi_files (sa_files sa) ! 1)" "slot_state ex_serde (fi_files (sa_files sa) ! 1) = None"
    using utf8 [of "''10''"] by (simp_all add: readable_def slot_state_def)
  from first_torn_save_rolls_back [OF load st(1,2) _ torn this] load w torn show ?thesis
    by (auto simp: counted_def)
qed

section \<open>The rules of the kernel\<close>

text \<open>
  The routing rules that a log of requests leaves, and a kernel whose answers follow it:
  an added rule is kept, a deletion removes the first rule that agrees with the attributes
  named in the request and fails when there is none.
\<close>

definition rule_matches :: "rule_req \<Rightarrow> rule_req \<Rightarrow> bool" where
  "rule_matches q r \<longleftrightarrow> (rr_table q \<noteq> None \<longrightarrow> rr_table r = rr_table q)
    \<and> (rr_fwmark q \<noteq> None \<longrightarrow> rr_fwmark r = rr_fwmark q)"

fun drop_first :: "('a \<Rightarrow> bool) \<Rightarrow> 'a list \<Rightarrow> 'a list" where
  "drop_first p [] = []"
| "drop_first p (x # xs) = (if p x then xs else x # drop_first p xs)"

fun rule_step :: "rule_req list \<Rightarrow> nl_request \<Rightarrow> rule_req list" where
  "rule_step db (ReqNewRule r) = db @ [r]"
| "rule_step db (ReqDelRule q) = drop_first (rule_matches q) db"
| "rule_step db _ = db"

definition rule_db :: "nl_request list \<Rightarrow> rule_req list" where
  "rule_db log = foldl rule_step [] log"

definition rule_kernel :: "kernel \<Rightarrow> bool" where
  "rule_kernel k \<longleftrightarrow> kernel_sane k \<and> (\<forall>log. kn_sent k log = Inr ()
    \<and> list_all is_ok (kn_routes k log) \<and> kn_batch k log \<noteq> Inl Interrupted \<and> kn_genid k log \<noteq> Inl Interrupted
    \<and> Inl Interrupted \<notin> set (kn_rules k log)
    \<and> (\<forall>q. is_ok (kn_ack k (log @ [ReqDelRule q])) \<longleftrightarrow> (\<exists>r \<in> set (rule_db log). rule_matches q r)))"

fun keeps_rules :: "nl_request \<Rightarrow> bool" where
  "keeps_rules (ReqNewRule r) = False"
| "keeps_rules (ReqDelRule q) = False"
| "keeps_rules _ = True"

lemma rule_db_keeps: "list_all keeps_rules new \<Longrightarrow> rule_db (log @ new) = rule_db log"
proof (induction new rule: rev_induct)
  case (snoc r new)
  then show ?case by (cases r) (simp_all add: rule_db_def)
qed simp

lemma filter_drop_first: "filter (\<lambda>x. \<not> p x) (drop_first p xs) = filter (\<lambda>x. \<not> p x) xs"
  by (induction xs) auto

lemma length_drop_first: "\<exists>x \<in> set xs. p x \<Longrightarrow> Suc (length (filter p (drop_first p xs))) = length (filter p xs)"
  by (induction xs) auto

lemma drop_first_none: "\<forall>x \<in> set xs. \<not> p x \<Longrightarrow> drop_first p xs = xs"
  by (induction xs) auto

text \<open>The bounded loop of deletions removes every rule that agrees, if the bound allows it.\<close>

lemma del_until_err_all:
  assumes k: "rule_kernel k" and "length (filter (rule_matches q) (rule_db log)) \<le> n"
  shows "\<exists>log'. del_until_err k (ReqDelRule q) n log = (log', Inr ())
    \<and> rule_db log' = filter (\<lambda>r. \<not> rule_matches q r) (rule_db log)"
  using assms(2)
proof (induction n arbitrary: log)
  case 0
  then show ?case by (auto simp: io_ret_def filter_empty_conv intro!: filter_True [symmetric])
next
  case (Suc n)
  let ?log = "log @ [ReqDelRule q]"
  have db: "rule_db ?log = drop_first (rule_matches q) (rule_db log)" by (simp add: rule_db_def)
  have np: "kn_ack k ?log \<noteq> Inl Panic" using k by (simp add: rule_kernel_def kernel_sane_def)
  have run: "del_until_err k (ReqDelRule q) (Suc n) log =
      (if is_ok (kn_ack k ?log) then del_until_err k (ReqDelRule q) n ?log else (?log, Inr ()))"
    using k np by (simp add: rule_kernel_def io_bind_def io_send_def io_try_def io_recv_def io_ret_def)
  show ?case
  proof (cases "\<exists>r \<in> set (rule_db log). rule_matches q r")
    case True
    with k have "is_ok (kn_ack k ?log)" by (simp add: rule_kernel_def)
    moreover from True have "length (filter (rule_matches q) (rule_db ?log)) \<le> n"
      using length_drop_first [OF True] Suc.prems by (simp add: db)
    ultimately show ?thesis using run Suc.IH [of ?log] by (simp add: db filter_drop_first)
  next
    case False
    with k have "\<not> is_ok (kn_ack k ?log)" by (simp add: rule_kernel_def)
    with run False show ?thesis by (simp add: db drop_first_none filter_id_conv)
  qed
qed

lemma clear_table_ok:
  assumes "rule_kernel k"
  shows "\<exists>log'. clear_table k table log = (log', Inr ()) \<and> rule_db log' = rule_db log"
proof -
  have sent: "kn_sent k l = Inr ()" "kn_ack k l \<noteq> Inl Panic" for l
    using assms by (simp_all add: rule_kernel_def kernel_sane_def)
  have ok: "\<exists>routes. table_routes table ms = Inr routes" if "list_all is_ok ms" for ms
    using that by (induction table ms rule: table_routes.induct) auto
  define body where "body = (\<lambda>r. io_bind (io_send k (del_route_req table r)) (\<lambda>_.
      io_bind (io_try (io_recv (kn_ack k))) (\<lambda>_. io_ret ())))"
  have "body r log = (log @ [del_route_req table r], Inr ())" for r log
    by (simp add: body_def io_ret_def io_bind_def io_send_def io_try_def io_recv_def sent)
  then have iter: "snd (io_iter body routes log) = Inr ()" for routes log
    by (induction routes arbitrary: log) (simp_all add: io_ret_def io_bind_def)
  have "snd (clear_table k table log) = Inr ()"
    using ok [of "kn_routes k (log @ [dump_table_req table])"] assms
    unfolding clear_table_def body_def [symmetric]
    by (auto simp: io_bind_def io_send_def io_dump_def io_lift_def sent iter rule_kernel_def)
  moreover have "io_sends keeps_rules (clear_table k table)"
    unfolding clear_table_def by (intro io_sends_intros) (simp_all add: dump_table_req_def del_route_req_def)
  ultimately show ?thesis
    using io_sendsD [of keeps_rules "clear_table k table" log] rule_db_keeps by (metis prod.collapse)
qed

lemma find_handle_error: "find_handle mark ms = Inl e \<Longrightarrow> Inl e \<in> set ms \<or> e = Msg ''missing handle''"
  by (induction mark ms rule: find_handle.induct) (auto simp: ok_or_def split: if_splits option.splits)

lemma iptables_del_ok:
  assumes k: "rule_kernel k"
  shows "\<exists>log' r. iptables_rule k False mark addr port log = Some (log', r) \<and> r \<noteq> Inl Panic \<and> rule_db log' = rule_db log"
proof -
  obtain log' r where once: "iptables_rule_try k False mark addr port log = (log', r)" by fastforce
  have "r \<noteq> Inl Interrupted \<and> r \<noteq> Inl Panic"
    using once k
    by (auto simp: iptables_rule_try_def get_latest_genid_def iptables_op_def io_bind_def io_send_def io_recv_def
        io_lift_def io_dump_def io_unwrap_def io_err_def io_ret_def rule_kernel_def kernel_sane_def ok_or_def
        split: sum.splits option.splits dest!: find_handle_error)
  moreover have "io_sends keeps_rules (iptables_rule_try k False mark addr port)"
    unfolding iptables_rule_try_def get_latest_genid_def iptables_op_def if_False
    by (intro io_sends_intros io_sends_case_option) simp_all
  ultimately show ?thesis
    using once io_sendsD [of keeps_rules _ log log' r] rule_db_keeps
    by (subst iptables_rule.simps) (force simp: Let_def)
qed

lemma del_iptables_ok:
  assumes "rule_kernel k"
  shows "\<exists>log'. del_iptables k mark n log = Some (log', Inr ()) \<and> rule_db log' = rule_db log"
proof (induction n arbitrary: log)
  case 0
  show ?case by (simp add: oio_of_def io_ret_def)
next
  case (Suc n)
  obtain log1 r where r: "iptables_rule k False mark (Ipv4 0 0 0 0) 0 log = Some (log1, r)" "r \<noteq> Inl Panic" "rule_db log1 = rule_db log"
    using iptables_del_ok [OF assms] by blast
  then show ?case
    using Suc.IH [of log1] by (simp add: oio_bind_def oio_try_def oio_of_def io_ret_def)
qed

text \<open>The rules of a mark, and how \<open>clear_rules\<close> removes them.\<close>

definition of_mark :: "u32 \<Rightarrow> rule_req \<Rightarrow> bool" where
  "of_mark mark r \<longleftrightarrow> rr_table r = Some mark \<or> rr_fwmark r = Some mark"

lemma clear_rules_all:
  assumes k: "rule_kernel k" and "length (filter (of_mark mark) (rule_db log)) \<le> 1000"
  shows "\<exists>log'. clear_rules k mark log = Some (log', Inr ()) \<and> rule_db log' = filter (\<lambda>r. \<not> of_mark mark r) (rule_db log)"
proof -
  let ?t = "rule_default\<lparr>rr_table := Some mark\<rparr>" and ?m = "rule_default\<lparr>rr_fwmark := Some mark, rr_fwmask := Some 0\<rparr>"
  have few: "length (filter P xs) \<le> 1000" if "length (filter (of_mark mark) xs) \<le> 1000" "\<And>r. P r \<Longrightarrow> of_mark mark r" for P xs
    using that(1) length_filter_le [of P "filter (of_mark mark) xs"] that(2) by (simp add: filter_filter conj_commute) (metis (mono_tags, lifting) filter_cong order_trans that(2))
  have tm: "rule_matches ?t r \<longleftrightarrow> rr_table r = Some mark" "rule_matches ?m r \<longleftrightarrow> rr_fwmark r = Some mark" for r
    by (simp_all add: rule_matches_def rule_default_def)
  obtain log1 where 1: "clear_table k mark log = (log1, Inr ())" "rule_db log1 = rule_db log"
    using clear_table_ok [OF k] by blast
  obtain log2 where 2: "del_until_err k (del_rule_table mark) 1000 log1 = (log2, Inr ())"
    "rule_db log2 = filter (\<lambda>r. \<not> rule_matches ?t r) (rule_db log)"
    using del_until_err_all [OF k, of ?t log1 1000] few [OF assms(2), of "rule_matches ?t"] 1(2)
    by (auto simp: del_rule_table_def tm of_mark_def)
  obtain log3 where 3: "del_until_err k (del_rule_mark mark) 1000 log2 = (log3, Inr ())"
    "rule_db log3 = filter (\<lambda>r. \<not> rule_matches ?m r) (rule_db log2)"
    using del_until_err_all [OF k, of ?m log2 1000] few [OF assms(2), of "\<lambda>r. \<not> rule_matches ?t r \<and> rule_matches ?m r"] 2(2)
    by (auto simp: del_rule_mark_def tm of_mark_def)
  obtain log4 where 4: "del_iptables k mark 1000 log3 = Some (log4, Inr ())" "rule_db log4 = rule_db log3"
    using del_iptables_ok [OF k] by blast
  show ?thesis
    using 1 2 3 4 by (simp add: clear_rules_def oio_bind_def oio_of_def tm of_mark_def conj_commute)
qed

lemma clear_static_all:
  assumes k: "rule_kernel k" and "length (filter (\<lambda>r. rr_table r = Some table) (rule_db log)) \<le> 1000"
  shows "\<exists>log'. clear_static_rules k table log = (log', Inr ())
    \<and> rule_db log' = filter (\<lambda>r. rr_table r \<noteq> Some table) (rule_db log)"
proof -
  let ?t = "rule_default\<lparr>rr_table := Some table\<rparr>"
  have t: "rule_matches ?t = (\<lambda>r. rr_table r = Some table)" by (simp add: rule_matches_def rule_default_def fun_eq_iff)
  obtain log1 where 1: "clear_table k table log = (log1, Inr ())" "rule_db log1 = rule_db log"
    using clear_table_ok [OF k] by blast
  obtain log2 where "del_until_err k (del_rule_table table) 1000 log1 = (log2, Inr ())"
    "rule_db log2 = filter (\<lambda>r. rr_table r \<noteq> Some table) (rule_db log)"
    using del_until_err_all [OF k, of ?t log1 1000] assms(2) 1(2) by (auto simp: del_rule_table_def t)
  with 1 show ?thesis by (simp add: clear_static_rules_def io_bind_def io_try_def)
qed

text \<open>The life of the daemon: the static rules, then reloads, each under a mark of its own.\<close>

inductive daemon_run :: "kernel \<Rightarrow> nl_lib \<Rightarrow> libs \<Rightarrow> u32 \<Rightarrow> BpfCtx \<Rightarrow> nl_request list \<Rightarrow> bool"
  for k nb lib dns_table where
  start: "setup_static_rules k dns_table [] = (log, r) \<Longrightarrow> daemon_run k nb lib dns_table (bpf_ctx_new now) log"
| reload: "daemon_run k nb lib dns_table ctx log \<Longrightarrow> length (rule_db log) \<le> 1000 \<Longrightarrow>
    watch_reload_step k nb lib conf routes new_mark ctx log = Some (log', ctx', res) \<Longrightarrow>
    daemon_run k nb lib dns_table ctx' log'"

lemma rule_db_owned:
  assumes "list_all (owned_by nb m) add" and "r \<in> set (rule_db (log @ add))"
  shows "r \<in> set (rule_db log) \<or> of_mark m r"
  using assms
proof (induction add rule: rev_induct)
  case (snoc q add)
  then show ?case by (cases q) (auto simp: rule_db_def of_mark_def)
qed simp

definition accounted :: "u32 \<Rightarrow> BpfCtx \<Rightarrow> rule_req \<Rightarrow> bool" where
  "accounted dns_table ctx r \<longleftrightarrow> rr_table r = Some dns_table \<or> (\<exists>m. bc_mark ctx = Some m \<and> of_mark m r)"

lemma few_rules: "length (rule_db log) \<le> 1000 \<Longrightarrow> length (filter P (rule_db log)) \<le> 1000"
  by (rule order_trans [OF length_filter_le])

text \<open>A reload keeps the account: the rules of the old mark go, those it adds are of the new one.\<close>

lemma reload_accounted:
  assumes k: "rule_kernel k" and acc: "\<forall>r \<in> set (rule_db log). accounted dns_table ctx r" and few: "length (rule_db log) \<le> 1000"
    and first: "(case bc_mark ctx of None \<Rightarrow> Some (log, Inr ()) | Some m \<Rightarrow> clear_rules k m log) = Some (log1, r1)"
    and add: "list_all (owned_by nb m) add" and mark: "bc_mark ctx' = Some m" and r: "r \<in> set (rule_db (log1 @ add))"
  shows "accounted dns_table ctx' r"
proof -
  have "rr_table q = Some dns_table" if "q \<in> set (rule_db log1)" for q
  proof (cases "bc_mark ctx")
    case None
    with that first acc show ?thesis by (auto simp: accounted_def)
  next
    case (Some old)
    with first clear_rules_all [OF k few_rules [OF few], of old]
    have "rule_db log1 = filter (\<lambda>r. \<not> of_mark old r) (rule_db log)" by auto
    with that Some acc show ?thesis by (auto simp: accounted_def)
  qed
  with rule_db_owned [OF add r] mark show ?thesis by (auto simp: accounted_def)
qed

text \<open>The static rule, and the first context.\<close>

lemma static_accounted:
  assumes "rule_kernel k" and "setup_static_rules k dns_table [] = (log, res)" and "r \<in> set (rule_db log)"
  shows "accounted dns_table ctx r"
proof -
  have "log = [ReqNewRule (rule_default\<lparr>rr_create := True, rr_excl := True, rr_action := FR_ACT_TO_TBL,
      rr_priority := Some 0, rr_src := Some (V4 (Ipv4 0 0 0 0)), rr_table := Some dns_table\<rparr>)]"
    using assms(1,2) by (auto simp: setup_static_rules_def io_request_def io_bind_def io_send_def io_recv_def rule_kernel_def)
  with assms(3) show ?thesis by (simp add: rule_db_def accounted_def)
qed

lemma daemon_run_accounted:
  assumes k: "rule_kernel k"
  shows "daemon_run k nb lib dns_table ctx log \<Longrightarrow> r \<in> set (rule_db log) \<Longrightarrow> accounted dns_table ctx r"
proof (induction arbitrary: r rule: daemon_run.induct)
  case (start log res now)
  then show ?case using static_accounted [OF k] by blast
next
  case (reload ctx log conf routes m log' ctx' res)
  from reload_splits [OF reload(3)] obtain log1 r1 add where mark: "bc_mark ctx' = Some m"
    and first: "(case bc_mark ctx of None \<Rightarrow> Some (log, Inr ()) | Some m \<Rightarrow> clear_rules k m log) = Some (log1, r1)"
    and add: "log' = log1 @ add" "list_all (owned_by nb m) add" by blast
  from reload(4) have "\<forall>r \<in> set (rule_db log). accounted dns_table ctx r" by blast
  from reload_accounted [OF k this reload(2) first add(2) mark] reload(5) add(1) show ?case by simp
qed

text \<open>What the clean-up does when every rule is accounted for.\<close>

lemma shutdown_cleans:
  assumes "rule_kernel k" and "\<forall>r \<in> set (rule_db log). accounted dns_table ctx r" and "length (rule_db log) \<le> 1000"
  shows "\<exists>log'. shutdown k dns_table ctx log = Some (log', Inr ()) \<and> rule_db log' = []"
proof -
  obtain log1 where 1: "(case bc_mark ctx of None \<Rightarrow> oio_of (io_ret (Inr ())) | Some mark \<Rightarrow> oio_try (clear_rules k mark)) log
      = Some (log1, Inr (Inr ()))" "\<forall>r \<in> set (rule_db log1). rr_table r = Some dns_table" "length (rule_db log1) \<le> 1000"
  proof (cases "bc_mark ctx")
    case None
    with that [of log] assms(2,3) show thesis by (auto simp: oio_of_def io_ret_def accounted_def)
  next
    case (Some m)
    from clear_rules_all [OF assms(1) few_rules [OF assms(3)], of m] obtain log1
      where "clear_rules k m log = Some (log1, Inr ())" "rule_db log1 = filter (\<lambda>r. \<not> of_mark m r) (rule_db log)" by blast
    with that [of log1] Some assms(2) few_rules [OF assms(3)] show thesis by (auto simp: oio_try_def accounted_def)
  qed
  from clear_static_all [OF assms(1) few_rules [OF 1(3)], of dns_table] obtain log2
    where "clear_static_rules k dns_table log1 = (log2, Inr ())"
      "rule_db log2 = filter (\<lambda>r. rr_table r \<noteq> Some dns_table) (rule_db log1)" by blast
  with 1 show ?thesis
    by (auto simp: shutdown_def oio_bind_def oio_try_def oio_of_def io_ret_def filter_empty_conv)
qed

text \<open>
  The daemon leaves the routing rules as it found them.  After any number of reloads,
  failed ones included, as long as no more than 1000 rules of its own are in place, the
  clean-up at the end of \<^verbatim>\<open>run\<close> returns and no rule is left.
\<close>

theorem shutdown_leaves_no_rule:
  assumes "rule_kernel k" and "daemon_run k nb lib dns_table ctx log" and "length (rule_db log) \<le> 1000"
  shows "\<exists>log'. shutdown k dns_table ctx log = Some (log', Inr ()) \<and> rule_db log' = []"
  using daemon_run_accounted [OF assms(1,2)] assms(1,3) by (blast intro: shutdown_cleans)

definition fib_kernel :: kernel where
  "fib_kernel = silent_kernel\<lparr>kn_ack := (\<lambda>log. case rev log of
      ReqDelRule q # before \<Rightarrow> if list_ex (rule_matches q) (rule_db (rev before)) then Inr () else Inl (Msg ''ENOENT'')
    | _ \<Rightarrow> Inr ())\<rparr>"

lemma fib_kernel_rule_kernel: "rule_kernel fib_kernel"
  by (auto simp: rule_kernel_def kernel_sane_def fib_kernel_def silent_kernel_def list_ex_iff
      split: list.splits nl_request.splits)

theorem shutdown_leaves_no_rule_witness:
  "\<exists>log ctx log'. rule_db log \<noteq> [] \<and> shutdown fib_kernel 80000 ctx log = Some (log', Inr ()) \<and> rule_db log' = []"
proof -
  define log where "log = fst (setup_static_rules fib_kernel 80000 [])"
  have run: "daemon_run fib_kernel ex_nl_lib all_libs 80000 (bpf_ctx_new 0) log"
    unfolding log_def by (rule daemon_run.start [of _ _ _ "snd (setup_static_rules fib_kernel 80000 [])"]) simp
  have log: "length (rule_db log) = 1"
    by (simp add: log_def setup_static_rules_def io_request_def io_bind_def io_send_def io_recv_def fib_kernel_def
        silent_kernel_def rule_db_def)
  obtain log' ctx' res where step: "watch_reload_step fib_kernel ex_nl_lib all_libs ex_drop None 70000 (bpf_ctx_new 0) log = Some (log', ctx', res)"
    and two: "length (rule_db log') = 2"
    using log
    by (simp add: watch_reload_step_def bpf_ctx_new_def Let_def reload_rules_def reload_blocker_def ex_drop_def
        oio_bind_def oio_of_def io_ret_def io_request_def io_bind_def io_send_def io_recv_def fib_kernel_def
        silent_kernel_def rule_unreachable_def rule_db_def bpf_reload_def state_default_def config_default_def matches_default_def)
  have "daemon_run fib_kernel ex_nl_lib all_libs 80000 ctx' log'"
    by (rule daemon_run.reload [OF run _ step]) (simp add: log)
  from shutdown_leaves_no_rule [OF fib_kernel_rule_kernel this] two
  have "\<exists>fin. shutdown fib_kernel 80000 ctx' log' = Some (fin, Inr ()) \<and> rule_db fin = []" by simp
  moreover have "rule_db log' \<noteq> []" using two by auto
  ultimately show ?thesis by blast
qed

end
