(* ===== verification/Process_Correct.thy ===== *)
theory Process_Correct
  imports Process Tasks_Correct Daemon_Correct
begin

text \<open>
  What a run of the daemon leaves: no routing rule of its own, whatever ended it and wherever the tasks
  were, and on disk the state to resume with.
\<close>

section \<open>Tasks that leave the rules alone\<close>

lemma io_keeps: "io_sends keeps_rules m \<Longrightarrow> rule_db (fst (m log)) = rule_db log"
  using io_sendsD rule_db_keeps by (metis prod.collapse)

lemma get_link_keeps: "io_sends keeps_rules (get_link k n)"
  unfolding get_link_def Let_def by (intro io_sends_intros) simp_all

lemma watch_routes_keeps: "io_sends keeps_rules (watch_routes_step k conf routes)"
  unfolding watch_routes_step_def
  by (intro io_sends_bind io_sends_try get_link_keeps) (auto split: sum.split intro: io_sends_intros)

lemma default_link_keeps: "io_sends keeps_rules (default_link_or_none k config)"
proof -
  have "io_sends keeps_rules (get_default_link k config)"
    unfolding get_default_link_def Let_def by (intro io_sends_intros io_sends_case_option) simp_all
  then show ?thesis unfolding default_link_or_none_def by (intro io_sends_intros)
qed

lemma multicast_keeps: "io_sends keeps_rules (watch_multicast_step k state def routes t as_route as_link)"
  unfolding watch_multicast_step_def multicast_newroute_def Let_def by (intro io_sends_intros default_link_keeps)

lemma remove_record_keeps: "io_sends keeps_rules (remove_record k table r)"
  unfolding remove_record_def by (intro io_sends_intros) (simp add: del_record_req_def)

lemma setup_record_keeps: "io_sends keeps_rules (setup_record k table redir def r dir)"
  unfolding setup_record_def by (intro io_sends_case_option io_sends_intros) (simp add: add_record_req_def)

lemma ttl_sweep_keeps: "rule_db (fst (snd (ttl_sweep k nm table now dns log))) = rule_db log"
proof (induction k nm table now dns log rule: ttl_sweep.induct)
  case (1 k nm table now dns log)
  show ?case
  proof (cases "heap_pop (dn_heap dns)")
    case None
    then show ?thesis by (subst ttl_sweep.simps) (simp split: option.split)
  next
    case (Some p)
    obtain r heap where p: "p = (r, heap)" by fastforce
    show ?thesis
      using 1 Some p io_keeps [OF remove_record_keeps, of k table r log]
      by (subst ttl_sweep.simps) (auto simp: Let_def split: option.split prod.split sum.split)
  qed
qed

lemma watch_dns_ttl_keeps: "rule_db (fst (snd (watch_dns_ttl_step k nm table now ch dns log))) = rule_db log"
  using ttl_sweep_keeps [of k nm table now dns log]
  by (auto simp: watch_dns_ttl_step_def split: option.split prod.split sum.split)

lemma setup_all_keeps: "io_sends keeps_rules (setup_all k nm table redir def c rs)"
proof (induction rs)
  case (Cons r rs)
  then show ?case
    by (simp only: setup_all.simps)
      (intro io_sends_bind io_sends_lift io_sends_case_option, auto split: prod.split intro!: io_sends_intros setup_record_keeps)
qed (auto intro: io_sends_intros)

lemma clear_table_keeps: "io_sends keeps_rules (clear_table k table)"
  unfolding clear_table_def by (intro io_sends_intros) (simp_all add: dump_table_req_def del_route_req_def)

lemma watch_dns_routes_keeps:
  "rule_db (fst (snd (watch_dns_routes_step k lib nm table conf redir def upd dns log))) = rule_db log"
proof -
  have "io_sends keeps_rules (io_bind (clear_table k table) (\<lambda>_. if b then setup_all k nm table redir def c heap else io_ret ()))" for b c heap
    by (intro io_sends_intros clear_table_keeps setup_all_keeps)
  from io_keeps [OF this, of _ _ _ log] show ?thesis
    by (auto simp: watch_dns_routes_step_def Let_def split: sum.split prod.split simp del: if_split)
qed

lemma retain_records_keeps: "rule_db (snd (snd (snd (retain_records k nm table name dest rs hash log)))) = rule_db log"
  by (induction rs arbitrary: hash log) (simp_all add: io_keeps [OF remove_record_keeps] case_prod_beta)

lemma parse_answer_keeps:
  assumes "parse_answer k nm table redir def now max_ttl st ans = Inr st'"
  shows "rule_db (snd st') = rule_db (snd st)"
  using assms io_keeps [OF setup_record_keeps]
  by (auto simp: parse_answer_def Let_def rbind_eq_Inr split: option.splits if_splits)

lemma dns_callback_keeps:
  assumes "dns_callback k nm table redir def now max_ttl data st = Inr st'"
  shows "rule_db (snd st') = rule_db (snd st)"
proof -
  have "rule_db (snd st') = rule_db (snd st)" if "rfoldl (parse_answer k nm table redir def now max_ttl) st as = Inr st'" for as st st'
    using that by (induction as arbitrary: st) (auto simp: rbind_eq_Inr dest: parse_answer_keeps)
  then show ?thesis
    using assms by (auto simp: dns_callback_def dns_parse_def split: sum.splits if_splits)
qed

section \<open>Rules are accounted for\<close>

definition tasks_accounted :: "env \<Rightarrow> tasks \<Rightarrow> bool" where
  "tasks_accounted v s \<longleftrightarrow> (\<forall>r \<in> set (rule_db (tk_log s)). accounted (ev_table v) (tk_ctx s) r)"

text \<open>A turn that neither touches the rules nor the context.\<close>

lemma tasks_accounted_keeps:
  "tasks_accounted v s \<Longrightarrow> rule_db (tk_log t) = rule_db (tk_log s) \<Longrightarrow> bc_mark (tk_ctx t) = bc_mark (tk_ctx s) \<Longrightarrow> tasks_accounted v t"
  by (simp add: tasks_accounted_def accounted_def)

lemma reload_turn_accounted:
  assumes k: "rule_kernel (ev_kernel v)" and acc: "tasks_accounted v s" and few: "length (rule_db (tk_log s)) \<le> 1000"
    and step: "task_step v (Tk_reload iface mark) s = Some t"
  shows "tasks_accounted v t"
proof (cases "tk_reload s")
  case (Rl_rules m)
  let ?first = "case bc_mark (tk_ctx s) of None \<Rightarrow> Some (tk_log s, Inr ()) | Some m \<Rightarrow> clear_rules (ev_kernel v) m (tk_log s)"
  from step Rl_rules obtain log1 r1 log2 r2 where first: "?first = Some (log1, r1)"
    and rules: "reload_rules (ev_kernel v) (ev_nl v) (ev_libs v) (w_value (ch_state (tk_ch s))) (w_value (ch_routes (tk_ch s))) m log1 = Some (log2, r2)"
    and t: "tk_log t = log2" "bc_mark (tk_ctx t) = Some m"
    by (auto simp: reload_task_def Let_def split: option.splits sum.splits prod.splits)
  obtain add where add: "log2 = log1 @ add" "list_all (owned_by (ev_nl v) m) add"
    using reload_rules_owned rules unfolding oio_sends_def by blast
  have "\<forall>r \<in> set (rule_db (tk_log s)). accounted (ev_table v) (tk_ctx s) r"
    using acc by (simp add: tasks_accounted_def)
  from reload_accounted [OF k this few first add(2) t(2)] show ?thesis
    by (simp add: tasks_accounted_def t(1) add(1))
next
  case (Rl_load m e b)
  with step acc bpf_reload_ok show ?thesis
    by (auto simp: reload_task_def Let_def intro!: tasks_accounted_keeps [OF acc] split: option.splits sum.splits prod.splits)
qed (use step acc in \<open>auto simp: reload_task_def Let_def intro!: tasks_accounted_keeps [OF acc]
    split: option.splits sum.splits prod.splits if_splits\<close>)

lemma other_turn_keeps:
  assumes "task_step v e s = Some t" and "\<forall>iface mark. e \<noteq> Tk_reload iface mark"
  shows "rule_db (tk_log t) = rule_db (tk_log s) \<and> tk_ctx t = tk_ctx s"
proof (cases e)
  case (Tk_routes)
  with assms(1) io_keeps [OF watch_routes_keeps, of "ev_kernel v" _ _ "tk_log s"] show ?thesis
    by (auto simp: routes_task_def Let_def split: if_splits prod.splits sum.splits option.splits) (metis fst_conv)+
next
  case (Tk_multicast ty as_route as_link)
  with assms(1) io_keeps [OF multicast_keeps, of "ev_kernel v" _ _ _ ty as_route as_link "tk_log s"] show ?thesis
    by (auto simp: multicast_task_def Let_def split: prod.splits sum.splits option.splits) (metis fst_conv)+
next
  case Tk_multicast_start
  with assms(1) io_keeps [OF default_link_keeps, of "ev_kernel v" _ "tk_log s"] show ?thesis
    by (auto simp: multicast_start_def Let_def split: prod.splits sum.splits) (metis fst_conv)
next
  case Tk_dns_routes
  with assms(1) watch_dns_routes_keeps [of "ev_kernel v" "ev_libs v" "ev_names v" "ev_table v" _ _ _ _ "tk_dns s" "tk_log s"] show ?thesis
    by (auto simp: dns_routes_task_def Let_def split: dns_pc.splits prod.splits sum.splits if_splits) (metis fst_conv snd_conv)+
next
  case (Tk_ttl now ch)
  with assms(1) watch_dns_ttl_keeps [of "ev_kernel v" "ev_names v" "ev_table v" now ch "tk_dns s" "tk_log s"] show ?thesis
    by (auto split: prod.splits sum.splits)
next
  case (Tk_answer now data)
  with assms(1) show ?thesis
    by (auto simp: dns_task_def Let_def split: sum.splits prod.splits dest!: dns_callback_keeps)
next
  case (Tk_retire name dest)
  with assms(1) retain_records_keeps [of "ev_kernel v" "ev_names v" "ev_table v" name dest "dn_heap (tk_dns s)" "dn_hash (tk_dns s)" "tk_log s"] show ?thesis
    by (auto simp: dns_task_def remove_records_def split: sum.splits prod.splits)
qed (use assms in \<open>auto simp: Let_def split: sum.splits prod.splits\<close>)

lemma process_step_accounted:
  assumes "rule_kernel (ev_kernel v)" and "tasks_accounted v (pr_tasks p)" and "length (rule_db (tk_log (pr_tasks p))) \<le> 1000"
    and "process_step v sd e p = Some q"
  shows "tasks_accounted v (pr_tasks q)"
proof (cases e)
  case (Pr_task a)
  with assms(4) have step: "task_step v a (pr_tasks p) = Some (pr_tasks q)" by auto
  show ?thesis
  proof (cases "\<exists>iface mark. a = Tk_reload iface mark")
    case True
    with step reload_turn_accounted [OF assms(1-3)] show ?thesis by blast
  next
    case False
    with other_turn_keeps [OF step] show ?thesis by (intro tasks_accounted_keeps [OF assms(2)]) auto
  qed
qed (use assms(2,4) in auto)

lemma process_run_accounted:
  assumes k: "rule_kernel (ev_kernel v)"
  shows "process_run v sd es p = Some q \<Longrightarrow> tasks_accounted v (pr_tasks p) \<Longrightarrow>
    (\<And>n u. process_run v sd (take n es) p = Some u \<Longrightarrow> length (rule_db (tk_log (pr_tasks u))) \<le> 1000) \<Longrightarrow> tasks_accounted v (pr_tasks q)"
proof (induction es arbitrary: p)
  case (Cons e es)
  then obtain u where u: "process_step v sd e p = Some u" "process_run v sd es u = Some q"
    by (auto simp: bind_eq_Some_conv simp del: process_step.simps)
  have few: "length (rule_db (tk_log (pr_tasks p))) \<le> 1000"
    using Cons.prems(3) [of 0] by simp
  have "length (rule_db (tk_log (pr_tasks w))) \<le> 1000" if "process_run v sd (take n es) u = Some w" for n w
    using Cons.prems(3) [of "Suc n" w] that u(1) by (simp del: process_step.simps)
  with Cons.IH [OF u(2)] process_step_accounted [OF k Cons.prems(2) few u(1)] show ?case by blast
qed simp

lemma last_turn_accounted:
  assumes k: "rule_kernel (ev_kernel v)" and acc: "tasks_accounted v s" and few: "length (rule_db (tk_log s)) \<le> 1000"
    and left: "last_turn v e s = (ctx, log)" and r: "r \<in> set (rule_db log)"
  shows "accounted (ev_table v) ctx r"
proof -
  have acc': "\<forall>r \<in> set (rule_db (tk_log s)). accounted (ev_table v) (tk_ctx s) r"
    using acc by (simp add: tasks_accounted_def)
  show ?thesis
  proof (cases "ctx = tk_ctx s \<and> rule_db log = rule_db (tk_log s)")
    case True
    with acc' r show ?thesis by auto
  next
    case False
    have keeps: "rule_db (fst (watch_routes_step (ev_kernel v) conf routes (tk_log s))) = rule_db (tk_log s)"
      "rule_db (fst (watch_multicast_step (ev_kernel v) conf d routes ty as_route as_link (tk_log s))) = rule_db (tk_log s)"
      "rule_db (fst (default_link_or_none (ev_kernel v) cf (tk_log s))) = rule_db (tk_log s)" for conf routes d ty as_route as_link cf
      by (rule io_keeps watch_routes_keeps multicast_keeps default_link_keeps)+
    obtain iface mark m err where e: "e = Tk_reload iface mark" "tk_reload s = Rl_rules m"
      and step: "watch_reload_step (ev_kernel v) (ev_nl v) (ev_libs v) (w_value (ch_state (tk_ch s))) (w_value (ch_routes (tk_ch s))) m
        (tk_ctx s) (tk_log s) = Some (log, ctx, Inl err)"
      using left False by (cases e)
        (auto simp: last_turn_def Let_def keeps watch_dns_routes_keeps watch_dns_ttl_keeps split: reload_pc.splits dns_pc.splits option.splits sum.splits)
    from reload_splits [OF step] obtain log1 r1 add where mark: "bc_mark ctx = Some m"
      and first: "(case bc_mark (tk_ctx s) of None \<Rightarrow> Some (tk_log s, Inr ()) | Some m \<Rightarrow> clear_rules (ev_kernel v) m (tk_log s)) = Some (log1, r1)"
      and add: "log = log1 @ add" "list_all (owned_by (ev_nl v) m) add" by blast
    from reload_accounted [OF k acc' few first add(2) mark] r add(1) show ?thesis by simp
  qed
qed

lemma main_start_conv:
  assumes "main_start bo sd fs v args = Some (log, Inr p)"
  obtains conn w0 files w where "load_state sd fs = Inr (w0, files)" "apply_args args w0 = Inr w"
    "setup_static_rules (ev_kernel v) (ev_table v) [] = (log, Inr conn)" "pr_tasks p = tasks_init w log"
    "pr_saver p = (case files of None \<Rightarrow> Sv_none | Some f \<Rightarrow> Sv_start f)"
  using assms
  by (auto simp: main_start_def main_prepare_def run_start_def rbind_eq_Inr split: sum.splits prod.splits if_splits)

section \<open>The rules\<close>

text \<open>
  C12: the daemon leaves the routing rules as it found them.  Start it from the command line, let calls,
  turns of the tasks and of the saver, notifications, packets and hooks come in any order, and end the run at any
  point, by a signal or by the error of a task, a reload that fails half-way among them.  As long as no
  more than 1000 rules of its own are in place at a time, the clean-up returns and no rule is left.
\<close>

theorem run_leaves_no_rule:
  assumes k: "rule_kernel (ev_kernel v)" and start: "main_start bo sd fs v args = Some (log0, Inr p0)"
    and run: "process_run v sd es p0 = Some p"
    and few: "\<And>n q. process_run v sd (take n es) p0 = Some q \<Longrightarrow> length (rule_db (tk_log (pr_tasks q))) \<le> 1000"
    and left: "left_by v cause p = (ctx, log)" "length (rule_db log) \<le> 1000"
  shows "\<exists>log'. process_end v cause p = Some (log', Inr ()) \<and> rule_db log' = []"
proof -
  obtain w res where p0: "pr_tasks p0 = tasks_init w log0" "setup_static_rules (ev_kernel v) (ev_table v) [] = (log0, Inr res)"
    using main_start_conv [OF start] by metis
  then have "tasks_accounted v (pr_tasks p0)"
    using static_accounted [OF k p0(2)] by (simp add: tasks_accounted_def tasks_init_def)
  then have acc: "tasks_accounted v (pr_tasks p)"
    using process_run_accounted [OF k run] few by blast
  have "\<forall>r \<in> set (rule_db log). accounted (ev_table v) ctx r"
  proof (cases cause)
    case None
    with left(1) acc show ?thesis by (auto simp: left_by_def tasks_accounted_def)
  next
    case (Some e)
    have "length (rule_db (tk_log (pr_tasks p))) \<le> 1000"
      using few [of "length es" p] run by simp
    with last_turn_accounted [OF k acc] left(1) Some show ?thesis by (auto simp: left_by_def)
  qed
  from shutdown_cleans [OF k this left(2)] left(1) show ?thesis by (simp add: process_end_def)
qed

section \<open>The state on disk\<close>

text \<open>A start from these files finds the state, with its counter of DNS matches recomputed, under some generation.\<close>

definition resumes :: "serde \<Rightarrow> u8 list list \<Rightarrow> State \<Rightarrow> bool" where
  "resumes sd files st \<longleftrightarrow>
    (\<exists>w f. load_state sd (fs_of files) = Inr (w, Some f) \<and> (w_value w)\<lparr>st_generation := 0\<rparr> = (counted st)\<lparr>st_generation := 0\<rparr>)"

definition pc_saver :: "State watch \<Rightarrow> saver_pc \<Rightarrow> saver option" where
  "pc_saver w pc = (case pc of Sv_none \<Rightarrow> None | Sv_start f \<Rightarrow> Some (save_begin w f) | Sv_wait sa \<Rightarrow> Some sa | Sv_sleep sa \<Rightarrow> Some sa)"

text \<open>
  The slots are in order, no more than \<open>k\<close> saves have been counted since the generation \<open>g0\<close>, and a state
  that the saver has seen is on disk.
\<close>

definition saver_inv :: "serde \<Rightarrow> u64 \<Rightarrow> nat \<Rightarrow> State watch \<Rightarrow> saver_pc \<Rightarrow> bool" where
  "saver_inv sd g0 k w pc \<longleftrightarrow> st_generation (w_value w) = g0 \<and>
    (\<exists>sa. pc_saver w pc = Some sa \<and> saver_ok sd sa \<and> unat (sa_generation sa) \<le> unat g0 + k
      \<and> fi_seen (sa_files sa) \<le> w_version w
      \<and> (fi_seen (sa_files sa) = w_version w \<longrightarrow> resumes sd (fi_files (sa_files sa)) (w_value w)))"

text \<open>A new value is a new version, and no task changes the generation in it.\<close>

lemma task_step_state:
  assumes wf: "build_wf (ev_libs v)" and step: "task_step v e s = Some t"
  shows "ch_state (tk_ch t) = ch_state (tk_ch s) \<or>
    w_version (ch_state (tk_ch t)) = Suc (w_version (ch_state (tk_ch s)))
    \<and> st_generation (w_value (ch_state (tk_ch t))) = st_generation (w_value (ch_state (tk_ch s)))"
proof (cases e)
  case (Tk_matches a)
  show ?thesis
    by (rule mtx.step_cases [OF wf, of "st_matches (w_value (ch_state (tk_ch s)))" a])
      (use step Tk_matches in \<open>auto simp: watch_send_def Let_def\<close>)
qed (use step in \<open>auto simp: watch_send_def reload_task_def routes_task_def multicast_task_def multicast_start_def dns_routes_task_def
    dns_task_def Let_def split: reload_pc.splits dns_pc.splits option.splits sum.splits prod.splits if_splits\<close>)

lemma saver_inv_state:
  assumes "saver_inv sd g0 k w pc" and "w' = w \<or> w_version w' = Suc (w_version w) \<and> st_generation (w_value w') = st_generation (w_value w)"
  shows "saver_inv sd g0 (Suc k) w' pc"
  using assms by (cases pc) (auto simp: saver_inv_def pc_saver_def save_begin_def)

lemma save_round_turn:
  assumes inv: "saver_inv sd g0 k w (Sv_sleep sa)" and rt: "serde_rt sd (w_value w)" and bound: "unat g0 + k + 1 < 2 ^ 64"
    and save: "save_round sd torn True w sa = (sa', Inr u)"
  shows "saver_inv sd g0 (Suc k) w (Sv_wait sa') \<and> fi_seen (sa_files sa') = w_version w"
proof -
  have ok: "saver_ok sd sa" and gen: "unat (sa_generation sa) + 1 < 2 ^ 64" "unat (sa_generation sa) \<le> unat g0 + k"
    using inv bound by (auto simp: saver_inv_def pc_saver_def)
  have whole: "torn = None" and seen: "fi_seen (sa_files sa') = w_version w"
    using save by (auto simp: save_round_def Let_def split: sum.splits option.splits)
  note round = save_round_holds [OF rt ok gen(1)]
  have sa': "fst (save_round sd None True w sa) = sa'" using save whole by simp
  have "resumes sd (fi_files (sa_files sa')) (w_value w)"
    using saver_holds_loads [OF round(1)] unfolding sa' resumes_def by (force simp: counted_def)
  moreover have "saver_ok sd sa'" "unat (sa_generation sa') \<le> unat g0 + Suc k"
    using round gen succ_greater [OF gen(1)] by (simp_all add: sa' saver_holds_def)
  ultimately show ?thesis
    using inv seen by (simp add: saver_inv_def pc_saver_def)
qed

lemma saver_turn_inv:
  assumes inv: "saver_inv sd g0 k w pc" and rt: "serde_rt sd (w_value w)" and bound: "unat g0 + k + 1 < 2 ^ 64"
    and turn: "saver_turn sd torn True w pc = Some pc'"
  shows "saver_inv sd g0 (Suc k) w pc'"
proof (cases pc)
  case (Sv_sleep sa)
  with turn obtain sa' u where "save_round sd torn True w sa = (sa', Inr u)" "pc' = Sv_wait sa'"
    by (auto simp: saver_turn_def split: prod.splits sum.splits)
  with save_round_turn [OF _ rt bound] inv Sv_sleep show ?thesis by blast
qed (use inv turn in \<open>auto simp: saver_turn_def saver_inv_def pc_saver_def split: if_splits\<close>)

text \<open>The writes shorten the file they have written.\<close>

fun truncates :: "process_event \<Rightarrow> bool" where
  "truncates (Pr_task e) = True"
| "truncates (Pr_save torn trunc) = trunc"

lemma process_run_saver:
  assumes wf: "build_wf (ev_libs v)"
  shows "process_run v sd es p = Some q \<Longrightarrow> saver_inv sd g0 k (state_of p) (pr_saver p) \<Longrightarrow> list_all truncates es \<Longrightarrow>
    unat g0 + k + length es < 2 ^ 64 \<Longrightarrow>
    (\<And>n u. process_run v sd (take n es) p = Some u \<Longrightarrow> serde_rt sd (w_value (state_of u))) \<Longrightarrow>
    saver_inv sd g0 (k + length es) (state_of q) (pr_saver q)"
proof (induction es arbitrary: p k)
  case (Cons e es)
  then obtain u where u: "process_step v sd e p = Some u" "process_run v sd es u = Some q"
    by (auto simp: bind_eq_Some_conv simp del: process_step.simps)
  have "serde_rt sd (w_value (state_of p))"
    using Cons.prems(5) [of 0] by simp
  then have "saver_inv sd g0 (Suc k) (state_of u) (pr_saver u)"
  proof (cases e)
    case (Pr_task a)
    with u(1) have "task_step v a (pr_tasks p) = Some (pr_tasks u)" "pr_saver u = pr_saver p" by auto
    with saver_inv_state [OF Cons.prems(2) task_step_state [OF wf]] show ?thesis by simp
  qed (use u(1) Cons.prems(2-4) in \<open>auto intro: saver_turn_inv\<close>)
  moreover have "serde_rt sd (w_value (state_of w))" if "process_run v sd (take n es) u = Some w" for n w
    using Cons.prems(5) [of "Suc n" w] that u(1) by (simp del: process_step.simps)
  ultimately show ?case
    using Cons.IH [OF u(2), of "Suc k"] Cons.prems(3,4) by simp
qed simp

lemma process_run_append: "process_run v sd (es @ fs) p = Option.bind (process_run v sd es p) (process_run v sd fs)"
  by (induction es arbitrary: p) (auto split: bind_splits)

lemma saver_stays: "process_run v sd es p = Some q \<Longrightarrow> pr_saver p \<noteq> Sv_none \<Longrightarrow> pr_saver q \<noteq> Sv_none"
proof (induction es arbitrary: p)
  case (Cons e es)
  then obtain u where u: "process_step v sd e p = Some u" "process_run v sd es u = Some q"
    by (auto simp: bind_eq_Some_conv simp del: process_step.simps)
  have "pr_saver u \<noteq> Sv_none"
    using u(1) Cons.prems(2) by (cases e) (auto simp: saver_turn_def split: saver_pc.splits prod.splits sum.splits if_splits)
  with Cons.IH u(2) show ?case by blast
qed simp

text \<open>Three turns with nothing in between, and the saver has seen the present state.\<close>

lemma saver_rests:
  assumes "process_run v sd (replicate 3 (Pr_save None True)) p = Some q" and "pr_saver p \<noteq> Sv_none"
  obtains sa where "pr_saver q = Sv_wait sa" "fi_seen (sa_files sa) = w_version (state_of q)"
proof -
  have seen: "fi_seen (sa_files sa') = w_version w" if "save_round sd None True w sa = (sa', Inr u)" for w sa sa' u
    using that by (auto simp: save_round_def Let_def split: sum.splits)
  show thesis
    using assms that
    by (cases "pr_saver p") (auto simp: numeral_3_eq_3 saver_turn_def has_changed_def dest!: seen split: prod.splits sum.splits if_splits)
qed

lemma counted_again: "load_state sd fs = Inr (w, Some f) \<Longrightarrow> counted (w_value w) = w_value w"
proof -
  assume load: "load_state sd fs = Inr (w, Some f)"
  obtain a b where ab: "fs 0 = Some a" "fs 1 = Some b" "readable sd a" "readable sd b"
    by (rule load_two_conv [OF load])
  have "counted state_default = state_default"
    by (simp add: counted_def state_default_def matches_update_def matches_default_def)
  with load_two [OF ab] load show ?thesis
    by (cases "slot_state sd a"; cases "slot_state sd b") (auto simp: counted_def matches_update_def split: if_splits)
qed

lemma loaded_resumes:
  assumes load: "load_state sd fs = Inr (w, Some f)"
  shows "resumes sd (fi_files f) (w_value w) \<and> fi_seen f = w_version w"
proof -
  obtain a b where ab: "fs 0 = Some a" "fs 1 = Some b" "readable sd a" "readable sd b"
    by (rule load_two_conv [OF load])
  have f: "fi_files f = [a, b]" "fi_seen f = w_version w"
    using load_two [OF ab] load by auto
  have "load_state sd (fs_of [a, b]) = load_state sd fs"
    using ab by (simp add: load_state_def open_two fs_of_def)
  with load f counted_again [OF load] show ?thesis by (simp add: resumes_def)
qed

lemma start_saver_inv:
  assumes "main_start bo sd fs v args = Some (log, Inr p)" and "pr_saver p \<noteq> Sv_none"
  shows "saver_inv sd (st_generation (w_value (state_of p))) 0 (state_of p) (pr_saver p)"
proof -
  obtain w0 files w where load: "load_state sd fs = Inr (w0, files)" "apply_args args w0 = Inr w"
    and p: "pr_tasks p = tasks_init w log" "pr_saver p = (case files of None \<Rightarrow> Sv_none | Some f \<Rightarrow> Sv_start f)"
    by (rule main_start_conv [OF assms(1)])
  then obtain f where f: "files = Some f" using assms(2) by (cases files) auto
  have w: "w = w0 \<or> w_version w = Suc (w_version w0) \<and> st_generation (w_value w) = st_generation (w_value w0)"
    using load(2) by (auto simp: apply_args_def watch_send_def split: if_splits)
  then have "save_begin w f = save_begin w0 f" by (auto simp: save_begin_def)
  with loaded_saver_ok loaded_resumes load(1) f w show ?thesis
    by (auto simp: saver_inv_def pc_saver_def p tasks_init_def save_begin_def)
qed

text \<open>
  C30: a restart resumes.  Start from any two slots that can be read, let calls, turns of the tasks and of the saver,
  notifications, packets and hooks come in any order, and then give the saver three turns.  The next start
  loads the switch, the output, the configuration and the matches that the service had, even if nothing
  was ever changed and whatever the slots held; provided that the format reads back what it writes of the states that the channel held.
\<close>

theorem restart_resumes:
  assumes wf: "build_wf (ev_libs v)" and start: "main_start bo sd fs v args = Some (log, Inr p0)" "pr_saver p0 \<noteq> Sv_none"
    and run: "process_run v sd (es @ replicate 3 (Pr_save None True)) p0 = Some p" and trunc: "list_all truncates es"
    and rt: "\<And>n q. process_run v sd (take n (es @ replicate 3 (Pr_save None True))) p0 = Some q \<Longrightarrow> serde_rt sd (w_value (state_of q))"
    and bound: "unat (st_generation (w_value (state_of p0))) + length es + 3 < 2 ^ 64"
  shows "\<exists>sa w f. pr_saver p = Sv_wait sa \<and> load_state sd (fs_of (fi_files (sa_files sa))) = Inr (w, Some f)
    \<and> (w_value w)\<lparr>st_generation := 0\<rparr> = (counted (w_value (state_of p)))\<lparr>st_generation := 0\<rparr>"
proof -
  obtain q where q: "process_run v sd es p0 = Some q" "process_run v sd (replicate 3 (Pr_save None True)) q = Some p"
    using run by (auto simp: process_run_append bind_eq_Some_conv)
  obtain sa where sa: "pr_saver p = Sv_wait sa" "fi_seen (sa_files sa) = w_version (state_of p)"
    by (rule saver_rests [OF q(2) saver_stays [OF q(1) start(2)]])
  have "saver_inv sd (st_generation (w_value (state_of p0))) (0 + length (es @ replicate 3 (Pr_save None True))) (state_of p) (pr_saver p)"
    using trunc bound by (intro process_run_saver [OF wf run start_saver_inv [OF start]] rt) (auto simp: numeral_3_eq_3)
  with sa show ?thesis by (auto simp: saver_inv_def pc_saver_def resumes_def)
qed

section \<open>Examples\<close>

definition ex_host :: host where
  "ex_host = \<lparr>ho_getpwnam = (\<lambda>n. None), ho_own = (1000, 1000), ho_transport = Inr Not_unix, ho_connect = (\<lambda>t. Inr 3),
     ho_threads = Some 1, ho_drop_caps = (\<lambda>uid gid. uid \<noteq> 0), ho_bus = (\<lambda>c. Inr ()), ho_serve = Inr (), ho_name = Inr ()\<rparr>"

definition ex_args :: CliArgs where
  "ex_args = \<lparr>ca_enable = False, ca_disable = False, ca_state_dir = None, ca_verbose = False, ca_dbus_user = None\<rparr>"

definition fib_env :: env where
  "fib_env = ex_env\<lparr>ev_kernel := fib_kernel, ev_table := 80000\<rparr>"

definition ex_process :: process where
  "ex_process = \<lparr>pr_tasks = tasks_init (watch_new state_default) (fst (setup_static_rules fib_kernel 80000 [])),
     pr_saver = Sv_start \<lparr>fi_seen = 0, fi_files = [[], []], fi_last_i = 0\<rparr>\<rparr>"

lemma ex_static: "\<exists>r. setup_static_rules fib_kernel 80000 [] = ([ReqNewRule r], Inr ())"
  by (simp add: setup_static_rules_def io_request_def io_bind_def io_send_def io_recv_def fib_kernel_def silent_kernel_def)

lemma ex_main_start:
  "\<exists>log. main_start ex_host ex_serde (fs_of [[], []]) fib_env ex_args = Some (log, Inr ex_process) \<and> length log = 1"
  using ex_static
  by (auto simp: main_start_def main_prepare_def ex_host_def ex_args_def ex_serde_start daemon_user_def root_conn_def run_start_def
      apply_args_def fib_env_def ex_process_def)

definition ex_change :: process_event where
  "ex_change = Pr_task (Tk_settings False '''' (st_config state_default))"

lemma ex_quiet:
  "process_run v sd es p = Some q \<Longrightarrow> w_value (state_of p) = state_default \<Longrightarrow>
    \<forall>e \<in> set es. e = ex_change \<or> (\<exists>torn trunc. e = Pr_save torn trunc) \<Longrightarrow> w_value (state_of q) = state_default"
proof (induction es arbitrary: p)
  case (Cons e es)
  then obtain u where u: "process_step v sd e p = Some u" "process_run v sd es u = Some q"
    by (auto simp: bind_eq_Some_conv simp del: process_step.simps)
  have "w_value (state_of u) = state_default"
    using u(1) Cons.prems(2,3) by (auto simp: ex_change_def watch_send_def state_default_def Let_def)
  with Cons.IH [OF u(2)] Cons.prems(3) show ?case by simp
qed simp

theorem restart_resumes_witness:
  "\<exists>p sa w f. process_run fib_env ex_serde ([ex_change] @ replicate 3 (Pr_save None True)) ex_process = Some p
    \<and> pr_saver p = Sv_wait sa \<and> sa_generation sa = 1
    \<and> load_state ex_serde (fs_of (fi_files (sa_files sa))) = Inr (w, Some f)
    \<and> (w_value w)\<lparr>st_generation := 0\<rparr> = (counted state_default)\<lparr>st_generation := 0\<rparr>"
proof -
  obtain p where run: "process_run fib_env ex_serde ([ex_change] @ replicate 3 (Pr_save None True)) ex_process = Some p"
    and gen: "\<forall>sa. pr_saver p = Sv_wait sa \<longrightarrow> sa_generation sa = 1"
    by (simp add: ex_process_def ex_change_def numeral_3_eq_3 saver_turn_def save_begin_def tasks_init_def watch_new_def watch_send_def
        has_changed_def save_round_def idx_def state_default_def Let_def)
  obtain log where start: "main_start ex_host ex_serde (fs_of [[], []]) fib_env ex_args = Some (log, Inr ex_process)"
    using ex_main_start by blast
  have quiet: "w_value (state_of q) = state_default"
    if "process_run fib_env ex_serde (take n ([ex_change] @ replicate 3 (Pr_save None True))) ex_process = Some q" for n q
    by (rule ex_quiet [OF that]) (auto simp: ex_process_def tasks_init_def watch_new_def dest!: in_set_takeD)
  have "build_wf (ev_libs fib_env)" using ex_env_facts(1) by (simp add: fib_env_def)
  from restart_resumes [OF this start _ run] quiet ex_serde_rt obtain sa w f where sa: "pr_saver p = Sv_wait sa"
    "load_state ex_serde (fs_of (fi_files (sa_files sa))) = Inr (w, Some f)"
    "(w_value w)\<lparr>st_generation := 0\<rparr> = (counted (w_value (state_of p)))\<lparr>st_generation := 0\<rparr>"
    by (auto simp: ex_process_def ex_change_def tasks_init_def watch_new_def state_default_def)
  moreover have "w_value (state_of p) = state_default" using quiet [of 4 p] run by simp
  ultimately show ?thesis using run gen by auto
qed

lemma process_prefix:
  assumes "process_run v sd (take n (e # es)) p = Some q"
  shows "q = p \<or> (\<exists>u m. process_step v sd e p = Some u \<and> process_run v sd (take m es) u = Some q)"
  using assms by (cases n) (auto simp: bind_eq_Some_conv simp del: process_step.simps)

lemma rule_db_length: "length (rule_db log) \<le> length log"
proof (induction log rule: rev_induct)
  case (snoc r log)
  have "length (drop_first P xs) \<le> length xs" for P and xs :: "rule_req list"
    by (induction xs) auto
  with snoc show ?case by (cases r) (auto simp: rule_db_def intro: order_trans le_SucI)
qed (simp add: rule_db_def)

text \<open>A daemon without an output is told to block, and is stopped before the load: the rule that blocks is in place.\<close>

definition ex_block :: "process_event list" where
  "ex_block = [Pr_task (Tk_settings True '''' (st_config ex_drop)), Pr_task (Tk_reload (Inr ()) 70000), Pr_task (Tk_reload (Inr ()) 70000)]"

lemma ex_block_rules:
  "\<exists>q b. reload_rules fib_kernel ex_nl_lib two_libs ex_drop None 70000 [ReqNewRule r] = Some ([ReqNewRule r, ReqNewRule q], Inr (False, b))"
  by (simp add: reload_rules_def reload_blocker_def oio_bind_def oio_of_def io_ret_def io_request_def io_bind_def io_send_def io_recv_def
      fib_kernel_def silent_kernel_def rule_unreachable_def state_default_def config_default_def ex_drop_def)

lemma ex_block_run:
  obtains p1 p2 p3 where "process_step fib_env ex_serde (ex_block ! 0) ex_process = Some p1"
    "process_step fib_env ex_serde (ex_block ! 1) p1 = Some p2" "process_step fib_env ex_serde (ex_block ! 2) p2 = Some p3"
    "length (tk_log (pr_tasks p1)) = 1" "length (tk_log (pr_tasks p2)) = 1" "length (tk_log (pr_tasks p3)) = 2"
    "rule_db (tk_log (pr_tasks p3)) \<noteq> []"
proof -
  obtain r where r: "setup_static_rules fib_kernel 80000 [] = ([ReqNewRule r], Inr ())" using ex_static by blast
  obtain q b where rules: "reload_rules fib_kernel ex_nl_lib two_libs ex_drop None 70000 [ReqNewRule r] = Some ([ReqNewRule r, ReqNewRule q], Inr (False, b))"
    using ex_block_rules by blast
  have drop: "state_default\<lparr>st_enable := True, st_to_dev := '''', st_config := st_config ex_drop\<rparr> = ex_drop"
    by (simp add: ex_drop_def state_default_def)
  obtain p1 where p1: "process_step fib_env ex_serde (ex_block ! 0) ex_process = Some p1" "w_value (state_of p1) = ex_drop"
    "w_value (ch_routes (tk_ch (pr_tasks p1))) = None" "tk_log (pr_tasks p1) = [ReqNewRule r]" "tk_reload (pr_tasks p1) = Rl_wait"
    "tk_reload_seen (pr_tasks p1) \<noteq> reload_seen (tk_ch (pr_tasks p1))" "bc_mark (tk_ctx (pr_tasks p1)) = None"
    using drop by (simp add: ex_block_def ex_process_def r tasks_init_def watch_new_def watch_send_def reload_seen_def bpf_ctx_new_def Let_def)
  obtain p2 where p2: "process_step fib_env ex_serde (ex_block ! 1) p1 = Some p2" "w_value (state_of p2) = ex_drop"
    "w_value (ch_routes (tk_ch (pr_tasks p2))) = None" "tk_log (pr_tasks p2) = [ReqNewRule r]" "tk_reload (pr_tasks p2) = Rl_rules 70000"
    "bc_mark (tk_ctx (pr_tasks p2)) = None"
    using p1 reload_changed [OF p1(6)] by (simp add: ex_block_def reload_task_def Let_def)
  obtain p3 where "process_step fib_env ex_serde (ex_block ! 2) p2 = Some p3" "tk_log (pr_tasks p3) = [ReqNewRule r, ReqNewRule q]"
    using p2 rules by (simp add: ex_block_def reload_task_def Let_def fib_env_def ex_env_def)
  with p1 p2 show thesis by (intro that [of p1 p2 p3]) (simp_all add: rule_db_def)
qed

theorem run_leaves_no_rule_witness:
  "\<exists>p log. process_run fib_env ex_serde ex_block ex_process = Some p \<and> rule_db (tk_log (pr_tasks p)) \<noteq> []
    \<and> process_end fib_env None p = Some (log, Inr ()) \<and> rule_db log = []"
proof -
  obtain p1 p2 p3 where p: "process_step fib_env ex_serde (ex_block ! 0) ex_process = Some p1"
    "process_step fib_env ex_serde (ex_block ! 1) p1 = Some p2" "process_step fib_env ex_serde (ex_block ! 2) p2 = Some p3"
    and len: "length (tk_log (pr_tasks p1)) = 1" "length (tk_log (pr_tasks p2)) = 1" "length (tk_log (pr_tasks p3)) = 2"
    and rules: "rule_db (tk_log (pr_tasks p3)) \<noteq> []"
    by (rule ex_block_run)
  have es: "ex_block = [ex_block ! 0, ex_block ! 1, ex_block ! 2]" by (simp add: ex_block_def)
  have run: "process_run fib_env ex_serde ex_block ex_process = Some p3"
    using p by (subst es) (simp del: process_step.simps)
  obtain log0 where start: "main_start ex_host ex_serde (fs_of [[], []]) fib_env ex_args = Some (log0, Inr ex_process)"
    using ex_main_start by blast
  have "length (tk_log (pr_tasks ex_process)) = 1"
    using ex_static by (auto simp: ex_process_def tasks_init_def)
  with len have few: "length (rule_db (tk_log (pr_tasks q))) \<le> 1000" if "q \<in> {ex_process, p1, p2, p3}" for q
    using that rule_db_length [of "tk_log (pr_tasks q)"] by auto
  have reach: "q \<in> {ex_process, p1, p2, p3}" if "process_run fib_env ex_serde (take n ex_block) ex_process = Some q" for n q
  proof -
    have "process_run fib_env ex_serde (take n [ex_block ! 0, ex_block ! 1, ex_block ! 2]) ex_process = Some q"
      using that by (simp only: es [symmetric])
    with p show ?thesis by (auto simp del: process_step.simps take_Cons' dest!: process_prefix)
  qed
  have "rule_kernel (ev_kernel fib_env)" by (simp add: fib_env_def fib_kernel_rule_kernel)
  moreover have "left_by fib_env None p3 = (tk_ctx (pr_tasks p3), tk_log (pr_tasks p3))" by (simp add: left_by_def)
  ultimately have "\<exists>log. process_end fib_env None p3 = Some (log, Inr ()) \<and> rule_db log = []"
    using few by (intro run_leaves_no_rule [OF _ start run]) (auto dest: reach)
  with run rules show ?thesis by blast
qed

end
