(* ===== verification/Privileges.thy ===== *)
theory Privileges
  imports Process_Correct
begin

text \<open>
  The two processes of \<^verbatim>\<open>main.rs\<close>: how the programs are loaded (\<^verbatim>\<open>bpf_init\<close> of \<^verbatim>\<open>bpf-load.c\<close>), how the daemon
  gives up its privileges (\<^verbatim>\<open>bpf_drop_caps\<close>), and the loop of the helper that keeps them.
\<close>

section \<open>Credentials\<close>

text \<open>What \<^verbatim>\<open>credentials(7)\<close> and \<^verbatim>\<open>capabilities(7)\<close> keep of a process; capabilities are their numbers.\<close>

record creds =
  cr_ruid :: u32
  cr_euid :: u32
  cr_suid :: u32
  cr_rgid :: u32
  cr_egid :: u32
  cr_sgid :: u32
  cr_groups :: "u32 list"
  cr_permitted :: "nat set"
  cr_effective :: "nat set"
  cr_inheritable :: "nat set"
  cr_keepcaps :: bool
  cr_no_new_privs :: bool

text \<open>The calls that change them, in \<open>Cap_set\<close> effective, permitted and inheritable set.\<close>

datatype cred_call =
    Set_keepcaps bool
  | Setresgid u32 u32 u32
  | Setresuid u32 u32 u32
  | Cap_set "nat set" "nat set" "nat set"
  | Set_no_new_privs

definition CAP_NET_ADMIN :: nat where "CAP_NET_ADMIN = 12"

text \<open>
  \<open>sys\<close> is the kernel, \<open>None\<close> a call that fails; the result \<open>None\<close> is the exit of a failed \<^verbatim>\<open>EXPECT\<close>.  The
  first \<^verbatim>\<open>prctl\<close> may fail.
\<close>

definition bpf_drop_caps :: "(cred_call \<Rightarrow> creds \<Rightarrow> creds option) \<Rightarrow> u32 \<Rightarrow> u32 \<Rightarrow> creds \<Rightarrow> creds option" where
  "bpf_drop_caps sys uid gid c =
    (let c = (case sys (Set_keepcaps True) c of None \<Rightarrow> c | Some c \<Rightarrow> c)
     in Option.bind
       (if cr_ruid c = 0 then
          let uid = (if uid = 0 then 65534 else uid); gid = (if gid = 0 then 65534 else gid)
          in Option.bind (sys (Setresgid gid gid gid) c) (\<lambda>c.
             Option.bind (sys (Setresuid uid uid uid) c) (\<lambda>c.
             if cr_ruid c \<noteq> 0 \<and> cr_euid c \<noteq> 0 then Some c else None))
        else Some c) (\<lambda>c.
     Option.bind (sys (Cap_set {CAP_NET_ADMIN} {CAP_NET_ADMIN} {}) c) (\<lambda>c.
     Option.bind (sys (Set_keepcaps False) c) (\<lambda>c.
     sys Set_no_new_privs c))))"

section \<open>The kernel as documented\<close>

text \<open>An identity of \<open>-1\<close> leaves the present one.\<close>

definition new_id :: "u32 \<Rightarrow> u32 \<Rightarrow> u32" where
  "new_id x old = (if x = -1 then old else x)"

text \<open>Leaving user 0 clears the effective set, and the permitted set unless \<^verbatim>\<open>PR_SET_KEEPCAPS\<close> is on.\<close>

fun cred_effect :: "cred_call \<Rightarrow> creds \<Rightarrow> creds" where
  "cred_effect (Set_keepcaps k) c = c\<lparr>cr_keepcaps := k\<rparr>"
| "cred_effect (Setresgid r e s) c = c\<lparr>cr_rgid := new_id r (cr_rgid c), cr_egid := new_id e (cr_egid c), cr_sgid := new_id s (cr_sgid c)\<rparr>"
| "cred_effect (Setresuid r e s) c =
    (let r = new_id r (cr_ruid c); e = new_id e (cr_euid c); s = new_id s (cr_suid c);
         left = ((cr_ruid c = 0 \<or> cr_euid c = 0 \<or> cr_suid c = 0) \<and> r \<noteq> 0 \<and> e \<noteq> 0 \<and> s \<noteq> 0);
         p = (if left \<and> \<not> cr_keepcaps c then {} else cr_permitted c)
     in c\<lparr>cr_ruid := r, cr_euid := e, cr_suid := s, cr_permitted := p,
          cr_effective := (if left \<or> cr_euid c = 0 \<and> e \<noteq> 0 then {} else if cr_euid c \<noteq> 0 \<and> e = 0 then p else cr_effective c)\<rparr>)"
| "cred_effect (Cap_set e p i) c = c\<lparr>cr_effective := e, cr_permitted := p, cr_inheritable := i\<rparr>"
| "cred_effect Set_no_new_privs c = c\<lparr>cr_no_new_privs := True\<rparr>"

text \<open>A call that succeeds has its effect, and nobody gains a capability.\<close>

definition creds_documented :: "(cred_call \<Rightarrow> creds \<Rightarrow> creds option) \<Rightarrow> bool" where
  "creds_documented sys \<longleftrightarrow> (\<forall>call c c'. sys call c = Some c' \<longrightarrow> c' = cred_effect call c \<and>
    (\<forall>e p i. call = Cap_set e p i \<longrightarrow> p \<subseteq> cr_permitted c \<and> e \<subseteq> p))"

text \<open>The fields that the calls after the change of user leave.\<close>

lemma drop_caps_result:
  assumes sys: "creds_documented sys" and run: "bpf_drop_caps sys uid gid c = Some c'"
  shows "cr_permitted c' = {CAP_NET_ADMIN} \<and> cr_effective c' = {CAP_NET_ADMIN} \<and> cr_inheritable c' = {}
    \<and> \<not> cr_keepcaps c' \<and> cr_no_new_privs c' \<and> cr_groups c' = cr_groups c
    \<and> (cr_ruid c = 0 \<longrightarrow> cr_ruid c' \<noteq> 0 \<and> cr_euid c' \<noteq> 0 \<and> cr_suid c' \<noteq> 0
        \<and> (gid \<noteq> -1 \<longrightarrow> cr_rgid c' \<noteq> 0 \<and> cr_egid c' \<noteq> 0 \<and> cr_sgid c' \<noteq> 0))
    \<and> (cr_ruid c \<noteq> 0 \<longrightarrow> cr_euid c' = cr_euid c)"
proof -
  have eff: "x' = cred_effect call x" if "sys call x = Some x'" for call x x'
    using sys that by (simp add: creds_documented_def)
  define c1 where "c1 = (case sys (Set_keepcaps True) c of None \<Rightarrow> c | Some c \<Rightarrow> c)"
  have c1: "cr_ruid c1 = cr_ruid c" "cr_euid c1 = cr_euid c" "cr_groups c1 = cr_groups c"
    using eff [of "Set_keepcaps True" c] by (auto simp: c1_def split: option.split)
  obtain c2 where c2: "(if cr_ruid c1 = 0 then
          let uid = (if uid = 0 then 65534 else uid); gid = (if gid = 0 then 65534 else gid)
          in Option.bind (sys (Setresgid gid gid gid) c1) (\<lambda>c.
             Option.bind (sys (Setresuid uid uid uid) c) (\<lambda>c.
             if cr_ruid c \<noteq> 0 \<and> cr_euid c \<noteq> 0 then Some c else None))
        else Some c1) = Some c2"
    and rest: "Option.bind (sys (Cap_set {CAP_NET_ADMIN} {CAP_NET_ADMIN} {}) c2) (\<lambda>c.
     Option.bind (sys (Set_keepcaps False) c) (\<lambda>c. sys Set_no_new_privs c)) = Some c'"
    using run unfolding bpf_drop_caps_def c1_def [symmetric] Let_def by (auto simp: bind_eq_Some_conv split: if_splits)
  have user: "cr_groups c2 = cr_groups c \<and> (cr_ruid c \<noteq> 0 \<longrightarrow> cr_euid c2 = cr_euid c) \<and>
      (cr_ruid c = 0 \<longrightarrow> cr_ruid c2 \<noteq> 0 \<and> cr_euid c2 \<noteq> 0 \<and> cr_suid c2 \<noteq> 0
        \<and> (gid \<noteq> -1 \<longrightarrow> cr_rgid c2 \<noteq> 0 \<and> cr_egid c2 \<noteq> 0 \<and> cr_sgid c2 \<noteq> 0))"
    using c2 c1 by (auto simp: bind_eq_Some_conv Let_def new_id_def dest!: eff split: if_splits)
  then show ?thesis
    using rest by (auto simp: bind_eq_Some_conv dest!: eff)
qed

section \<open>Loading the programs\<close>

text \<open>The limit on locked memory, and the links that the loader keeps.\<close>

datatype rlimit = Rlimit nat nat | Rlim_infinity

record links =
  ln_reload_config_fd :: int
  ln_iter_file_fd :: int
  ln_dump_socket_procs_fd :: int
  ln_last_gen :: u64
  ln_last_mark :: u32

text \<open>
  The answers of the kernel and of libbpf: the limit, if it can be read, and whether one can be set; whether the object
  opens and loads; the descriptor of the control group; whether a program can be attached to it, the
  link of an attached iterator; descriptors of links and programs.
\<close>

record bpf_os =
  bo_getrlimit :: bool
  bo_setrlimit :: "rlimit \<Rightarrow> bool"
  bo_open :: bool
  bo_load :: bool
  bo_cgroup_fd :: int
  bo_attach_cgroup :: "string \<Rightarrow> bool"
  bo_attach_iter :: "string \<Rightarrow> nat option"
  bo_link_fd :: "nat \<Rightarrow> int"
  bo_program_fd :: "string \<Rightarrow> int"

definition expect :: "bool \<Rightarrow> unit option" where
  "expect b = (if b then Some () else None)"

text \<open>The limit afterwards, the links and the programs that run, in the order they were attached.\<close>

definition bpf_init :: "bpf_os \<Rightarrow> rlimit \<Rightarrow> (rlimit \<times> links \<times> string list) option" where
  "bpf_init os limit =
    Option.bind (expect (bo_getrlimit os)) (\<lambda>_. let rlim_old = limit in
    Option.bind (expect (bo_setrlimit os Rlim_infinity)) (\<lambda>_. let limit = Rlim_infinity in
    Option.bind (expect (bo_open os)) (\<lambda>_.
    Option.bind (expect (bo_load os)) (\<lambda>_.
    Option.bind (expect (0 \<le> bo_cgroup_fd os)) (\<lambda>_.
    Option.bind (expect (bo_attach_cgroup os ''cgroup_socket_create'')) (\<lambda>_.
    Option.bind (bo_attach_iter os ''refresh_sockets'') (\<lambda>iter_file.
    Option.bind (bo_attach_iter os ''dump_socket_procs'') (\<lambda>dump_file.
    Option.bind (expect (bo_attach_cgroup os ''ingress'')) (\<lambda>_.
    Option.bind (expect (bo_setrlimit os rlim_old)) (\<lambda>_. let limit = rlim_old in
    Some (limit,
      \<lparr>ln_reload_config_fd = bo_program_fd os ''reload_config'', ln_iter_file_fd = bo_link_fd os iter_file,
        ln_dump_socket_procs_fd = bo_link_fd os dump_file, ln_last_gen = 0, ln_last_mark = 0\<rparr>,
      [''cgroup_socket_create'', ''refresh_sockets'', ''dump_socket_procs'', ''ingress''])))))))))))"

text \<open>The limit is raised for the load only, and a process that goes on has its four programs attached.\<close>

lemma bpf_init_ok:
  assumes "bpf_init os limit = Some (limit', ln, progs)"
  shows "limit' = limit \<and> ln_last_gen ln = 0 \<and> length progs = 4
    \<and> bo_attach_cgroup os ''cgroup_socket_create'' \<and> bo_attach_cgroup os ''ingress''"
  using assms by (auto simp: bpf_init_def expect_def Let_def bind_eq_Some_conv split: if_splits)

section \<open>The helper\<close>

text \<open>
  The loop of the process that \<^verbatim>\<open>fork\<close> leaves with its privileges, on what the daemon writes: the marks
  that it gives to the sockets, its answers, and the error that ends it.  \<open>n\<close> answers can be written before the
  daemon closes its end.
\<close>

fun helper_loop :: "nat \<Rightarrow> u8 list \<Rightarrow> u32 list \<times> u8 list \<times> error" where
  "helper_loop n (a # b # c # d # input) =
    (case n of
       0 \<Rightarrow> ([from_ne_bytes a b c d], [], Msg ''Broken pipe'')
     | Suc n \<Rightarrow> (case helper_loop n input of (marks, answers, e) \<Rightarrow> (from_ne_bytes a b c d # marks, to_ne_bytes 0 @ answers, e)))"
| "helper_loop n input = ([], [], Msg ''failed to fill whole buffer'')"

text \<open>Each exchange of the daemon is a round of the loop, in order, and what it reads back is one answer.\<close>

lemma helper_serves:
  "helper_loop (length marks + n) (concat (map to_ne_bytes marks) @ input) =
    (case helper_loop n input of (marks', answers, e) \<Rightarrow> (marks @ marks', concat (map (\<lambda>m. to_ne_bytes 0) marks) @ answers, e))"
proof (induction marks)
  case (Cons m marks)
  obtain a b c d where m: "to_ne_bytes m = [a, b, c, d]" by (simp add: to_ne_bytes_def)
  with from_to_ne_bytes [of m] have "from_ne_bytes a b c d = m" by simp
  with Cons m show ?case by (simp split: prod.split)
qed (simp split: prod.split)

section \<open>A daemon started by root\<close>

text \<open>The start of the process on this kernel, for the user that \<open>c\<close> stands for.\<close>

definition start_as :: "(cred_call \<Rightarrow> creds \<Rightarrow> creds option) \<Rightarrow> creds \<Rightarrow> host \<Rightarrow> host" where
  "start_as sys c bo = bo\<lparr>ho_own := (cr_ruid c, cr_rgid c), ho_drop_caps := (\<lambda>uid gid. bpf_drop_caps sys uid gid c \<noteq> None)\<rparr>"

definition linux :: "cred_call \<Rightarrow> creds \<Rightarrow> creds option" where
  "linux call c = (case call of
      Cap_set e p i \<Rightarrow> if p \<subseteq> cr_permitted c \<and> e \<subseteq> p then Some (cred_effect call c) else None
    | _ \<Rightarrow> Some (cred_effect call c))"

lemma linux_documented: "creds_documented linux"
  by (auto simp: creds_documented_def linux_def split: cred_call.splits if_splits)

definition root_creds :: creds where
  "root_creds = \<lparr>cr_ruid = 0, cr_euid = 0, cr_suid = 0, cr_rgid = 0, cr_egid = 0, cr_sgid = 0, cr_groups = [0, 27],
     cr_permitted = {..40}, cr_effective = {..40}, cr_inheritable = {}, cr_keepcaps = False, cr_no_new_privs = False\<rparr>"

definition user_args :: CliArgs where
  "user_args = ex_args\<lparr>ca_dbus_user := Some ''rebpf''\<rparr>"

definition user_host :: host where
  "user_host = ex_host\<lparr>ho_getpwnam := (\<lambda>n. Some \<lparr>pw_uid = 7, pw_gid = 8\<rparr>)\<rparr>"

text \<open>
  C8: the daemon does not run as root.  If the tasks of a daemon are started on a kernel whose calls have
  their documented effect, the process that runs them holds the capability to administer the network and no other,
  cannot gain one by executing a program, and if it was started by root, none of its
  user ids is root, nor is any of its group ids unless the group asked for is \<open>-1\<close>.  Its supplementary groups are
  those it was started with.
\<close>

theorem started_unprivileged:
  assumes sys: "creds_documented sys" and start: "main_start (start_as sys c bo) sd fs v args = Some (log, Inr p)"
  shows "\<exists>uid gid c'. daemon_user (ho_getpwnam bo) (cr_ruid c, cr_rgid c) args = Inr (uid, gid) \<and> bpf_drop_caps sys uid gid c = Some c'
    \<and> cr_permitted c' = {CAP_NET_ADMIN} \<and> cr_effective c' = {CAP_NET_ADMIN} \<and> cr_inheritable c' = {}
    \<and> \<not> cr_keepcaps c' \<and> cr_no_new_privs c' \<and> cr_groups c' = cr_groups c
    \<and> (cr_ruid c = 0 \<longrightarrow> cr_ruid c' \<noteq> 0 \<and> cr_euid c' \<noteq> 0 \<and> cr_suid c' \<noteq> 0
        \<and> (gid \<noteq> -1 \<longrightarrow> cr_rgid c' \<noteq> 0 \<and> cr_egid c' \<noteq> 0 \<and> cr_sgid c' \<noteq> 0))"
proof -
  obtain uid gid c' where c': "daemon_user (ho_getpwnam bo) (cr_ruid c, cr_rgid c) args = Inr (uid, gid)" "bpf_drop_caps sys uid gid c = Some c'"
    using start by (auto simp: main_start_def main_prepare_def start_as_def rbind_eq_Inr split: sum.splits if_splits prod.splits)
  with drop_caps_result [OF sys c'(2)] show ?thesis by blast
qed

theorem started_unprivileged_witness:
  "\<exists>c'. bpf_drop_caps linux 7 7 root_creds = Some c' \<and> cr_permitted c' = {CAP_NET_ADMIN} \<and> cr_ruid c' \<noteq> 0 \<and> cr_groups c' = [0, 27]"
proof -
  have "\<not> list_all is_digit ''rebpf''" by code_simp
  then have user: "daemon_user (ho_getpwnam user_host) (cr_ruid root_creds, cr_rgid root_creds) user_args = Inr (7, 7)"
    by (simp only: daemon_user_def user_args_def) (simp add: user_host_def del: list.pred_inject)
  have drop: "bpf_drop_caps linux 7 7 root_creds \<noteq> None"
    by (simp add: bpf_drop_caps_def linux_def root_creds_def CAP_NET_ADMIN_def new_id_def)
  have host: "daemon_user (ho_getpwnam (start_as linux root_creds user_host)) (ho_own (start_as linux root_creds user_host)) user_args = Inr (7, 7)"
    "ho_drop_caps (start_as linux root_creds user_host) 7 7" "ho_threads (start_as linux root_creds user_host) = Some 1"
    "ho_bus (start_as linux root_creds user_host) conn = Inr ()" "ho_serve (start_as linux root_creds user_host) = Inr ()"
    "ho_name (start_as linux root_creds user_host) = Inr ()" for conn
    using user drop by (simp_all add: start_as_def user_host_def ex_host_def)
  have prepare: "main_prepare (start_as linux root_creds user_host) ex_serde (fs_of [[], []]) user_args =
      Inr ((7, 7), None, watch_new state_default, Some \<lparr>fi_seen = 0, fi_files = [[], []], fi_last_i = 0\<rparr>)"
    by (simp add: main_prepare_def host(1,3) ex_serde_start root_conn_def)
  have "\<exists>log. run_start (ev_kernel fib_env) (ev_table fib_env) user_args (Inr ()) (Inr ()) (Inr ()) (watch_new state_default) [] =
      (log, Inr (watch_new state_default)) \<and> log = fst (setup_static_rules fib_kernel 80000 [])"
    using ex_static by (auto simp: run_start_def apply_args_def fib_env_def user_args_def ex_args_def)
  then obtain log where "main_start (start_as linux root_creds user_host) ex_serde (fs_of [[], []]) fib_env user_args = Some (log, Inr ex_process)"
    by (auto simp: main_start_def prepare host(2,4,5,6) ex_process_def)
  from started_unprivileged [OF linux_documented this] user show ?thesis
    by (auto simp: root_creds_def)
qed

end
