(* ===== verification/Loader.thy ===== *)
theory Loader
  imports Hooks Service Rust_Text
begin

text \<open>
  The privileged side of \<^verbatim>\<open>rebpf/bpf-load.c\<close>: the start time of a process from \<^verbatim>\<open>/proc\<close>, the marking of
  the sockets that the iterator reports, and the buffer of process names.  The system calls are
  parameters; \<open>None\<close> is the end of the process, by a failed \<^verbatim>\<open>EXPECT\<close> or a memory error.
\<close>

section \<open>Reading\<close>

text \<open>
  What the successive calls of \<^verbatim>\<open>read\<close> give; after the last one it gives 0.  \<open>Rd_again\<close> is an error after
  which the loop tries again.
\<close>

datatype 'a read_res = Rd 'a | Rd_again | Rd_fail

section \<open>Start time of a process\<close>

text \<open>The functions of the C library, a pointer into a string being the rest of it.\<close>

definition c_strrchr :: "char \<Rightarrow> string \<Rightarrow> string option" where
  "c_strrchr c s = (if c \<in> set s then Some (c # rev (takeWhile (\<lambda>x. x \<noteq> c) (rev s))) else None)"

definition c_strchr :: "char \<Rightarrow> string \<Rightarrow> string option" where
  "c_strchr c s = (case dropWhile (\<lambda>x. x \<noteq> c) s of [] \<Rightarrow> None | t \<Rightarrow> Some t)"

definition is_space :: "char \<Rightarrow> bool" where
  "is_space c \<longleftrightarrow> c = CHR '' '' \<or> (9 :: nat) \<le> of_char c \<and> (of_char c :: nat) \<le> 13"

definition c_strtoull :: "string \<Rightarrow> u64" where
  "c_strtoull s =
    (let t = dropWhile is_space s;
         neg = (t \<noteq> [] \<and> hd t = CHR ''-'');
         u = (if t \<noteq> [] \<and> (hd t = CHR ''-'' \<or> hd t = CHR ''+'') then tl t else t);
         v = digits_val (takeWhile is_digit u)
     in if 2 ^ 64 \<le> v then -1 else if neg then - of_nat v else of_nat v)"

definition STAT_BUF :: nat where "STAT_BUF = 1024"

text \<open>The loop that fills the buffer; a read into a full buffer gives 0.  \<open>None\<close> is \<^verbatim>\<open>return 0\<close>.\<close>

fun stat_read :: "string \<Rightarrow> string read_res list \<Rightarrow> string option" where
  "stat_read buf [] = Some buf"
| "stat_read buf (Rd_again # rs) = stat_read buf rs"
| "stat_read buf (Rd_fail # rs) = None"
| "stat_read buf (Rd b # rs) =
    (if length buf = STAT_BUF \<or> b = [] then Some buf else stat_read (buf @ take (STAT_BUF - length buf) b) rs)"

text \<open>\<open>for (i = 0; *seek && i < 20; ++i) seek = strchr(seek + 1, ' ')\<close>; a null pointer is read.\<close>

fun stat_seek :: "nat \<Rightarrow> string \<Rightarrow> string option" where
  "stat_seek 0 s = Some s"
| "stat_seek (Suc n) [] = Some []"
| "stat_seek (Suc n) (c # s) = Option.bind (c_strchr CHR '' '' s) (stat_seek n)"

text \<open>
  \<open>stat\<close> is the file, if it can be opened.  The end of the string is written one past the buffer when
  that is full.
\<close>

definition proc_get_start_time :: "u64 \<Rightarrow> string read_res list option \<Rightarrow> u64 option" where
  "proc_get_start_time clk_tck stat =
    (case stat of
       None \<Rightarrow> Some 0
     | Some rs \<Rightarrow>
       (case stat_read [] rs of
          None \<Rightarrow> Some 0
        | Some buf \<Rightarrow>
          if STAT_BUF \<le> length buf then None
          else Option.bind (c_strrchr CHR '')'' buf) (\<lambda>seek.
               Option.bind (stat_seek 20 seek) (\<lambda>seek. Some (c_strtoull seek div clk_tck)))))"

section \<open>Marking a socket\<close>

text \<open>
  \<^verbatim>\<open>pidfd_open\<close>, \<^verbatim>\<open>pidfd_getfd\<close>, the \<^verbatim>\<open>stat\<close> file of a process, \<^verbatim>\<open>setsockopt\<close> with its error, and
  \<^verbatim>\<open>_SC_CLK_TCK\<close>.  Sockets are numbered, whoever holds them.
\<close>

type_synonym sock_id = nat

record proc_os =
  os_pidfd :: "u32 \<Rightarrow> string + nat"
  os_getfd :: "nat \<Rightarrow> u32 \<Rightarrow> string + sock_id"
  os_stat :: "u32 \<Rightarrow> string read_res list option"
  os_setmark_err :: "sock_id \<Rightarrow> string option"
  os_clk_tck :: u64

text \<open>The result is the error message, if there is one, and the marks of all sockets.\<close>

definition proc_set_mark ::
  "proc_os \<Rightarrow> u32 \<Rightarrow> u64 \<Rightarrow> u32 \<Rightarrow> u32 \<Rightarrow> (sock_id \<Rightarrow> u32) \<Rightarrow> ((sock_id \<Rightarrow> u32) \<times> string option) option" where
  "proc_set_mark os pid start_time fd fwmark marks =
    (case os_pidfd os pid of
       Inl e \<Rightarrow> Some (marks, Some e)
     | Inr pidfd \<Rightarrow>
       (case os_getfd os pidfd fd of
          Inl e \<Rightarrow> Some (marks, Some e)
        | Inr sock \<Rightarrow>
          Option.bind (proc_get_start_time (os_clk_tck os) (os_stat os pid)) (\<lambda>time.
            Some (if time \<noteq> start_time then (marks, Some ''Mismatch in starttime'')
                  else case os_setmark_err os sock of
                         Some e \<Rightarrow> (marks, Some e)
                       | None \<Rightarrow> (marks(sock := fwmark), None)))))"

definition NS_PER_SEC :: u64 where "NS_PER_SEC = 1000000000"

text \<open>The loop over the entries of a buffer; an error is printed.\<close>

fun mark_entries :: "proc_os \<Rightarrow> u32 \<Rightarrow> ProcFdEntry list \<Rightarrow> (sock_id \<Rightarrow> u32) \<Rightarrow> (sock_id \<Rightarrow> u32) option" where
  "mark_entries os mark [] marks = Some marks"
| "mark_entries os mark (e # es) marks =
    Option.bind (proc_set_mark os (ucast (pf_pid e)) (pf_start_boottime e div NS_PER_SEC) (pf_fd e) mark marks)
      (\<lambda>(marks, err). mark_entries os mark es marks)"

text \<open>The buffer holds 64 entries; the iterator gives whole ones.\<close>

fun bpf_refresh_sockets ::
  "proc_os \<Rightarrow> u32 \<Rightarrow> ProcFdEntry list read_res list \<Rightarrow> (sock_id \<Rightarrow> u32) \<Rightarrow> (sock_id \<Rightarrow> u32) option" where
  "bpf_refresh_sockets os mark [] marks = Some marks"
| "bpf_refresh_sockets os mark (Rd_again # rs) marks = bpf_refresh_sockets os mark rs marks"
| "bpf_refresh_sockets os mark (Rd_fail # rs) marks = None"
| "bpf_refresh_sockets os mark (Rd es # rs) marks =
    (if es = [] then Some marks
     else Option.bind (mark_entries os mark es marks) (bpf_refresh_sockets os mark rs))"

section \<open>The buffer of process names\<close>

text \<open>
  \<open>rd off room\<close> is how many bytes a \<^verbatim>\<open>read\<close> of at most \<open>room\<close> bytes gives at offset \<open>off\<close> of the stream, or
  its failure.  Lengths and capacity stay far below \<open>2 ^ 64\<close>.
\<close>

definition grow :: "nat \<Rightarrow> nat \<Rightarrow> nat" where
  "grow len cap = (if cap \<le> len then (if cap = 0 then 2048 else cap * 2) else cap)"

function proc_names_loop ::
  "(nat \<Rightarrow> nat \<Rightarrow> nat option) \<Rightarrow> u8 list \<Rightarrow> u8 list \<Rightarrow> nat \<Rightarrow> (u8 list \<times> nat) option" where
  "proc_names_loop rd stream buf cap =
    (let cap = grow (length buf) cap; room = cap - length buf
     in case rd (length buf) room of
          None \<Rightarrow> None
        | Some n \<Rightarrow>
          let chunk = take (min n room) (drop (length buf) stream)
          in if chunk = [] then Some (buf, cap) else proc_names_loop rd stream (buf @ chunk) cap)"
  by pat_completeness auto

termination
  by (relation "measure (\<lambda>(rd, stream, buf, cap). length stream - length buf)") auto

declare proc_names_loop.simps [simp del]

definition bpf_get_proc_names :: "(nat \<Rightarrow> nat \<Rightarrow> nat option) \<Rightarrow> u8 list \<Rightarrow> nat \<Rightarrow> (u8 list \<times> nat) option" where
  "bpf_get_proc_names rd stream cap = proc_names_loop rd stream [] cap"

end
