(* ===== verification/Hooks_Stale.thy ===== *)
theory Hooks_Stale
  imports History
begin

text \<open>
  Where the cache of verdicts can be seen: a task that executes another program, and a hook that runs
  in the middle of a load.
\<close>

section \<open>Another program\<close>

lemma verdict_redirect:
  assumes "0 \<le> fst (verdict g t)"
  shows "fst (verdict g t) = uint (mr_redirect (mc_res (snd (verdict g t))))"
  using uncached_result [of "arena_mem g" "ta_exe t" "match_ctx_init (ta_uid t) (bg_dfa g)"] assms
  by (cases "verdict g t") (auto simp: verdict_def)

text \<open>A miss stores the verdict and answers with it.\<close>

lemma needs_mark_miss:
  assumes "bg_cache g (task_id t) = None" and "0 \<le> fst (verdict g t)"
  shows "needs_mark alloc keep t (match_ctx_init (ta_uid t) (bg_dfa g)) g =
    ((walk_arena alloc t g)\<lparr>bg_cache := lru_update keep (bg_cache g) (task_id t) (mc_res (snd (verdict g t)))\<rparr>,
     fst (verdict g t), snd (verdict g t))"
  using assms verdict_redirect [OF assms(2)]
  by (cases "verdict g t") (simp add: needs_mark_def verdict_def Let_def)

definition active :: "u32 \<Rightarrow> bpf_globals \<Rightarrow> bool" where
  "active family g \<longleftrightarrow> bf_enable (bg_config g) \<and> is_inet family \<and> bg_has_dfa g"

lemma socket_active:
  assumes "active family g"
  shows "socket_create_with judge family t g =
    (case judge t (match_ctx_init (ta_uid t) (bg_dfa g)) g of (g, r, m) \<Rightarrow> (g, if r \<le> 0 then None else Some (bf_mark (bg_config g))))"
  using assms by (simp add: socket_create_with_def active_def)

lemma uncached_active:
  "active family g \<Longrightarrow> snd (socket_create_with (judge_uncached alloc) family t g) =
    (if 0 < fst (verdict g t) then Some (bf_mark (bg_config g)) else None)"
  by (auto simp: socket_active judge_uncached_def verdict_def Let_def split: prod.split)

lemma cached_hit:
  "active family g \<Longrightarrow> bg_cache g (task_id t) = Some r \<Longrightarrow> 0 < uint (mr_redirect r) \<Longrightarrow>
    socket_create_with (needs_mark alloc keep) family t g = (g, Some (bf_mark (bg_config g)))"
  by (simp add: socket_active needs_mark_def)

text \<open>
  C39: a verdict outlives its program.  A task that created a socket while its executable was to be
  redirected, and then executes another program, keeps its identifier; as long as the LRU map keeps
  the entry, its next socket is marked whatever the verdict for the new executable and user is.
\<close>

theorem exec_keeps_verdict:
  assumes "active family g" and "bg_cache g (task_id t) = None" and "0 < fst (verdict g t)"
    and "task_id t' = task_id t" and "keep (bg_cache g) (task_id t) (task_id t)"
  shows "snd (hook_steps (needs_mark alloc keep) [Ev_socket family t, Ev_socket family t'] g) =
      [Out_mark (Some (bf_mark (bg_config g))), Out_mark (Some (bf_mark (bg_config g)))]
    \<and> snd (socket_create_with (judge_uncached alloc) family t' g) =
      (if 0 < fst (verdict g t') then Some (bf_mark (bg_config g)) else None)"
proof -
  let ?r = "mc_res (snd (verdict g t))"
  let ?g = "(walk_arena alloc t g)\<lparr>bg_cache := lru_update keep (bg_cache g) (task_id t) ?r\<rparr>"
  have act: "active family ?g" "bg_config ?g = bg_config g" using assms(1) by (simp_all add: active_def)
  have first: "socket_create_with (needs_mark alloc keep) family t g = (?g, Some (bf_mark (bg_config g)))"
    using assms(2,3) act by (cases "verdict g t") (simp add: socket_active [OF assms(1)] needs_mark_miss)
  have "bg_cache ?g (task_id t') = Some ?r" "0 < uint (mr_redirect ?r)"
    using assms(3-5) verdict_redirect [of g t] by (simp_all add: lru_update_def)
  from cached_hit [OF act(1) this] act(2) first show ?thesis
    by (simp add: uncached_active [OF assms(1)])
qed

theorem exec_keeps_verdict_witness:
  "\<exists>g. snd (hook_steps (needs_mark (\<lambda>n. True) (\<lambda>c k i. True)) [Ev_socket 2 (ex_task 7), Ev_socket 2 (ex_task 8)] g) =
      [Out_mark (Some 5), Out_mark (Some 5)]
    \<and> snd (socket_create_with (judge_uncached (\<lambda>n. True)) 2 (ex_task 8) g) = None"
proof -
  obtain arena dfa where b: "build_path_dfa two_libs (st_matches (uid_match 7)) [] = Inr (arena, dfa)" "length arena \<le> ARENA_SIZE"
    by (rule two_libs_build)
  let ?g = "loaded_globals arena dfa"
  have v: "fst (verdict ?g (ex_task u)) = (if u = 7 then 1 else -1)" for u
    using loaded_verdict [OF b, of ?g "\<lambda>a. 0"] by (simp add: loaded_globals_def arena_mem_def)
  have "active 2 ?g" "bg_cache ?g (task_id (ex_task 7)) = None" "bf_mark (bg_config ?g) = 5"
    by (simp_all add: active_def loaded_globals_def bpf_globals_zero_def is_inet_def)
  moreover have "task_id (ex_task 8) = task_id (ex_task 7)" by (simp add: task_id_def ex_task_def)
  ultimately show ?thesis
    using exec_keeps_verdict [of 2 ?g "ex_task 7" "ex_task 8" "\<lambda>c k i. True" "\<lambda>n. True"] v by auto
qed

section \<open>A hook during a load\<close>

text \<open>\<open>None\<close> is a step of the loader.\<close>

fun race_run ::
  "(u32 \<Rightarrow> bool) \<Rightarrow> judge \<Rightarrow> BpfConfig \<Rightarrow> hook_event option list \<Rightarrow> load_pc \<times> bpf_globals
    \<Rightarrow> (load_pc \<times> bpf_globals \<times> hook_out list) option" where
  "race_run alloc judge conf [] (pc, g) = Some (pc, g, [])"
| "race_run alloc judge conf (None # es) (pc, g) = Option.bind (load_step alloc conf (pc, g)) (race_run alloc judge conf es)"
| "race_run alloc judge conf (Some e # es) (pc, g) =
    (let (g, out) = hook_step judge e g
     in map_option (\<lambda>(pc, g, outs). (pc, g, out # outs)) (race_run alloc judge conf es (pc, g)))"

text \<open>
  C40: a verdict outlives its list.  The program of the load empties the cache before the loader
  assigns the new automaton and copies its arena.  A socket that a task creates in between is judged
  by the old automaton, and the verdict is stored again: after the load the task's sockets are marked
  whatever the new automaton says, until the entry is dropped or the next reload.
\<close>

theorem load_race_keeps_verdict:
  assumes g: "bg_base g" "arena_npages (bf_arena_buf conf) \<le> bg_pages g" "bg_has_dfa g" "0 < fst (verdict g t)"
    and conf: "bf_enable conf" "bf_has_dfa conf" "bg_last_gen g \<noteq> bf_generation conf"
      "bf_arena_buf conf \<noteq> []" "length (bf_arena_buf conf) \<le> ARENA_SIZE"
    and inet: "is_inet family" and keep: "keep (\<lambda>i. None) (task_id t) (task_id t)"
  shows "\<exists>g'. race_run alloc (needs_mark alloc keep) conf
        [None, None, Some (Ev_socket family t), None, None, None, None, Some (Ev_socket family t)] (Load_config, g) =
        Some (Load_done, g', [Out_mark (Some (bf_mark conf)), Out_mark (Some (bf_mark conf))])
    \<and> bg_dfa g' = bf_dfa conf \<and> arena_mem g' = load_arena (bf_arena_buf conf) (bg_mem g)
    \<and> snd (socket_create_with (judge_uncached alloc) family t g') = (if 0 < fst (verdict g' t) then Some (bf_mark conf) else None)"
proof -
  let ?r = "mc_res (snd (verdict g t))"
  let ?g1 = "g\<lparr>bg_config := conf, bg_cache := (\<lambda>i. None)\<rparr>"
  let ?c = "lru_update keep (\<lambda>i. None) (task_id t) ?r"
  let ?g2 = "?g1\<lparr>bg_cache := ?c\<rparr>"
  let ?g3 = "?g2\<lparr>bg_last_gen := bf_generation conf, bg_has_dfa := True, bg_dfa := bf_dfa conf,
    bg_mem := load_arena (bf_arena_buf conf) (bg_mem g)\<rparr>"
  have prog: "reload_config alloc (arena_npages (bf_arena_buf conf)) (g\<lparr>bg_config := conf\<rparr>) = ?g1"
    using g(1,2) by (auto simp: reload_config_def Let_def)
  have same: "verdict ?g1 t = verdict g t"
    by (simp add: verdict_def arena_mem_def)
  have act: "active family ?g1" "active family ?g3"
    using g(3) conf(1) inet by (simp_all add: active_def)
  have first: "socket_create_with (needs_mark alloc keep) family t ?g1 = (?g2, Some (bf_mark conf))"
    using g(1,4) same needs_mark_miss [of ?g1 t alloc keep] by (cases "verdict g t") (simp add: socket_active [OF act(1)])
  have "bg_cache ?g3 (task_id t) = Some ?r" "0 < uint (mr_redirect ?r)"
    using keep g(4) verdict_redirect [of g t] by (simp_all add: lru_update_def)
  from cached_hit [OF act(2) this]
  have second: "socket_create_with (needs_mark alloc keep) family t ?g3 = (?g3, Some (bf_mark conf))" by simp
  have "race_run alloc (needs_mark alloc keep) conf
      [None, None, Some (Ev_socket family t), None, None, None, None, Some (Ev_socket family t)] (Load_config, g) =
      Some (Load_done, ?g3, [Out_mark (Some (bf_mark conf)), Out_mark (Some (bf_mark conf))])"
    using g(1) conf first second by (simp add: prog)
  moreover have "arena_mem ?g3 = load_arena (bf_arena_buf conf) (bg_mem g)" "bg_dfa ?g3 = bf_dfa conf"
    using g(1) by (simp_all add: arena_mem_def)
  ultimately show ?thesis
    using uncached_active [OF act(2), of alloc t] by (intro exI [of _ ?g3]) simp
qed

theorem load_race_keeps_verdict_witness:
  "\<exists>conf g g'. race_run (\<lambda>n. True) (needs_mark (\<lambda>n. True) (\<lambda>c k i. True)) conf
        [None, None, Some (Ev_socket 2 (ex_task 8)), None, None, None, None, Some (Ev_socket 2 (ex_task 8))] (Load_config, g) =
        Some (Load_done, g', [Out_mark (Some 6), Out_mark (Some 6)])
    \<and> snd (socket_create_with (judge_uncached (\<lambda>n. True)) 2 (ex_task 8) g') = None"
proof -
  obtain arena dfa where old: "build_path_dfa two_libs (st_matches (uid_match 0)) [] = Inr (arena, dfa)" "length arena \<le> ARENA_SIZE"
    by (rule two_libs_build)
  obtain buf new where b: "build_path_dfa two_libs (st_matches (uid_match 7)) [] = Inr (buf, new)" "buf \<noteq> []" "length buf \<le> ARENA_SIZE"
    by (rule two_libs_build)
  let ?g = "loaded_globals arena dfa"
  let ?conf = "\<lparr>bf_enable = True, bf_enable_dns = False, bf_mark = 6, bf_arena_buf = buf, bf_has_dfa = True, bf_dfa = new,
    bf_generation = 1\<rparr>"
  have g: "bg_base ?g" "arena_npages (bf_arena_buf ?conf) \<le> bg_pages ?g" "bg_has_dfa ?g" "bg_last_gen ?g \<noteq> bf_generation ?conf"
    using arena_npages_small [OF b(2,3)] by (simp_all add: loaded_globals_def bpf_globals_zero_def)
  have "0 < fst (verdict ?g (ex_task 8))"
    using loaded_verdict [OF old, of ?g "\<lambda>a. 0" 8] by (simp add: loaded_globals_def arena_mem_def)
  from load_race_keeps_verdict [of ?g ?conf "ex_task 8" 2 "\<lambda>c k i. True" "\<lambda>n. True", OF g(1-3) this] g(4) b(2,3)
  obtain g' where g': "race_run (\<lambda>n. True) (needs_mark (\<lambda>n. True) (\<lambda>c k i. True)) ?conf
      [None, None, Some (Ev_socket 2 (ex_task 8)), None, None, None, None, Some (Ev_socket 2 (ex_task 8))] (Load_config, ?g) =
      Some (Load_done, g', [Out_mark (Some 6), Out_mark (Some 6)])"
    and new: "bg_dfa g' = new" "arena_mem g' = load_arena buf (bg_mem ?g)"
    "snd (socket_create_with (judge_uncached (\<lambda>n. True)) 2 (ex_task 8) g') = (if 0 < fst (verdict g' (ex_task 8)) then Some 6 else None)"
    by (auto simp: is_inet_def simp del: race_run.simps)
  have "fst (verdict g' (ex_task 8)) = -1"
    using loaded_verdict [OF b(1,3) new(1,2), of 8] by simp
  with g' new(3) show ?thesis by (auto simp del: race_run.simps)
qed

end
