(* ===== verification/Loader_Correct.thy ===== *)
theory Loader_Correct
  imports Loader Hooks_Stale Service_Correct
begin

text \<open>
  Properties of the privileged side: the start time read from \<^verbatim>\<open>/proc\<close> is the one the iterator reports,
  a refresh marks the sockets to be redirected and no other, and the names of processes reach the
  service.
\<close>

section \<open>Start time\<close>

text \<open>The bytes that the reads give, none of which fails or is empty.\<close>

fun rd_data :: "'a list read_res list \<Rightarrow> 'a list" where
  "rd_data [] = []"
| "rd_data (Rd b # rs) = b @ rd_data rs"
| "rd_data (_ # rs) = rd_data rs"

definition rd_good :: "'a list read_res list \<Rightarrow> bool" where
  "rd_good rs \<longleftrightarrow> (\<forall>r \<in> set rs. r \<noteq> Rd_fail \<and> r \<noteq> Rd [])"

lemma rd_good_Cons [simp]: "rd_good (r # rs) \<longleftrightarrow> r \<noteq> Rd_fail \<and> r \<noteq> Rd [] \<and> rd_good rs"
  by (auto simp: rd_good_def)

lemma stat_read_data:
  "rd_good rs \<Longrightarrow> length buf + length (rd_data rs) < STAT_BUF \<Longrightarrow> stat_read buf rs = Some (buf @ rd_data rs)"
  by (induction buf rs rule: stat_read.induct) auto

lemma c_strrchr_last: "c \<notin> set t \<Longrightarrow> c_strrchr c (s @ c # t) = Some (c # t)"
proof -
  assume c: "c \<notin> set t"
  have "takeWhile (\<lambda>x. x \<noteq> c) (rev t @ c # rev s) = rev t"
    using c by (subst takeWhile_append2) auto
  then show ?thesis by (simp add: c_strrchr_def)
qed

lemma c_strchr_next: "c \<notin> set s \<Longrightarrow> c_strchr c (s @ c # t) = Some (c # t)"
  by (subst c_strchr_def, subst dropWhile_append2) auto

abbreviation fields_text :: "string list \<Rightarrow> string" where
  "fields_text fs \<equiv> concat (map (Cons CHR '' '') fs)"

lemma stat_seek_field:
  "\<forall>f \<in> set fs. CHR '' '' \<notin> set f \<Longrightarrow> CHR '' '' \<notin> set y \<Longrightarrow> n < length fs \<Longrightarrow>
    stat_seek (Suc n) (x # y @ fields_text fs @ rest) =
      Some (CHR '' '' # fs ! n @ fields_text (drop (Suc n) fs) @ rest)"
proof (induction n arbitrary: fs x y)
  case 0
  then obtain f fs' where fs: "fs = f # fs'" by (cases fs) auto
  with 0 show ?case by (simp add: c_strchr_next)
next
  case (Suc n)
  then obtain f fs' where fs: "fs = f # fs'" by (cases fs) auto
  have "stat_seek (Suc (Suc n)) (x # y @ fields_text fs @ rest) = stat_seek (Suc n) (CHR '' '' # f @ fields_text fs' @ rest)"
    using Suc.prems fs c_strchr_next [of "CHR '' ''" y] by simp
  also have "\<dots> = Some (CHR '' '' # fs' ! n @ fields_text (drop (Suc n) fs') @ rest)"
    using Suc.prems fs by (intro Suc.IH) auto
  finally show ?case using fs by simp
qed

lemma is_space_not_digit: "is_digit c \<Longrightarrow> \<not> is_space c"
  by (auto simp: is_digit_def is_space_def)

lemma c_strtoull_show:
  assumes "n < 2 ^ 64" and "t = [] \<or> \<not> is_digit (hd t)"
  shows "c_strtoull (CHR '' '' # show_nat n @ t) = of_nat n"
proof -
  obtain c cs where s: "show_nat n = c # cs" by (cases "show_nat n") auto
  have digits: "list_all is_digit (c # cs)" using show_nat_digits [of n] by (simp only: s)
  then have "dropWhile is_space (CHR '' '' # show_nat n @ t) = show_nat n @ t"
    using is_space_not_digit [of c] by (simp add: s is_space_def [of "CHR '' ''"])
  moreover have "c \<noteq> CHR ''-''" "c \<noteq> CHR ''+''" using digits by (auto simp: is_digit_def)
  moreover have "takeWhile is_digit (show_nat n @ t) = show_nat n"
    using assms(2) show_nat_digits [of n] by (cases t) (auto simp: takeWhile_append list_all_iff)
  ultimately show ?thesis
    using assms(1) digits_val_show_nat [of n] unfolding c_strtoull_def Let_def s by simp
qed

text \<open>
  C32: the start time that \<^verbatim>\<open>proc_get_start_time\<close> finds in a \<^verbatim>\<open>stat\<close> file is the one of the iterator,
  in seconds, whatever the name of the command is, parentheses and spaces included, and however the
  file arrives.  The kernel prints the 22nd field in clock ticks, of which a second has \<open>hz\<close>.
\<close>

theorem stat_start_time:
  assumes read: "rd_good rs" "rd_data rs = pid_comm @ '')'' @ fields_text fs @ [CHR 0x0A]" "length (rd_data rs) < STAT_BUF"
    and fields: "20 \<le> length fs" "\<forall>f \<in> set fs. CHR '' '' \<notin> set f \<and> CHR '')'' \<notin> set f"
    and ticks: "fs ! 19 = show_nat (unat start_boottime div (1000000000 div hz))" "hz dvd 1000000000"
  shows "proc_get_start_time (of_nat hz) (Some rs) = Some (start_boottime div NS_PER_SEC)"
proof -
  let ?t = "unat start_boottime div (1000000000 div hz)"
  let ?rest = "fields_text (drop 20 fs) @ [CHR 0x0A]"
  have hz: "0 < hz" "hz \<le> 1000000000" using ticks(2) by (cases "hz = 0"; auto intro: dvd_imp_le)+
  have "\<forall>c \<in> set (fields_text fs). c \<noteq> CHR '')''" using fields(2) by auto
  then have seek: "c_strrchr CHR '')'' (rd_data rs) = Some ('')'' @ fields_text fs @ [CHR 0x0A])"
    using c_strrchr_last [of "CHR '')''" "fields_text fs @ [CHR 0x0A]" pid_comm] read(2) by auto
  have field: "stat_seek 20 ('')'' @ fields_text fs @ [CHR 0x0A]) = Some (CHR '' '' # show_nat ?t @ ?rest)"
    using stat_seek_field [of fs "[]" 19 "CHR '')''" "[CHR 0x0A]"] fields ticks(1) by simp
  have t: "?t < 2 ^ 64"
    using unsigned_less [of start_boottime, where ?'a = nat] by (simp add: le_less_trans [OF div_le_dividend])
  have rest: "?rest = [] \<or> \<not> is_digit (hd ?rest)"
    by (cases "drop 20 fs") (simp_all add: is_digit_def)
  have "(of_nat ?t :: u64) div of_nat hz = of_nat (?t div hz)"
    using t hz by (simp add: word_arith_nat_div unat_of_nat take_bit_nat_eq_self)
  also have "?t div hz = unat start_boottime div 1000000000"
    using ticks(2) by (simp add: div_mult2_eq [symmetric])
  also have "of_nat \<dots> = start_boottime div NS_PER_SEC"
    by (simp add: word_arith_nat_div NS_PER_SEC_def)
  finally show ?thesis
    using stat_read_data [of rs "[]"] read seek field c_strtoull_show [OF t rest]
    by (simp add: proc_get_start_time_def)
qed

theorem stat_start_time_witness:
  "proc_get_start_time 100 (Some [Rd ''1 (a) '', Rd_again, Rd (''b)'' @ fields_text (replicate 19 ''0'' @ [show_nat 500]) @ [CHR 0x0A])]) = Some 5"
proof -
  let ?fs = "replicate 19 ''0'' @ [show_nat 500]"
  let ?rs = "[Rd ''1 (a) '', Rd_again, Rd (''b)'' @ fields_text ?fs @ [CHR 0x0A])]"
  have s: "show_nat 500 = ''500''" by code_simp
  have "\<forall>f \<in> set ?fs. CHR '' '' \<notin> set f \<and> CHR '')'' \<notin> set f" by (simp add: s)
  moreover have "?fs ! 19 = show_nat (unat (5000000000 :: u64) div (1000000000 div 100))"
    by (simp add: nth_append)
  moreover have "rd_data ?rs = ''1 (a) b'' @ '')'' @ fields_text ?fs @ [CHR 0x0A]" by simp
  moreover have "length (rd_data ?rs) < STAT_BUF"
    by (simp add: STAT_BUF_def s length_concat sum_list_replicate)
  ultimately have "proc_get_start_time (of_nat 100) (Some ?rs) = Some (5000000000 div NS_PER_SEC)"
    by (intro stat_start_time) (simp_all add: rd_good_def)
  then show ?thesis by (simp add: NS_PER_SEC_def)
qed

section \<open>A refresh of the sockets\<close>

text \<open>An iteration: the program for each file in turn, the output in one stream.\<close>

fun iterate :: "(iter_ctx \<Rightarrow> bpf_globals \<Rightarrow> bpf_globals \<times> 'a list) \<Rightarrow> iter_ctx list \<Rightarrow> bpf_globals \<Rightarrow> bpf_globals \<times> 'a list" where
  "iterate f [] g = (g, [])"
| "iterate f (c # cs) g = (let (g, xs) = f c g; (g, ys) = iterate f cs g in (g, xs @ ys))"

text \<open>The task of a file that is an internet socket, and what the program says of it.\<close>

definition inet_task :: "iter_ctx \<Rightarrow> task_struct option" where
  "inet_task c = (case (ic_task c, ic_family c) of
     (Some t, Some family) \<Rightarrow> if is_inet family then Some t else None | _ \<Rightarrow> None)"

definition judged :: "bpf_globals \<Rightarrow> iter_ctx \<Rightarrow> (task_struct \<times> match_ctx) option" where
  "judged g c = (case inet_task c of
     None \<Rightarrow> None
   | Some t \<Rightarrow> if bg_has_dfa g \<and> 0 \<le> fst (verdict g t) then Some (t, snd (verdict g t)) else None)"

definition fd_out :: "bpf_globals \<Rightarrow> iter_ctx \<Rightarrow> ProcFdEntry list" where
  "fd_out g c = (case judged g c of
     None \<Rightarrow> [] | Some (t, m) \<Rightarrow> if mr_redirect (mc_res m) = 0 then [] else [fd_entry c t])"

definition name_out :: "bpf_globals \<Rightarrow> iter_ctx \<Rightarrow> (u32 \<times> u8 list) list" where
  "name_out g c = (case judged g c of
     None \<Rightarrow> []
   | Some (t, m) \<Rightarrow> map (\<lambda>i. (match_id_at (arena_mem g) (mc_dfa m) (mr_table_off (mc_res m) + of_nat i), exe_name t))
       [0..<unat (mr_table_len (mc_res m))])"

lemma iter_judge_uncached:
  "iter_judge (judge_uncached alloc) c g =
    (case inet_task c of None \<Rightarrow> (g, None)
     | Some t \<Rightarrow> if bg_has_dfa g then (walk_arena alloc t g, judged g c) else (g, None))"
  by (auto simp: iter_judge_def inet_task_def judged_def judge_uncached_def verdict_def Let_def not_less
      split: option.split prod.split)

lemma refresh_uncached: "snd (refresh_socket_with (judge_uncached alloc) c g) = fd_out g c"
  by (auto simp: refresh_socket_with_def iter_judge_uncached fd_out_def judged_def split: option.splits prod.split)

lemma dump_uncached: "snd (dump_proc_with (judge_uncached alloc) c g) = concat (map proc_bytes (name_out g c))"
  by (auto simp: dump_proc_with_def iter_judge_uncached name_out_def judged_def proc_record_def proc_bytes_def o_def
      split: option.splits prod.split)

text \<open>What the outputs depend on.\<close>

definition same_filter :: "bpf_globals \<Rightarrow> bpf_globals \<Rightarrow> bool" where
  "same_filter g g' \<longleftrightarrow> bg_has_dfa g' = bg_has_dfa g \<and> bg_dfa g' = bg_dfa g \<and> arena_mem g' = arena_mem g"

lemma same_filter_out: "same_filter g g' \<Longrightarrow> judged g' = judged g \<and> fd_out g' = fd_out g \<and> name_out g' = name_out g"
proof -
  assume s: "same_filter g g'"
  then have v: "verdict g' = verdict g" by (intro ext) (simp add: same_filter_def verdict_def)
  have j: "judged g' = judged g"
    using s by (intro ext) (simp add: judged_def v same_filter_def cong: option.case_cong if_cong)
  moreover have "fd_out g' = fd_out g" by (intro ext) (simp add: fd_out_def j)
  moreover have "name_out g' = name_out g"
    using s by (intro ext) (simp add: name_out_def j same_filter_def cong: option.case_cong if_cong)
  ultimately show ?thesis by simp
qed

lemma same_filter_core [simp]: "same_filter g (core g)"
  by (simp add: same_filter_def)

lemma hook_same_filter:
  assumes "hook_step (needs_mark alloc keep) e g = (g', out)"
  shows "same_filter g g'"
proof -
  obtain c where "g' = g\<lparr>bg_cache := c\<rparr> \<or> g' = (get_arena alloc g)\<lparr>bg_cache := c\<rparr>"
    using hook_step_frame [OF assms] by blast
  moreover have "bg_has_dfa (get_arena alloc g) = bg_has_dfa g" "bg_dfa (get_arena alloc g) = bg_dfa g"
    by (simp_all add: get_arena_def Let_def)
  ultimately show ?thesis by (auto simp: same_filter_def)
qed

abbreviation in_table :: "(TaskId \<Rightarrow> task_struct) \<Rightarrow> iter_ctx list \<Rightarrow> bool" where
  "in_table procs cs \<equiv> \<forall>c \<in> set cs. \<forall>t. ic_task c = Some t \<longrightarrow> procs (task_id t) = t"

lemma refresh_sockets_out:
  assumes "coherent procs g" and "\<And>t. ic_task c = Some t \<Longrightarrow> procs (task_id t) = t"
    and "refresh_sockets alloc keep c g = (g', es)"
  shows "coherent procs g' \<and> same_filter g g' \<and> es = fd_out g c"
proof -
  have run: "refresh_socket_with (needs_mark alloc keep) c g = (g', es)"
    using assms(3) by (simp add: refresh_sockets_def)
  have "same_filter g g'"
    using hook_same_filter [of alloc keep "Ev_refresh c" g g'] run by simp
  with cached.refresh_socket_ok [OF assms(1,2) run] refresh_uncached [of alloc c "core g"]
  show ?thesis using same_filter_out [OF same_filter_core, of g] by simp
qed

lemma dump_socket_procs_out:
  assumes "coherent procs g" and "\<And>t. ic_task c = Some t \<Longrightarrow> procs (task_id t) = t"
    and "dump_socket_procs alloc keep c g = (g', bs)"
  shows "coherent procs g' \<and> same_filter g g' \<and> bs = concat (map proc_bytes (name_out g c))"
proof -
  have run: "dump_proc_with (needs_mark alloc keep) c g = (g', bs)"
    using assms(3) by (simp add: dump_socket_procs_def)
  have "same_filter g g'"
    using hook_same_filter [of alloc keep "Ev_dump c" g g'] run by simp
  with cached.dump_proc_ok [OF assms(1,2) run] dump_uncached [of alloc c "core g"]
  show ?thesis using same_filter_out [OF same_filter_core, of g] by simp
qed

text \<open>An iteration of a program that keeps the filter and gives \<open>out g c\<close> for each file.\<close>

lemma iterate_out:
  assumes f: "\<And>g c g' xs. coherent procs g \<Longrightarrow> in_table procs [c] \<Longrightarrow> f c g = (g', xs) \<Longrightarrow>
      coherent procs g' \<and> same_filter g g' \<and> xs = out g c"
    and out: "\<And>g g'. same_filter g g' \<Longrightarrow> out g' = out g"
  shows "coherent procs g \<Longrightarrow> in_table procs cs \<Longrightarrow> snd (iterate f cs g) = concat (map (out g) cs)"
proof (induction cs arbitrary: g)
  case (Cons c cs)
  obtain g' xs where c: "f c g = (g', xs)" by fastforce
  have g': "coherent procs g'" "same_filter g g'" "xs = out g c"
    using f [OF Cons.prems(1) _ c] Cons.prems(2) by simp_all
  have "snd (iterate f cs g') = concat (map (out g') cs)"
    using Cons.prems(2) by (intro Cons.IH g'(1)) simp
  with c out [OF g'(2)] g'(3) show ?case by (simp add: split_def Let_def)
qed simp

lemma iterate_refresh:
  "coherent procs g \<Longrightarrow> in_table procs cs \<Longrightarrow>
    snd (iterate (refresh_sockets alloc keep) cs g) = concat (map (fd_out g) cs)"
  by (rule iterate_out [of procs]) (use refresh_sockets_out in force, simp_all add: same_filter_out)

lemma iterate_dump:
  "coherent procs g \<Longrightarrow> in_table procs cs \<Longrightarrow>
    snd (iterate (dump_socket_procs alloc keep) cs g) = concat (map proc_bytes (concat (map (name_out g) cs)))"
proof -
  assume "coherent procs g" "in_table procs cs"
  then have "snd (iterate (dump_socket_procs alloc keep) cs g) = concat (map (\<lambda>c. concat (map proc_bytes (name_out g c))) cs)"
    by (rule iterate_out [of procs, rotated 2]) (use dump_socket_procs_out in force, simp add: same_filter_out)
  also have "\<dots> = concat (map proc_bytes (concat (map (name_out g) cs)))"
    by (induction cs) simp_all
  finally show ?thesis .
qed

text \<open>The system as the iterator saw it: each entry leads to the socket of its file.\<close>

definition resolves :: "proc_os \<Rightarrow> (iter_ctx \<Rightarrow> sock_id) \<Rightarrow> iter_ctx \<Rightarrow> bool" where
  "resolves os sock c \<longleftrightarrow> (\<forall>t. ic_task c = Some t \<longrightarrow>
    (\<exists>p. os_pidfd os (ta_pid t) = Inr p \<and> os_getfd os p (ic_fd c) = Inr (sock c) \<and>
      proc_get_start_time (os_clk_tck os) (os_stat os (ta_pid t)) = Some (ta_start_boottime t div NS_PER_SEC) \<and>
      os_setmark_err os (sock c) = None))"

lemma ucast_scast_pid: "ucast (scast (w :: u32) :: u64) = w"
  by (rule bit_word_eqI) (auto simp: bit_simps dest: bit_imp_le_length)

lemma mark_entries_resolved:
  assumes "\<forall>c \<in> set cs. resolves os sock c"
  shows "mark_entries os mark (concat (map (fd_out g) cs)) marks =
    Some (\<lambda>s. if \<exists>c \<in> set cs. fd_out g c \<noteq> [] \<and> sock c = s then mark else marks s)"
  using assms
proof (induction cs arbitrary: marks)
  case (Cons c cs)
  show ?case
  proof (cases "fd_out g c = []")
    case True
    with Cons show ?thesis by simp
  next
    case False
    then obtain t m where j: "judged g c = Some (t, m)" "mr_redirect (mc_res m) \<noteq> 0"
      by (auto simp: fd_out_def split: option.splits if_splits)
    then have t: "fd_out g c = [fd_entry c t]" "ic_task c = Some t"
      by (simp_all add: fd_out_def) (auto simp: judged_def inet_task_def split: option.splits if_splits)
    with Cons.prems have "proc_set_mark os (ucast (pf_pid (fd_entry c t))) (pf_start_boottime (fd_entry c t) div NS_PER_SEC)
        (pf_fd (fd_entry c t)) mark marks = Some (marks(sock c := mark), None)"
      by (auto simp: resolves_def proc_set_mark_def fd_entry_def ucast_scast_pid)
    with t Cons show ?thesis by (auto simp: fun_eq_iff)
  qed
qed simp

lemma mark_entries_append:
  "mark_entries os mark (es @ fs) marks = Option.bind (mark_entries os mark es marks) (mark_entries os mark fs)"
  by (induction es arbitrary: marks) (auto split: bind_splits)

lemma bpf_refresh_sockets_data:
  "rd_good rs \<Longrightarrow> bpf_refresh_sockets os mark rs marks = mark_entries os mark (rd_data rs) marks"
proof (induction rs arbitrary: marks)
  case (Cons r rs)
  then show ?case by (cases r) (auto simp: mark_entries_append split: bind_splits)
qed simp

text \<open>
  C15: a refresh gives the new mark to the sockets of the tasks that are to be redirected, and leaves
  every other socket alone, whatever the cache holds and however the entries are split over the
  reads; provided that tasks keep executable and user and are still there.
\<close>

theorem refresh_marks_redirected:
  assumes "coherent procs g" and "in_table procs cs" and "\<forall>c \<in> set cs. resolves os sock c"
    and "rd_good rs" and "rd_data rs = snd (iterate (refresh_sockets alloc keep) cs g)"
  shows "bpf_refresh_sockets os mark rs marks =
    Some (\<lambda>s. if \<exists>c \<in> set cs. (\<exists>t. inet_task c = Some t \<and> bg_has_dfa g \<and> 0 < fst (verdict g t)) \<and> sock c = s
              then mark else marks s)"
proof -
  have pos: "w \<noteq> 0 \<Longrightarrow> 0 < uint w" for w :: u32
    using unsigned_greater_eq [of w, where ?'a = int] unsigned_eq_0_iff [of w, where ?'a = int] by linarith
  have redirected: "fd_out g c \<noteq> [] \<longleftrightarrow> (\<exists>t. inet_task c = Some t \<and> bg_has_dfa g \<and> 0 < fst (verdict g t))" for c
  proof -
    have "0 < fst (verdict g t) \<longleftrightarrow> 0 \<le> fst (verdict g t) \<and> mr_redirect (mc_res (snd (verdict g t))) \<noteq> 0" for t
      using uncached_result [of "arena_mem g" "ta_exe t" "match_ctx_init (ta_uid t) (bg_dfa g)"]
      by (cases "verdict g t") (auto simp: verdict_def pos)
    then show ?thesis by (auto simp: fd_out_def judged_def split: option.splits)
  qed
  show ?thesis
    using mark_entries_resolved [OF assms(3)] iterate_refresh [OF assms(1,2)]
    by (simp add: bpf_refresh_sockets_data [OF assms(4)] assms(5) redirected)
qed

definition ex_ctx_of :: "u32 \<Rightarrow> u32 \<Rightarrow> iter_ctx" where
  "ex_ctx_of pid uid = \<lparr>ic_task = Some ((ex_task uid)\<lparr>ta_pid := pid\<rparr>), ic_family = Some 2, ic_fd = 3\<rparr>"

definition ex_os :: proc_os where
  "ex_os = \<lparr>os_pidfd = (\<lambda>pid. Inr (unat pid)), os_getfd = (\<lambda>p fd. Inr p), os_stat = (\<lambda>pid. None),
     os_setmark_err = (\<lambda>s. None), os_clk_tck = 100\<rparr>"

definition ex_sock :: "iter_ctx \<Rightarrow> sock_id" where
  "ex_sock c = (case ic_task c of None \<Rightarrow> 0 | Some t \<Rightarrow> unat (ta_pid t))"

definition ex_procs :: "TaskId \<Rightarrow> task_struct" where
  "ex_procs i = (if ti_pid i = 1 then (ex_task 7)\<lparr>ta_pid := 1\<rparr> else (ex_task 8)\<lparr>ta_pid := 2\<rparr>)"

abbreviation ex_cs :: "iter_ctx list" where "ex_cs \<equiv> [ex_ctx_of 1 7, ex_ctx_of 2 8]"

lemma ex_table: "in_table ex_procs ex_cs"
  by (simp add: ex_ctx_of_def ex_procs_def task_id_def)

lemma ex_resolves: "\<forall>c \<in> set ex_cs. resolves ex_os ex_sock c"
  by (simp add: resolves_def ex_os_def ex_ctx_of_def ex_sock_def ex_task_def proc_get_start_time_def)

lemma verdict_pid [simp]: "verdict g (t\<lparr>ta_pid := p\<rparr>) = verdict g t"
  by (simp add: verdict_def)

text \<open>Process 1 of user 7 is to be redirected, process 2 of user 8 is not.\<close>

theorem refresh_marks_redirected_witness:
  "\<exists>g marks. bpf_refresh_sockets ex_os 9 [Rd_again, Rd (snd (iterate (refresh_sockets (\<lambda>n. True) (\<lambda>c k i. True)) ex_cs g))]
      (\<lambda>s. 4) = Some marks \<and> marks 1 = 9 \<and> marks 2 = 4"
proof -
  obtain arena dfa where b: "build_path_dfa two_libs (st_matches (uid_match 7)) [] = Inr (arena, dfa)" "length arena \<le> ARENA_SIZE"
    by (rule two_libs_build)
  let ?g = "loaded_globals arena dfa"
  have v: "fst (verdict ?g (ex_task u)) = (if u = 7 then 1 else -1)" for u
    using loaded_verdict [OF b, of ?g "\<lambda>a. 0"] by (simp add: loaded_globals_def arena_mem_def)
  have "coherent ex_procs ?g" by (intro coherent_empty) (simp add: loaded_globals_def bpf_globals_zero_def)
  note co = this ex_table
  let ?es = "snd (iterate (refresh_sockets (\<lambda>n. True) (\<lambda>c k i. True)) ex_cs ?g)"
  have inet: "inet_task (ex_ctx_of p u) = Some ((ex_task u)\<lparr>ta_pid := p\<rparr>)" for p u
    by (simp add: inet_task_def ex_ctx_of_def is_inet_def)
  have "bg_has_dfa ?g" by (simp add: loaded_globals_def)
  moreover have "?es \<noteq> []"
    unfolding iterate_refresh [OF co]
    using v [of 7] calculation verdict_redirect [of ?g "ex_task 7"]
    by (auto simp: fd_out_def judged_def inet)
  moreover have "ex_sock (ex_ctx_of p u) = unat p" for p u
    by (simp add: ex_sock_def ex_ctx_of_def)
  ultimately have "bpf_refresh_sockets ex_os 9 [Rd_again, Rd ?es] (\<lambda>s. 4) = Some (\<lambda>s. if s = 1 then 9 else 4)"
    using v by (subst refresh_marks_redirected [OF co ex_resolves, where alloc = "\<lambda>n. True" and keep = "\<lambda>c k i. True"])
      (auto simp: inet rd_good_def fun_eq_iff)
  then show ?thesis
    by (intro exI [of _ ?g] exI [of _ "\<lambda>s. if s = 1 then 9 else 4"] conjI) (simp_all only:, simp_all)
qed

section \<open>The names of processes\<close>

text \<open>A \<^verbatim>\<open>read\<close> that does not fail and gives something while there is something.\<close>

definition rd_wf :: "(nat \<Rightarrow> nat \<Rightarrow> nat option) \<Rightarrow> nat \<Rightarrow> bool" where
  "rd_wf rd len \<longleftrightarrow> (\<forall>off room. \<exists>n. rd off room = Some n \<and> (off < len \<and> 0 < room \<longrightarrow> 0 < n))"

lemma grow_room: "len \<le> cap \<Longrightarrow> len < grow len cap"
  by (simp add: grow_def)

lemma grow_bound:
  "len \<le> n \<Longrightarrow> cap \<le> max c0 (max 2048 (2 * n)) \<Longrightarrow> grow len cap \<le> max c0 (max 2048 (2 * n))"
  by (auto simp: grow_def)

lemma proc_names_loop_reads:
  assumes wf: "rd_wf rd (length stream)" and "k \<le> length stream" and "k \<le> cap" and "cap \<le> max c0 (max 2048 (2 * length stream))"
  shows "\<exists>cap'. proc_names_loop rd stream (take k stream) cap = Some (stream, cap') \<and> length stream < cap'
      \<and> cap' \<le> max c0 (max 2048 (2 * length stream))"
  using assms(2-4)
proof (induction "length stream - k" arbitrary: k cap rule: less_induct)
  case less
  let ?cap = "grow k cap" and ?rest = "drop k stream"
  have len: "length (take k stream) = k" using less.prems(1) by simp
  have room: "k < ?cap" using less.prems(2) by (rule grow_room)
  have bound: "?cap \<le> max c0 (max 2048 (2 * length stream))"
    using less.prems by (intro grow_bound) auto
  obtain n where n: "rd k (?cap - k) = Some n" "k < length stream \<longrightarrow> 0 < n"
    using wf room unfolding rd_wf_def by (metis zero_less_diff)
  let ?m = "min n (?cap - k)"
  show ?case
  proof (cases "take ?m ?rest = []")
    case True
    then have "k = length stream" using n(2) room less.prems(1) by auto
    with True n(1) room bound show ?thesis
      by (subst proc_names_loop.simps) (simp add: Let_def)
  next
    case False
    let ?k = "k + length (take ?m ?rest)"
    have step: "take k stream @ take ?m ?rest = take ?k stream"
      by (simp add: take_add min_def)
    have "length stream - ?k < length stream - k" "?k \<le> length stream" "?k \<le> ?cap"
      using False by auto
    from less.hyps [OF this bound] show ?thesis
      using n(1) False by (subst proc_names_loop.simps) (simp add: Let_def len step)
  qed
qed

text \<open>
  C33: filling the buffer of process names ends with the whole stream of the iterator, however the
  reads split it, in a buffer that is larger than the stream and at most twice as large, or as large
  as the buffer of the last call or the initial 2048 bytes.
\<close>

theorem proc_names_read:
  assumes "rd_wf rd (length stream)"
  shows "\<exists>cap'. bpf_get_proc_names rd stream cap = Some (stream, cap') \<and> length stream < cap'
    \<and> cap' \<le> max cap (max 2048 (2 * length stream))"
  using proc_names_loop_reads [OF assms, of 0 cap cap] by (simp add: bpf_get_proc_names_def)

theorem proc_names_read_witness:
  "\<exists>cap'. bpf_get_proc_names (\<lambda>off room. Some 3) (replicate 3000 7) 0 = Some (replicate 3000 7, cap') \<and> cap' \<le> 6000"
proof -
  have "rd_wf (\<lambda>off room. Some 3) (length (replicate 3000 (7 :: u8)))" by (simp add: rd_wf_def)
  from proc_names_read [OF this, of 0] show ?thesis by auto
qed

text \<open>The entries of a file whose task has an executable, in terms of the list of matches.\<close>

definition match_entries :: "dense \<Rightarrow> nat \<Rightarrow> nat list \<Rightarrow> Matches \<Rightarrow> iter_ctx \<Rightarrow> (u32 \<times> u8 list) list" where
  "match_entries d s0 pim ms c =
    (case inet_task c of
       Some t \<Rightarrow>
         (case ta_exe t of
            Some dents \<Rightarrow>
              let f = dense_final d s0 (full_path dents)
              in if d_is_match d f \<and> (\<exists>p \<in> set (state_patterns d f). uid_applies (ta_uid t) (pat_match pim ms p))
                 then map (\<lambda>p. (of_nat (pim ! unat p), exe_name t)) (state_patterns d f) else []
          | None \<Rightarrow> [])
     | None \<Rightarrow> [])"

definition walkable_task :: "iter_ctx \<Rightarrow> bool" where
  "walkable_task c \<longleftrightarrow> (\<forall>t dents. ic_task c = Some t \<longrightarrow> ta_exe t = Some dents \<longrightarrow> walkable dents)"

lemma exe_name_short: "ta_exe t = Some dents \<Longrightarrow> walkable dents \<Longrightarrow> length (exe_name t) \<le> 256"
  by (cases dents) (auto simp: exe_name_def walkable_def NAME_MAX_def)

lemma inet_task_task: "inet_task c = Some t \<Longrightarrow> ic_task c = Some t"
  by (auto simp: inet_task_def split: option.splits if_splits)

lemma name_out_entries:
  assumes enc: "encode_dfa lib pats [] pim ms = Inr (arena, dfa)" "align_wf (l_align lib)"
      "l_build_many lib True DFA_MAX_SIZE pats = Inr d" "dense_wf d" "length arena \<le> ARENA_SIZE"
    and s0: "d_start d True = Inr s0" and g: "bg_has_dfa g" "bg_dfa g = dfa" "arena_mem g = load_arena arena mem"
    and walk: "walkable_task c" and few: "length (ms_matches ms) < 2 ^ 31"
  shows "name_out g c = match_entries d s0 pim ms c \<and> (\<forall>e \<in> set (name_out g c). proc_ok e)"
proof (cases "inet_task c")
  case None
  then show ?thesis by (simp add: name_out_def judged_def match_entries_def)
next
  case (Some t)
  show ?thesis
  proof (cases "ta_exe t")
    case None
    with Some show ?thesis
      by (simp add: name_out_def judged_def match_entries_def verdict_def needs_mark_uncached_def)
  next
    case (Some dents)
    have dents: "walkable dents"
      using walk Some \<open>inet_task c = Some t\<close> by (auto simp: walkable_task_def dest: inet_task_task)
    let ?f = "dense_final d s0 (full_path dents)"
    let ?acc = "d_is_match d ?f \<and> (\<exists>p \<in> set (state_patterns d ?f). uid_applies (ta_uid t) (pat_match pim ms p))"
    have v: "verdict g t = needs_mark_uncached (load_arena arena mem) (Some dents) (match_ctx_init (ta_uid t) dfa)"
      by (simp add: verdict_def g Some)
    have "fst (verdict g t) \<noteq> -1 \<longleftrightarrow> ?acc"
      unfolding v by (rule verdict_given [OF enc dents s0])
    moreover have "fst (verdict g t) \<noteq> -1 \<longleftrightarrow> 0 \<le> fst (verdict g t)"
      using uncached_result [of "arena_mem g" "ta_exe t" "match_ctx_init (ta_uid t) (bg_dfa g)"]
      by (cases "verdict g t") (auto simp: verdict_def)
    ultimately have acc: "0 \<le> fst (verdict g t) \<longleftrightarrow> ?acc" by simp
    show ?thesis
    proof (cases ?acc)
      case True
      note ids = verdict_ids(1) [OF enc dents s0 conjunct1 [OF True], of mem "ta_uid t", folded v]
        verdict_ids(2) [OF enc dents s0 conjunct1 [OF True]]
      have out: "name_out g c = map (\<lambda>p. (of_nat (pim ! unat p), exe_name t)) (state_patterns d ?f)"
        using acc True g \<open>inet_task c = Some t\<close> arg_cong [OF ids(1), of "map (\<lambda>i. (i, exe_name t))"]
        by (simp add: name_out_def judged_def o_def)
      have "proc_ok (of_nat (pim ! unat p), exe_name t)" if "p \<in> set (state_patterns d ?f)" for p
      proof -
        have "pim ! unat p < 2 ^ 31" using ids(2) that few by (auto simp: pat_ok_def)
        then have "0 \<le> sint (of_nat (pim ! unat p) :: u32)"
          by (simp add: signed_of_nat signed_take_bit_int_eq_self)
        moreover have "length (exe_name t) < 2 ^ 32" using exe_name_short [OF Some dents] by simp
        ultimately show ?thesis by (simp add: proc_ok_def)
      qed
      with out True Some \<open>inet_task c = Some t\<close> show ?thesis
        by (auto simp: match_entries_def Let_def)
    next
      case False
      with acc Some \<open>inet_task c = Some t\<close> show ?thesis
        by (auto simp: name_out_def judged_def match_entries_def Let_def)
    qed
  qed
qed

text \<open>
  C16: from the sockets of the system to the list of processes that the service answers with.  With
  the automaton of the list in force, the service decodes the buffer of the iterator into one
  dictionary for each match behind the final state of each task that is judged by the filter, with
  the name of its executable; the dictionaries are grouped by match, within a match in the order of
  the files.  Matches of other users that share the state are listed too: the iterator does not look
  at the table of users.
\<close>

theorem proc_names_reach_service:
  assumes wf: "build_wf lib" and force: "in_force lib ms g" and pats: "path_loop_set lib 0 (ms_matches ms) ([], []) = (pats, pim)"
    and built: "build_path_dfa lib ms [] = Inr (arena, dfa)" "length arena \<le> ARENA_SIZE"
    and d: "l_build_many lib True DFA_MAX_SIZE pats = Inr d" "d_start d True = Inr s0"
    and few: "length (ms_matches ms) < 2 ^ 31"
    and iter: "coherent procs g" "in_table procs cs" "\<forall>c \<in> set cs. walkable_task c"
    and stream: "stream = snd (iterate (dump_socket_procs alloc keep) cs g)" "rd_wf rd (length stream)"
    and svc: "bytes_wf pb" "SECOND < now - bc_matches_time lock"
  defines "es \<equiv> concat (map (match_entries d s0 pim ms) cs)"
  defines "ds \<equiv> concat (map (\<lambda>p. map (proc_dict p) (names_of pb es p)) [0..<groups es])"
  shows "\<exists>cap'. bpf_get_proc_names rd stream cap = Some (stream, cap') \<and>
    get_proc_names pb now (Some stream) lock = Some (lock\<lparr>bc_matches_time := now, bc_matches := ds\<rparr>, Inr ds)"
proof -
  have al: "align_wf (l_align lib)" and dense: "dense_wf d"
    using wf d(1) unfolding build_wf_def by blast+
  obtain mem where g: "bg_has_dfa g" "bg_dfa g = dfa" "arena_mem g = load_arena arena mem"
    and enc: "encode_dfa lib pats [] pim ms = Inr (arena, dfa)"
    using force pats built by (rule in_force_arena)
  note out = name_out_entries [OF enc al d(1) dense built(2) d(2) g _ few]
  have "concat (map (name_out g) cs) = es" "\<forall>e \<in> set es. proc_ok e"
    using out iter(3) by (auto simp: es_def intro!: arg_cong [of _ _ concat])
  then have "stream = concat (map proc_bytes es)" "\<forall>e \<in> set es. proc_ok e"
    using iterate_dump [OF iter(1,2)] stream(1) by simp_all
  with proc_names_decoded [OF svc, of es] proc_names_loop_reads [OF stream(2), of 0 cap cap] show ?thesis
    by (auto simp: ds_def bpf_get_proc_names_def)
qed

theorem proc_names_reach_service_witness:
  "\<exists>g cap' lock'. bpf_get_proc_names (\<lambda>off room. Some 5) (snd (iterate (dump_socket_procs (\<lambda>n. True) (\<lambda>c k i. True)) ex_cs g)) 0 =
      Some (snd (iterate (dump_socket_procs (\<lambda>n. True) (\<lambda>c k i. True)) ex_cs g), cap') \<and>
    get_proc_names ex_bytes (2 * SECOND) (Some (snd (iterate (dump_socket_procs (\<lambda>n. True) (\<lambda>c k i. True)) ex_cs g))) ex_bpf_ctx =
      Some (lock', Inr [proc_dict 0 ''b''])"
proof -
  let ?ms = "st_matches (uid_match 7)"
  obtain pat where pats: "path_loop_set two_libs 0 (ms_matches ?ms) ([], []) = ([pat], [0])"
    by (rule two_libs_patterns)
  obtain arena dfa where b: "build_path_dfa two_libs ?ms [] = Inr (arena, dfa)" "length arena \<le> ARENA_SIZE"
    by (rule two_libs_build)
  let ?g = "loaded_globals arena dfa"
  let ?stream = "snd (iterate (dump_socket_procs (\<lambda>n. True) (\<lambda>c k i. True)) ex_cs ?g)"
  have force: "in_force two_libs ?ms ?g"
    using b by (auto simp: in_force_def loaded_globals_def)
  have d: "l_build_many two_libs True DFA_MAX_SIZE [pat] = Inr (two_dense [0] [0])" "d_start (two_dense [0] [0]) True = Inr 2"
    by (simp_all add: two_libs_def two_sel)
  have co: "coherent ex_procs ?g" by (intro coherent_empty) (simp add: loaded_globals_def bpf_globals_zero_def)
  have walk: "\<forall>c \<in> set ex_cs. walkable_task c"
    by (simp add: walkable_task_def ex_ctx_of_def ex_task_def walkable_def NAME_MAX_def PATH_MAX_def)
  have few: "length (ms_matches ?ms) < 2 ^ 31" by (simp add: uid_match_def)
  have rd: "rd_wf (\<lambda>off room. Some 5) (length ?stream)" by (simp add: rd_wf_def)
  have t: "SECOND < 2 * SECOND - bc_matches_time ex_bpf_ctx" by (simp add: SECOND_def ex_bpf_ctx_def)
  have path: "full_path [[98], [SLASH]] \<noteq> []" by (simp add: full_path_def SLASH_def)
  have "match_entries (two_dense [0] [0]) 2 [0] ?ms (ex_ctx_of p u) = (if u = 7 then [(0, [98])] else [])" for p u
    using path by (simp add: match_entries_def inet_task_def ex_ctx_of_def is_inet_def ex_task_def two_sel two_dense_final
        pat_match_def uid_match_def uid_applies_def exe_name_def Let_def)
  then have es: "concat (map (match_entries (two_dense [0] [0]) 2 [0] ?ms) ex_cs) = [(0, [98])]" by simp
  have names: "names_of ex_bytes [(0, [98])] 0 = [''b'']" "groups [(0, [98 :: u8])] = 1"
    by (simp_all add: names_of_def groups_def ex_bytes_def char_of_def bit_0)
  from proc_names_reach_service [OF two_libs_wf force pats b d few co ex_table walk refl rd ex_bytes_wf t, of 0, unfolded es] names
  show ?thesis by (intro exI [of _ ?g]) simp
qed

end
