(* ===== verification/Ingress.thy ===== *)
theory Ingress
  imports Hooks
begin

text \<open>
  The resolver snoop in the kernel: the hook \<^verbatim>\<open>ingress\<close> of \<^verbatim>\<open>rebpf/bpf.c\<close> and the record that it puts into
  the ring buffer.  The way from the ring to the callback of \<^verbatim>\<open>rebpf/dns.rs\<close>, libbpf's ring and the poll of
  \<^verbatim>\<open>rebpf/bpf-load.c\<close>, is not modelled.
\<close>

section \<open>The hook\<close>

text \<open>\<open>sk_data\<close> are the bytes from the network header on that the hook can read, \<^verbatim>\<open>data\<close> to \<^verbatim>\<open>data_end\<close>.\<close>

record sk_buff =
  sk_vlan_present :: u32
  sk_family :: u32
  sk_remote_port :: u32
  sk_data :: "u8 list"

text \<open>The swaps of the byte order, and the load of a 16-bit word, on the little-endian targets.\<close>

definition bpf_ntohl :: "u32 \<Rightarrow> u32" where
  "bpf_ntohl w = (let b = to_ne_bytes w in from_ne_bytes (b ! 3) (b ! 2) (b ! 1) (b ! 0))"

definition load_u16 :: "u8 \<Rightarrow> u8 \<Rightarrow> u16" where
  "load_u16 b0 b1 = or (ucast b0) (push_bit 8 (ucast b1))"

definition bpf_htons :: "u16 \<Rightarrow> u16" where
  "bpf_htons w = or (drop_bit 8 w) (push_bit 8 w)"

definition AF_INET :: u32 where "AF_INET = 2"

definition IPPROTO_UDP :: u8 where "IPPROTO_UDP = 17"

definition IPHDR_SIZE :: nat where "IPHDR_SIZE = 20"

definition UDPHDR_SIZE :: nat where "UDPHDR_SIZE = 8"

text \<open>
  \<open>reserve n ring\<close> says whether the ring buffer has room for another \<open>n\<close> bytes; without room the copy and
  the submission act on a null pointer and do nothing.  A read past the end would be \<open>Panic\<close>.
\<close>

definition submit_dns :: "(nat \<Rightarrow> u8 list list \<Rightarrow> bool) \<Rightarrow> u8 list \<Rightarrow> nat \<Rightarrow> u8 list list \<Rightarrow> u8 list list result" where
  "submit_dns reserve data dns_off ring =
    (let dns_len = length data - dns_off
     in if \<not> reserve dns_len ring then Inr ring
        else if length data < dns_off + dns_len then Inl Panic
        else Inr (ring @ [take dns_len (drop dns_off data)]))"

definition ingress ::
  "(nat \<Rightarrow> u8 list list \<Rightarrow> bool) \<Rightarrow> bpf_globals \<Rightarrow> sk_buff \<Rightarrow> u8 list list \<Rightarrow> u8 list list result" where
  "ingress reserve g skb ring =
    (if \<not> bf_enable_dns (bg_config g) then Inr ring
     else if sk_vlan_present skb \<noteq> 0 then Inr ring
     else if sk_family skb \<noteq> AF_INET then Inr ring
     else if sk_remote_port skb \<noteq> bpf_ntohl 53 \<and> sk_remote_port skb \<noteq> bpf_ntohl 0 then Inr ring
     else let data = sk_data skb in
       if length data < IPHDR_SIZE then Inr ring
       else rbind (idx data 9) (\<lambda>protocol.
         if protocol \<noteq> IPPROTO_UDP then Inr ring
         else rbind (idx data 0) (\<lambda>b.
           let udp = unat (and b 15) * 4 in
           if length data < udp + UDPHDR_SIZE then Inr ring
           else rbind (idx data udp) (\<lambda>b0. rbind (idx data (udp + 1)) (\<lambda>b1.
             if load_u16 b0 b1 \<noteq> bpf_htons 53 then Inr ring
             else submit_dns reserve data (udp + UDPHDR_SIZE) ring)))))"

section \<open>What the hook submits\<close>

text \<open>The data is an IPv4 header of the length that it gives, a UDP header with source port 53, and the payload.\<close>

definition dns_reply :: "u8 list \<Rightarrow> u8 list \<Rightarrow> bool" where
  "dns_reply data payload \<longleftrightarrow>
    (\<exists>ip udp. data = ip @ udp @ payload \<and> length ip = 4 * unat (and (data ! 0) 15) \<and> length udp = 8 \<and> take 2 udp = [0, 53])
    \<and> 20 \<le> length data \<and> data ! 9 = 17"

definition snooped :: "bpf_globals \<Rightarrow> sk_buff \<Rightarrow> bool" where
  "snooped g skb \<longleftrightarrow> bf_enable_dns (bg_config g) \<and> sk_vlan_present skb = 0 \<and> sk_family skb = 2
    \<and> sk_remote_port skb \<in> {0x35000000, 0}"

lemma load_u16_53: "load_u16 b0 b1 = bpf_htons 53 \<longleftrightarrow> b0 = 0 \<and> b1 = 53"
proof
  assume eq: "load_u16 b0 b1 = bpf_htons 53"
  have "ucast (load_u16 b0 b1) = b0" "ucast (drop_bit 8 (load_u16 b0 b1)) = b1"
    by (rule bit_word_eqI; auto simp: load_u16_def bit_or_iff bit_push_bit_iff bit_drop_bit_eq bit_ucast_iff
        dest: bit_imp_le_length)+
  then show "b0 = 0 \<and> b1 = 53"
    unfolding eq by (simp add: bpf_htons_def)
next
  assume "b0 = 0 \<and> b1 = 53"
  then show "load_u16 b0 b1 = bpf_htons 53" by (simp add: load_u16_def bpf_htons_def)
qed

lemma ntohl_ports: "bpf_ntohl 53 = 0x35000000" "bpf_ntohl 0 = 0"
  by (simp_all add: bpf_ntohl_def to_ne_bytes_def from_ne_bytes_def)

text \<open>The submission, at the offset that the header gives.\<close>

lemma dns_reply_iff:
  assumes "20 \<le> length data" and "udp = unat (and (data ! 0) 15) * 4"
  shows "dns_reply data p \<longleftrightarrow> data ! 9 = 17 \<and> udp + 8 \<le> length data \<and> data ! udp = 0 \<and> data ! (udp + 1) = 53 \<and> p = drop (udp + 8) data"
proof
  assume "dns_reply data p"
  then obtain ip u where d: "data = ip @ u @ p" "length ip = udp" "length u = 8" "take 2 u = [0, 53]" "data ! 9 = 17"
    using assms(2) unfolding dns_reply_def by (auto simp: mult.commute)
  have "u ! 0 = 0" "u ! 1 = 53" using d(3,4) by (metis nth_take nth_Cons_0 One_nat_def nth_Cons_Suc zero_less_numeral one_less_numeral_iff semiring_norm(76))+
  with d show "data ! 9 = 17 \<and> udp + 8 \<le> length data \<and> data ! udp = 0 \<and> data ! (udp + 1) = 53 \<and> p = drop (udp + 8) data"
    by (simp add: nth_append)
next
  assume r: "data ! 9 = 17 \<and> udp + 8 \<le> length data \<and> data ! udp = 0 \<and> data ! (udp + 1) = 53 \<and> p = drop (udp + 8) data"
  have "data = take udp data @ take 8 (drop udp data) @ drop (udp + 8) data"
    by (metis add.commute append_take_drop_id drop_drop)
  moreover have "take 2 (take 8 (drop udp data)) = [0, 53]"
    using r Cons_nth_drop_Suc [of udp data] Cons_nth_drop_Suc [of "Suc udp" data] by (simp add: numeral_2_eq_2 take_Suc_Cons [symmetric]) (metis take0 take_Suc_Cons)
  ultimately show "dns_reply data p"
    using r assms unfolding dns_reply_def
    by (intro conjI exI [of _ "take udp data"] exI [of _ "take 8 (drop udp data)"]) (auto simp: mult.commute)
qed

lemma dns_reply_unique: "dns_reply d p \<Longrightarrow> dns_reply d q \<Longrightarrow> p = q"
  unfolding dns_reply_def by auto

lemma dns_reply_the: "dns_reply d p \<Longrightarrow> The (dns_reply d) = p"
  by (blast intro: dns_reply_unique)

lemma ingress_eq:
  "ingress reserve g skb ring =
    Inr (if snooped g skb \<and> (\<exists>p. dns_reply (sk_data skb) p \<and> reserve (length p) ring)
         then ring @ [THE p. dns_reply (sk_data skb) p] else ring)"
proof (cases "snooped g skb \<and> 20 \<le> length (sk_data skb)")
  case False
  then show ?thesis
    by (auto simp: ingress_def snooped_def ntohl_ports AF_INET_def IPHDR_SIZE_def dns_reply_def Let_def)
next
  case True
  let ?d = "sk_data skb"
  define udp where "udp = unat (and (?d ! 0) 15) * 4"
  have reply: "dns_reply ?d p \<longleftrightarrow> ?d ! 9 = 17 \<and> udp + 8 \<le> length ?d \<and> ?d ! udp = 0 \<and> ?d ! (udp + 1) = 53 \<and> p = drop (udp + 8) ?d" for p
    using True by (intro dns_reply_iff) (simp_all add: udp_def)
  have "ingress reserve g skb ring =
    (if ?d ! 9 = 17 \<and> udp + 8 \<le> length ?d \<and> ?d ! udp = 0 \<and> ?d ! (udp + 1) = 53 then submit_dns reserve ?d (udp + 8) ring else Inr ring)"
    using True by (auto simp: ingress_def snooped_def ntohl_ports AF_INET_def IPHDR_SIZE_def UDPHDR_SIZE_def IPPROTO_UDP_def
        idx_def load_u16_53 Let_def udp_def not_less)
  moreover have "The (dns_reply ?d) = drop (udp + 8) ?d" if "dns_reply ?d p" for p
    using that by (intro dns_reply_the) (simp add: reply)
  ultimately show ?thesis
    using True by (auto simp: reply submit_dns_def Let_def)
qed

text \<open>
  C13: whatever the bytes of a packet are, the hook reads and copies nothing beyond them, and submits a
  record exactly when it is enabled, the packet is IPv4 without a VLAN tag from port 53 or an unknown port, its
  data is an IPv4 header, a UDP header with source port 53 and the payload, and the ring has room for the
  payload; the record is the payload.
\<close>

theorem ingress_submits:
  "\<exists>r. ingress reserve g skb ring = Inr (ring @ r) \<and> length r \<le> 1 \<and>
    (\<forall>p. (r = [p]) = (snooped g skb \<and> dns_reply (sk_data skb) p \<and> reserve (length p) ring))"
proof -
  have unique: "dns_reply d p \<Longrightarrow> dns_reply d q \<Longrightarrow> p = q" for d p q
    by (rule dns_reply_unique)
  show ?thesis
  proof (cases "snooped g skb \<and> (\<exists>p. dns_reply (sk_data skb) p \<and> reserve (length p) ring)")
    case True
    then obtain p where p: "dns_reply (sk_data skb) p" "reserve (length p) ring" by blast
    then have "ingress reserve g skb ring = Inr (ring @ [p])"
      using True unfolding ingress_eq dns_reply_the [OF p(1)] by (simp only: if_True simp_thms)
    moreover have "([p] = [q]) = (snooped g skb \<and> dns_reply (sk_data skb) q \<and> reserve (length q) ring)" for q
      using True p unique [OF p(1), of q] by (cases "p = q") auto
    ultimately show ?thesis by (intro exI [of _ "[p]"] conjI allI) simp_all
  next
    case False
    then show ?thesis unfolding ingress_eq by (intro exI [of _ "[]"]) auto
  qed
qed

definition ex_snoop :: bpf_globals where
  "ex_snoop = bpf_globals_zero\<lparr>bg_config := (bg_config bpf_globals_zero)\<lparr>bf_enable_dns := True\<rparr>\<rparr>"

definition ex_skb :: sk_buff where
  "ex_skb = \<lparr>sk_vlan_present = 0, sk_family = 2, sk_remote_port = 0,
     sk_data = [0x45, 0, 0, 0, 0, 0, 0, 0, 0, 17, 0, 0, 0, 0, 0, 0, 0, 0, 0, 0, 0, 53, 1, 2, 0, 10, 0, 0, 7, 8]\<rparr>"

lemma ex_skb_reply: "snooped ex_snoop ex_skb" "dns_reply (sk_data ex_skb) [7, 8]"
proof -
  show "snooped ex_snoop ex_skb"
    by (simp add: snooped_def ex_snoop_def ex_skb_def)
  show "dns_reply (sk_data ex_skb) [7, 8]"
    by (subst dns_reply_iff [of _ 20]) (simp_all add: ex_skb_def)
qed

theorem ingress_submits_witness:
  "ingress (\<lambda>n ring. n \<le> 512) ex_snoop ex_skb [] = Inr [[7, 8]]"
proof -
  obtain r where "ingress (\<lambda>n ring. n \<le> 512) ex_snoop ex_skb [] = Inr ([] @ r)"
    "(r = [[7, 8]]) = (snooped ex_snoop ex_skb \<and> dns_reply (sk_data ex_skb) [7, 8] \<and> length [7 :: u8, 8] \<le> 512)"
    using ingress_submits [of "\<lambda>n ring. n \<le> 512" ex_snoop ex_skb "[]"] by blast
  with ex_skb_reply show ?thesis by simp
qed

end
