(* ===== verification/Tray.thy ===== *)
theory Tray
  imports Gui
begin

text \<open>
  The tray item of \<^verbatim>\<open>rebpf-gui\<close>: the task and the D-Bus objects of \<^verbatim>\<open>tray/tray.rs\<close>, the icons of
  \<^verbatim>\<open>icons/icons.rs\<close>, and the hover logic of \<^verbatim>\<open>widgets/container_hook.rs\<close>.
\<close>

section \<open>Icons\<close>

text \<open>\<^verbatim>\<open>chunks_exact_mut(4)\<close> leaves a last incomplete chunk as it is.\<close>

fun rgba_to_argb :: "u8 list \<Rightarrow> u8 list" where
  "rgba_to_argb (c0 # c1 # c2 # c3 # b) = c3 # c0 # c1 # c2 # rgba_to_argb b"
| "rgba_to_argb b = b"

fun tray_svg :: "Tray \<Rightarrow> TrayTheme \<Rightarrow> string" where
  "tray_svg Tray_NotConnected Theme_Dark = ''rebpf-warn-white.svg''"
| "tray_svg Tray_Disabled Theme_Dark = ''rebpf-off-white.svg''"
| "tray_svg Tray_Enabled Theme_Dark = ''rebpf-on-white.svg''"
| "tray_svg Tray_NotConnected Theme_Light = ''rebpf-warn-black.svg''"
| "tray_svg Tray_Disabled Theme_Light = ''rebpf-off-black.svg''"
| "tray_svg Tray_Enabled Theme_Light = ''rebpf-on-black.svg''"

text \<open>\<open>draw_rgba\<close> renders a file of the crate with the toolkit.\<close>

definition tray_argb :: "(string \<Rightarrow> u8 list) \<Rightarrow> Tray \<Rightarrow> TrayTheme \<Rightarrow> u8 list" where
  "tray_argb draw_rgba st theme = rgba_to_argb (draw_rgba (tray_svg st theme))"

section \<open>The task\<close>

definition tray_init :: TrayState where
  "tray_init = \<lparr>ts_state = Tray_NotConnected, ts_theme = Theme_Dark, ts_blocker = '''', ts_output_dev = ''''\<rparr>"

text \<open>
  What the session bus answers: to building the connection, whether the name is taken, whether
  the other instance can be activated, to registering with the watcher.
\<close>

record tray_env =
  te_build :: "zbus_error + unit"
  te_name_taken :: bool
  te_activate :: bool
  te_register :: "zbus_error + unit"

datatype tray_result = Tray_exits | Tray_fails zbus_error | Tray_runs "M chan"

definition tray_start :: "tray_env \<Rightarrow> M chan \<Rightarrow> tray_result result" where
  "tray_start env m_tx =
    (case te_build env of
       Inl err \<Rightarrow> Inr (Tray_fails err)
     | Inr _ \<Rightarrow>
       if te_name_taken env \<and> te_activate env then Inr Tray_exits
       else case te_register env of
         Inl err \<Rightarrow> Inr (Tray_fails err)
       | Inr _ \<Rightarrow> rbind (tx_send m_tx M_TrayUp) (\<lambda>m_tx. Inr (Tray_runs m_tx)))"

text \<open>One turn of the loop; \<open>emits_ok\<close> are the results of making the emitter and of the two signals.\<close>

fun first_error :: "(zbus_error + unit) list \<Rightarrow> zbus_error + unit" where
  "first_error [] = Inr ()"
| "first_error (Inl err # rs) = Inl err"
| "first_error (Inr _ # rs) = first_error rs"

definition tray_turn :: "(zbus_error + unit) list \<Rightarrow> TrayState \<Rightarrow> TrayState \<Rightarrow> TrayState \<times> (zbus_error + unit)" where
  "tray_turn emits_ok new_state st = (new_state, first_error emits_ok)"

text \<open>The task returned: its receiver is dropped, and sends on the channel fail from now on.\<close>

definition drop_t_rx :: "'c gstate \<Rightarrow> 'c gstate" where
  "drop_t_rx s = s\<lparr>g_t_tx := map_option (ch_open_update (\<lambda>_. False)) (g_t_tx s)\<rparr>"

section \<open>The item\<close>

definition NAME :: string where "NAME = ''Rebpf''"

definition activate :: "M chan \<Rightarrow> M chan result" where
  "activate m_tx = tx_send m_tx M_WindowToggle"

fun show_tray :: "Tray \<Rightarrow> string" where
  "show_tray Tray_NotConnected = ''NotConnected''"
| "show_tray Tray_Enabled = ''Enabled''"
| "show_tray Tray_Disabled = ''Disabled''"

definition icon_pixmap :: "(string \<Rightarrow> u8 list) \<Rightarrow> TrayState \<Rightarrow> (int \<times> int \<times> u8 list) list" where
  "icon_pixmap draw_rgba s = [(128, 128, tray_argb draw_rgba (ts_state s) (ts_theme s))]"

definition tool_tip :: "TrayState \<Rightarrow> string" where
  "tool_tip st =
    (let blocker = (if ts_blocker st = '''' then show_tray (ts_state st) else ts_blocker st);
         txt = NAME @ '': '' @ blocker
     in if ts_output_dev st \<noteq> '''' then txt @ '' ('' @ ts_output_dev st @ '')'' else txt)"

text \<open>The properties of the two objects that do not change.\<close>

datatype fixed_prop = Const_text string | Const_flag bool | Const_path string | Const_number nat

definition item_constants :: "(string \<times> fixed_prop) list" where
  "item_constants = [(''Category'', Const_text ''SystemServices''), (''Id'', Const_text NAME), (''ItemIsMenu'', Const_flag False),
     (''Menu'', Const_path ''/MenuBar''), (''Status'', Const_text ''Active''), (''Title'', Const_text NAME)]"

definition menu_constants :: "(string \<times> fixed_prop) list" where
  "menu_constants = [(''Status'', Const_text ''normal''), (''TextDirection'', Const_text ''ltr''), (''Version'', Const_number 4)]"

section \<open>The menu\<close>

datatype menu_value = MV_bool bool | MV_str string

type_synonym menu_fields = "(string \<times> menu_value) list"

definition menu_item :: "int \<Rightarrow> string \<Rightarrow> int \<times> menu_fields" where
  "menu_item i label = (i, [(''enabled'', MV_bool True), (''label'', MV_str label), (''visible'', MV_bool True)])"

definition simple_menu_layout :: "(int \<times> menu_fields) list" where
  "simple_menu_layout = [menu_item 2 ''Enable'', menu_item 3 ''Disable'', menu_item 4 (''Quit '' @ NAME)]"

record menu_layout =
  ml_id :: int
  ml_parent :: int
  ml_fields :: menu_fields
  ml_submenus :: "(int \<times> menu_fields) list"

definition get_layout :: "int \<Rightarrow> menu_layout" where
  "get_layout parent_id =
    (if parent_id \<noteq> 0 then \<lparr>ml_id = 1, ml_parent = parent_id, ml_fields = [], ml_submenus = []\<rparr>
     else \<lparr>ml_id = 1, ml_parent = 0, ml_fields = [(''children-display'', MV_str ''submenu'')],
           ml_submenus = simple_menu_layout\<rparr>)"

definition get_group_properties :: "int list \<Rightarrow> (int \<times> menu_fields) list" where
  "get_group_properties ids = filter (\<lambda>s. fst s \<in> set ids) simple_menu_layout"

definition event :: "M chan \<times> D chan \<Rightarrow> int \<times> string \<Rightarrow> (M chan \<times> D chan) result" where
  "event txs ev =
    (case (txs, ev) of ((m_tx, d_tx), (i, event_id)) \<Rightarrow>
     if event_id = ''clicked'' then
       (if i = 2 then rbind (tx_send d_tx D_Enable) (\<lambda>d_tx. Inr (m_tx, d_tx))
        else if i = 3 then rbind (tx_send d_tx D_Disable) (\<lambda>d_tx. Inr (m_tx, d_tx))
        else if i = 4 then rbind (tx_send m_tx M_Exit) (\<lambda>m_tx. Inr (m_tx, d_tx))
        else Inr (m_tx, d_tx))
     else Inr (m_tx, d_tx))"

definition event_group :: "M chan \<times> D chan \<Rightarrow> (int \<times> string) list \<Rightarrow> (M chan \<times> D chan) result" where
  "event_group txs events = rfoldl event txs events"

section \<open>Hover\<close>

text \<open>
  \<^verbatim>\<open>container_hook\<close>: the messages left to send and the state kept in the widget tree.  A message
  is taken when it is sent; the next view brings new ones.
\<close>

record hook =
  hk_on_hover :: "M option"
  hk_on_leave :: "M option"
  hk_on_click :: "M option"
  hk_is_hovered :: bool

definition publish :: "M option \<Rightarrow> M list" where
  "publish m = (case m of None \<Rightarrow> [] | Some m \<Rightarrow> [m])"

text \<open>\<open>over\<close>: the cursor is over the bounds with the gutter; \<open>pressed\<close>: the event is a press.\<close>

definition hook_update :: "bool \<Rightarrow> bool \<Rightarrow> hook \<Rightarrow> hook \<times> M list" where
  "hook_update over pressed w =
    (let left = hk_is_hovered w \<and> \<not> over; entered = \<not> hk_is_hovered w \<and> over; clicked = over \<and> pressed
     in (w\<lparr>hk_on_leave := (if left then None else hk_on_leave w),
           hk_on_hover := (if entered then None else hk_on_hover w),
           hk_on_click := (if clicked then None else hk_on_click w),
           hk_is_hovered := over\<rparr>,
         (if left then publish (hk_on_leave w) else []) @
         (if entered then publish (hk_on_hover w) else []) @
         (if clicked then publish (hk_on_click w) else [])))"

text \<open>The widget of the next view: the messages of the view, the state of the tree.\<close>

definition hook_view :: "M option \<Rightarrow> M option \<Rightarrow> M option \<Rightarrow> hook \<Rightarrow> hook" where
  "hook_view hover leave click w = w\<lparr>hk_on_hover := hover, hk_on_leave := leave, hk_on_click := click\<rparr>"

text \<open>A widget that is drawn anew after every event.\<close>

fun hook_run :: "M \<Rightarrow> M \<Rightarrow> M option \<Rightarrow> hook \<Rightarrow> (bool \<times> bool) list \<Rightarrow> hook \<times> M list" where
  "hook_run hover leave click w [] = (w, [])"
| "hook_run hover leave click w ((over, pressed) # es) =
    (case hook_update over pressed (hook_view (Some hover) (Some leave) click w) of (w, ms) \<Rightarrow>
     case hook_run hover leave click w es of (w, ms') \<Rightarrow> (w, ms @ ms'))"

section \<open>Laws\<close>

text \<open>Entering and leaving alternate, and a click comes from inside.\<close>

lemma hook_balance:
  assumes "hook_run hover leave click w es = (w', ms)" and "hover \<noteq> leave"
    and "click \<noteq> Some hover" and "click \<noteq> Some leave"
  shows "count_list ms hover + of_bool (hk_is_hovered w) = count_list ms leave + of_bool (hk_is_hovered w')"
  using assms
proof (induction es arbitrary: w w' ms)
  case (Cons e es)
  then show ?case
    by (cases e) (force simp: hook_update_def hook_view_def publish_def Let_def count_list_append
        split: prod.splits option.splits if_splits)
qed simp

text \<open>The icon keeps its size, and every pixel keeps its colour with alpha in front.\<close>

lemma length_rgba_to_argb [simp]: "length (rgba_to_argb b) = length b"
  by (induction b rule: rgba_to_argb.induct) auto

lemma rgba_to_argb_pixels:
  "rgba_to_argb (concat (map (\<lambda>(r, g, b, a). [r, g, b, a]) px)) = concat (map (\<lambda>(r, g, b, a). [a, r, g, b]) px)"
  by (induction px) auto

text \<open>
  Without a tray the window dies.  Where the watcher of tray items cannot be registered with,
  the task of the tray returns and drops its receiver; the first state that the daemon reports then
  makes the window panic, as does the first failure to connect.
\<close>

theorem no_tray_panics:
  assumes "te_build env = Inr ()" and "\<not> te_name_taken env" and "te_register env = Inl err"
  shows "tray_start env m_tx = Inr (Tray_fails err) \<and>
    update L dir (drop_t_rx s) (M_Attached a) = Inl Panic \<and>
    update L dir (drop_t_rx s) (M_DbusCantConnect e) = Inl Panic"
  using assms
  by (auto simp: tray_start_def drop_t_rx_def on_attached_def on_dbus_cant_connect_def send_t_def unbounded_send_def
      tx_send_def fin_def ok_or_def Let_def split: option.splits)

theorem no_tray_panics_witness:
  "tray_start \<lparr>te_build = Inr (), te_name_taken = False, te_activate = False, te_register = Inl (ZServiceUnknown ''no watcher'')\<rparr>
      \<lparr>ch_open = True, ch_sent = []\<rparr> = Inr (Tray_fails (ZServiceUnknown ''no watcher'')) \<and>
   (\<forall>(L :: string gui_lib) dir. update L dir (drop_t_rx (gui_init L Theme_Dark
      \<lparr>ch_open = True, ch_sent = []\<rparr> \<lparr>ch_open = True, ch_sent = []\<rparr>)) (M_Attached attached_default) = Inl Panic)"
proof -
  have "tray_start env m = Inr (Tray_fails (ZServiceUnknown ''no watcher'')) \<and>
      update L dir (drop_t_rx (s :: string gstate)) (M_Attached a) = Inl Panic"
    if "env = \<lparr>te_build = Inr (), te_name_taken = False, te_activate = False,
      te_register = Inl (ZServiceUnknown ''no watcher'')\<rparr>" for env m L dir s a
    using no_tray_panics [of env "ZServiceUnknown ''no watcher''" m L dir s a] that by auto
  then show ?thesis by blast
qed

text \<open>
  The tray menu.  A click on an item of the layout reaches the daemon's switch or ends the
  program, in the order of the events; nothing else does.
\<close>

theorem menu_items_work:
  assumes "ch_open m_tx" and "ch_open d_tx"
  shows "event_group (m_tx, d_tx) evs = Inr
     (m_tx\<lparr>ch_sent := ch_sent m_tx @ concat (map (\<lambda>(i, e). if e = ''clicked'' \<and> i = 4 then [M_Exit] else []) evs)\<rparr>,
      d_tx\<lparr>ch_sent := ch_sent d_tx @ concat (map (\<lambda>(i, e). if e = ''clicked'' then
         (if i = 2 then [D_Enable] else if i = 3 then [D_Disable] else []) else []) evs)\<rparr>) \<and>
    map fst (ml_submenus (get_layout 0)) = [2, 3, 4]"
  using assms
proof (induction evs arbitrary: m_tx d_tx)
  case (Cons ev evs)
  then show ?case
    by (cases ev) (auto simp: event_group_def event_def tx_send_def)
qed (simp add: event_group_def get_layout_def simple_menu_layout_def menu_item_def)

theorem menu_items_work_witness:
  "event_group (\<lparr>ch_open = True, ch_sent = []\<rparr>, \<lparr>ch_open = True, ch_sent = []\<rparr>) [(3, ''hovered''), (3, ''clicked''), (4, ''clicked'')] =
    Inr (\<lparr>ch_open = True, ch_sent = [M_Exit]\<rparr>, \<lparr>ch_open = True, ch_sent = [D_Disable]\<rparr>)"
  using menu_items_work [of "\<lparr>ch_open = True, ch_sent = []\<rparr>" "\<lparr>ch_open = True, ch_sent = []\<rparr>"
      "[(3, ''hovered''), (3, ''clicked''), (4, ''clicked'')]"] by simp

end
