(* ===== verification/Widgets.thy ===== *)
theory Widgets
  imports Tray
begin

text \<open>
  The two containers of \<^verbatim>\<open>rebpf-gui/widgets\<close> around the content that they wrap: \<^verbatim>\<open>container_hook\<close>, which
  publishes what the cursor does and passes everything on, and \<^verbatim>\<open>container_hide\<close>, which keeps the place of its
  content and passes nothing on.  The toolkit is a parameter.
\<close>

section \<open>Content\<close>

text \<open>
  What the toolkit asks of a widget, with its state in the tree \<open>'t\<close>: how an event changes it and what it
  publishes, its size hint, its layout within limits, what it draws, the shape of the cursor over it and
  what it lays over the window.
\<close>

record ('t, 'e, 's, 'n, 'd, 'i, 'o) content =
  ct_update :: "'e \<Rightarrow> 't \<Rightarrow> 't \<times> M list"
  ct_size_hint :: 's
  ct_layout :: "'t \<Rightarrow> 't \<times> 'n"
  ct_operate :: "'t \<Rightarrow> 't"
  ct_draw :: "'t \<Rightarrow> 'd"
  ct_interaction :: "'t \<Rightarrow> 'i"
  ct_overlay :: "'t \<Rightarrow> 'o option"

section \<open>The hook\<close>

record ('t, 'e, 's, 'n, 'd, 'i, 'o) hook_widget =
  hw_content :: "('t, 'e, 's, 'n, 'd, 'i, 'o) content"
  hw_gutter :: nat
  hw_hook :: hook
  hw_clickable :: bool

definition hook_new :: "('t, 'e, 's, 'n, 'd, 'i, 'o) content \<Rightarrow> ('t, 'e, 's, 'n, 'd, 'i, 'o) hook_widget" where
  "hook_new c = \<lparr>hw_content = c, hw_gutter = 0,
     hw_hook = \<lparr>hk_on_hover = None, hk_on_leave = None, hk_on_click = None, hk_is_hovered = False\<rparr>, hw_clickable = False\<rparr>"

definition hook_gutter :: "nat \<Rightarrow> ('t, 'e, 's, 'n, 'd, 'i, 'o) hook_widget \<Rightarrow> ('t, 'e, 's, 'n, 'd, 'i, 'o) hook_widget" where
  "hook_gutter g w = w\<lparr>hw_gutter := g\<rparr>"

definition hook_show_clickable :: "bool \<Rightarrow> ('t, 'e, 's, 'n, 'd, 'i, 'o) hook_widget \<Rightarrow> ('t, 'e, 's, 'n, 'd, 'i, 'o) hook_widget" where
  "hook_show_clickable b w = w\<lparr>hw_clickable := b\<rparr>"

text \<open>
  \<open>over\<close> tells for a gutter whether the cursor is over the bounds with that gutter around them, \<open>press\<close> whether
  an event is a press of the left button or of a finger.
\<close>

definition hook_widget_update ::
  "(nat \<Rightarrow> bool) \<Rightarrow> ('e \<Rightarrow> bool) \<Rightarrow> 'e \<Rightarrow> ('t, 'e, 's, 'n, 'd, 'i, 'o) hook_widget \<Rightarrow> 't
    \<Rightarrow> ('t, 'e, 's, 'n, 'd, 'i, 'o) hook_widget \<times> 't \<times> M list" where
  "hook_widget_update over press e w t =
    (case hook_update (over (hw_gutter w)) (press e) (hw_hook w) of (h, ms) \<Rightarrow>
     case ct_update (hw_content w) e t of (t, ms') \<Rightarrow> (w\<lparr>hw_hook := h\<rparr>, t, ms @ ms'))"

text \<open>The size is that of the content, without padding; the other questions go to the content.\<close>

definition hook_size :: "('t, 'e, 's, 'n, 'd, 'i, 'o) hook_widget \<Rightarrow> 's" where
  "hook_size w = ct_size_hint (hw_content w)"

text \<open>\<open>padded\<close> is \<^verbatim>\<open>layout::padded\<close> without padding, for a size and the node of the content.\<close>

definition hook_layout :: "('s \<Rightarrow> 'n \<Rightarrow> 'n) \<Rightarrow> ('t, 'e, 's, 'n, 'd, 'i, 'o) hook_widget \<Rightarrow> 't \<Rightarrow> 't \<times> 'n" where
  "hook_layout padded w t = (case ct_layout (hw_content w) t of (t, n) \<Rightarrow> (t, padded (ct_size_hint (hw_content w)) n))"

definition hook_operate :: "('t, 'e, 's, 'n, 'd, 'i, 'o) hook_widget \<Rightarrow> 't \<Rightarrow> 't" where
  "hook_operate w t = ct_operate (hw_content w) t"

definition hook_draw :: "('t, 'e, 's, 'n, 'd, 'i, 'o) hook_widget \<Rightarrow> 't \<Rightarrow> 'd" where
  "hook_draw w t = ct_draw (hw_content w) t"

definition hook_interaction :: "'i \<Rightarrow> (nat \<Rightarrow> bool) \<Rightarrow> ('t, 'e, 's, 'n, 'd, 'i, 'o) hook_widget \<Rightarrow> 't \<Rightarrow> 'i" where
  "hook_interaction pointer over w t = (if hw_clickable w \<and> over 0 then pointer else ct_interaction (hw_content w) t)"

definition hook_overlay :: "('t, 'e, 's, 'n, 'd, 'i, 'o) hook_widget \<Rightarrow> 't \<Rightarrow> 'o option" where
  "hook_overlay w t = ct_overlay (hw_content w) t"

section \<open>The hidden container\<close>

definition hide_update :: "'e \<Rightarrow> ('t, 'e, 's, 'n, 'd, 'i, 'o) content \<Rightarrow> 't \<Rightarrow> 't \<times> M list" where
  "hide_update e c t = (t, [])"

definition hide_size :: "('t, 'e, 's, 'n, 'd, 'i, 'o) content \<Rightarrow> 's" where
  "hide_size c = ct_size_hint c"

definition hide_layout :: "('s \<Rightarrow> 'n \<Rightarrow> 'n) \<Rightarrow> ('t, 'e, 's, 'n, 'd, 'i, 'o) content \<Rightarrow> 't \<Rightarrow> 't \<times> 'n" where
  "hide_layout padded c t = (case ct_layout c t of (t, n) \<Rightarrow> (t, padded (ct_size_hint c) n))"

definition hide_operate :: "('t, 'e, 's, 'n, 'd, 'i, 'o) content \<Rightarrow> 't \<Rightarrow> 't" where
  "hide_operate c t = ct_operate c t"

definition hide_interaction :: "'i \<Rightarrow> ('t, 'e, 's, 'n, 'd, 'i, 'o) content \<Rightarrow> 't \<Rightarrow> 'i" where
  "hide_interaction arrow c t = arrow"

definition hide_overlay :: "('t, 'e, 's, 'n, 'd, 'i, 'o) content \<Rightarrow> 't \<Rightarrow> 'o option" where
  "hide_overlay c t = None"

section \<open>A hook does not change its content\<close>

text \<open>Events, each with what it is over; the widget is drawn anew after every one, with the messages of the view.\<close>

fun hook_widget_run ::
  "M option \<times> M option \<times> M option \<Rightarrow> ('e \<Rightarrow> bool) \<Rightarrow> ((nat \<Rightarrow> bool) \<times> 'e) list
    \<Rightarrow> ('t, 'e, 's, 'n, 'd, 'i, 'o) hook_widget \<Rightarrow> 't \<Rightarrow> ('t, 'e, 's, 'n, 'd, 'i, 'o) hook_widget \<times> 't \<times> M list" where
  "hook_widget_run msgs press [] w t = (w, t, [])"
| "hook_widget_run msgs press ((over, e) # es) w t =
    (case msgs of (hover, leave, click) \<Rightarrow>
     case hook_widget_update over press e (w\<lparr>hw_hook := hook_view hover leave click (hw_hook w)\<rparr>) t of (w, t, ms) \<Rightarrow>
     case hook_widget_run msgs press es w t of (w, t, ms') \<Rightarrow> (w, t, ms @ ms'))"

fun content_run :: "('t, 'e, 's, 'n, 'd, 'i, 'o) content \<Rightarrow> 'e list \<Rightarrow> 't \<Rightarrow> 't \<times> M list" where
  "content_run c [] t = (t, [])"
| "content_run c (e # es) t = (case ct_update c e t of (t, ms) \<Rightarrow> case content_run c es t of (t, ms') \<Rightarrow> (t, ms @ ms'))"

lemma hook_run_content:
  assumes "hook_widget_run msgs press es w t = (w', t', ms)"
  shows "hw_content w' = hw_content w \<and> t' = fst (content_run (hw_content w) (map snd es) t)"
  using assms
proof (induction es arbitrary: w t w' t' ms)
  case (Cons x es)
  then show ?case
    by (cases x; cases msgs) (fastforce simp: hook_widget_update_def split: prod.splits)
qed simp

lemma publish_subset: "set (publish m) \<subseteq> set_option m"
  by (cases m) (simp_all add: publish_def)

lemma hook_update_published:
  "set (snd (hook_update over pressed h)) \<subseteq> set_option (hk_on_hover h) \<union> set_option (hk_on_leave h) \<union> set_option (hk_on_click h)"
  using publish_subset by (fastforce simp: hook_update_def Let_def)

text \<open>What the content publishes comes through, and nothing else but the messages of the view.\<close>

lemma hook_run_messages:
  assumes "hook_widget_run (hover, leave, click) press es w t = (w', t', ms)"
    and "own = set_option hover \<union> set_option leave \<union> set_option click"
    and "set (snd (content_run (hw_content w) (map snd es) t)) \<inter> own = {}"
  shows "filter (\<lambda>m. m \<notin> own) ms = snd (content_run (hw_content w) (map snd es) t)"
  using assms(1,3)
proof (induction es arbitrary: w t w' t' ms)
  case (Cons x es)
  obtain over e where x: "x = (over, e)" by fastforce
  obtain h ms1 where h: "hook_update (over (hw_gutter w)) (press e) (hook_view hover leave click (hw_hook w)) = (h, ms1)" by fastforce
  obtain t1 ms2 where c: "ct_update (hw_content w) e t = (t1, ms2)" by fastforce
  obtain w2 t2 ms3 where r: "hook_widget_run (hover, leave, click) press es (w\<lparr>hw_hook := h\<rparr>) t1 = (w2, t2, ms3)"
    by (cases "hook_widget_run (hover, leave, click) press es (w\<lparr>hw_hook := h\<rparr>) t1")
  have ms: "ms = ms1 @ ms2 @ ms3"
    using Cons.prems(1) r by (simp add: x hook_widget_update_def h c)
  have "set ms1 \<subseteq> own"
    using hook_update_published [of "over (hw_gutter w)" "press e" "hook_view hover leave click (hw_hook w)"]
    unfolding h snd_conv by (simp add: hook_view_def assms(2))
  then have one: "filter (\<lambda>m. m \<notin> own) ms1 = []" by (auto simp: filter_empty_conv)
  have both: "set ms2 \<inter> own = {}" "set (snd (content_run (hw_content w) (map snd es) t1)) \<inter> own = {}"
    using Cons.prems(2) by (auto simp: x c split: prod.splits)
  then have "filter (\<lambda>m. m \<notin> own) ms2 = ms2" by (auto simp: filter_id_conv)
  moreover have "filter (\<lambda>m. m \<notin> own) ms3 = snd (content_run (hw_content w) (map snd es) t1)"
    using Cons.IH [OF r] both(2) by simp
  ultimately show ?case by (simp add: ms one x c split: prod.split)
qed simp

end
