(* ===== verification/Spec2Isabelle.thy ===== *)
theory Spec2Isabelle
  imports Layout System Privileges Loader_Correct Ingress Daemon_Correct Widgets
begin

text \<open>
  Verification of \<^verbatim>\<open>rebpf\<close>: a privileged daemon (\<^verbatim>\<open>src/rebpf\<close>) that redirects the traffic of
  chosen processes, addresses and domain names to a network interface with eBPF, routing rules
  and a resolver snoop, and a desktop program (\<^verbatim>\<open>src/rebpf-gui\<close>) that shows and edits its state
  over D-Bus.

  \<^bold>\<open>Parts and how they interact.\<close>  The daemon keeps one state (\<^verbatim>\<open>State\<close> in \<^verbatim>\<open>lib.rs\<close>: the switch,
  the output device, the configuration and the list of matches) in a watch channel.  The D-Bus
  service changes it; the reload task turns each value into routing rules for a fresh mark, an
  automaton for the eBPF program and a configuration for the loader; the DNS tasks turn observed
  answers into routes that expire; the saver writes it to two slots on disk.  The window sends
  requests through a channel to a D-Bus client, which calls the service and passes its properties
  back as messages; the tray shares both channels.

  \<^bold>\<open>Theories, bottom up\<close> (each opens with what it holds):

  \<^item> \<open>Prelude\<close>: errors and the result type, \<open>Panic\<close> for a Rust panic; lists, machine integers,
    native-endian bytes.  \<open>Rust_Text\<close>: parsing and printing of integers, addresses and booleans with
    their round trips.  \<open>Hashmap\<close>: the loop that the conversion macros generate, with the locale
    \<open>field_table\<close>, which says that different keys commute and shows that the order of a dictionary
    does not matter; it is interpreted for every struct that is read from a dictionary.
  \<^item> \<open>Config_Types\<close> (\<^verbatim>\<open>lib.rs\<close>, \<^verbatim>\<open>macros.rs\<close>): enums, structs, dictionaries.
  \<^item> \<open>Dfa\<close> (\<^verbatim>\<open>dfa.rs\<close>): extraction of a dense automaton of the regex crate and its encoding into the
    arena.  \<open>Bpf\<close> (\<^verbatim>\<open>bpf-dfa.c\<close>, \<^verbatim>\<open>needs_mark_uncached\<close> of \<^verbatim>\<open>bpf.c\<close>): the walk over a path and the
    verdict.  \<open>Automata\<close>: concrete automata for the witnesses.  \<open>Bpf_Correct\<close>: the walk accepts what the
    crate's automaton accepts; when there is a verdict and which.  \<open>Layout\<close>: the arena is well typed.
  \<^item> \<open>Hooks\<close> (\<^verbatim>\<open>bpf.c\<close>, \<^verbatim>\<open>bpf-arena.c\<close>, \<^verbatim>\<open>bpf_reload_config\<close> of \<^verbatim>\<open>bpf-load.c\<close>): globals, cache of verdicts,
    the programs attached to sockets and iterators, and the load of a configuration, an assignment at a
    time.  \<open>Hooks_Correct\<close>: the locale \<open>judging\<close> states what the programs need of the way a task is judged
    and is interpreted on the one with the cache.  \<open>History\<close>: the cache is not observable
    while no hook runs between the emptying of the cache and the last assignment of a load, and in histories
    of reloads and hooks the automaton in force is that of the list.  \<open>Hooks_Stale\<close>: where the
    cache is out of date.
  \<^item> \<open>Loader\<close>, \<open>Loader_Correct\<close> (\<^verbatim>\<open>bpf-load.c\<close>): marking the sockets that exist, reading the names of processes,
    the start time in \<^verbatim>\<open>/proc\<close>.
  \<^item> \<open>Matches_List\<close>, \<open>Matches_Correct\<close> (\<^verbatim>\<open>Matches\<close> and \<^verbatim>\<open>DnsCache\<close> of \<^verbatim>\<open>lib.rs\<close>): the operations on the
    list and the resolver cache.  The locale \<open>transactional\<close> states that a failed operation changes
    nothing and a successful one counts; its interpretations, for the list and for the service, carry
    the properties of runs.
  \<^item> \<open>Netlink_Io\<close>, \<open>Netlink\<close> (\<^verbatim>\<open>netlink.rs\<close>): requests and messages of the kernel, probing of devices,
    deletion of rules, the DNAT rule, cloned routes.  \<open>Reload\<close>, \<open>Reload_Correct\<close> (\<^verbatim>\<open>watch_reload\<close>,
    \<^verbatim>\<open>bpf_reload\<close>): the requests and the configuration of one reload; which of them clean up and which belong to
    the new mark.
  \<^item> \<open>Dns\<close>, \<open>Dns_Correct\<close> (\<^verbatim>\<open>dns.rs\<close>): records, their expiry and reconfiguration; the locale \<open>expiry_queue\<close>
    states what is relied on of the binary heap.  \<open>Dns_Kept\<close>: the wake-up and the cache never fall behind
    the records.  \<open>Ingress\<close> (\<^verbatim>\<open>ingress\<close> of \<^verbatim>\<open>bpf.c\<close>): the packet hook, and what it submits.  \<open>Requests\<close>: only
    the reload touches rules; the other tasks read, or keep to the DNS table.
  \<^item> \<open>Service\<close>, \<open>Service_Correct\<close> (\<^verbatim>\<open>dbus.rs\<close>): authorization, calls, dictionaries, the process buffer.
  \<^item> \<open>Daemon\<close>, \<open>Daemon_Correct\<close> (\<^verbatim>\<open>main.rs\<close>): command line, state files, saver, the
    exchange with the helper and a whole round of \<^verbatim>\<open>watch_reload\<close>, start and shutdown.
  \<^item> \<open>Tasks\<close>, \<open>Tasks_Correct\<close> (the loops of \<^verbatim>\<open>netlink.rs\<close> and \<^verbatim>\<open>dns.rs\<close>): the tasks between their awaits, woken by
    the channels; no wake-up is lost, and the log of requests ends with a round for the present list.
    \<open>Process\<close>, \<open>Process_Correct\<close> (\<^verbatim>\<open>main\<close>, \<^verbatim>\<open>run\<close> and \<^verbatim>\<open>save_state\<close> of \<^verbatim>\<open>main.rs\<close>): from the command line to the
    tasks, the saver beside them, and the clean-up; a run leaves no rule, and a restart resumes.
  \<^item> \<open>Gui_Message\<close> (\<^verbatim>\<open>rebpf-gui/message\<close>), \<open>Gui\<close> (\<^verbatim>\<open>gui.rs\<close>: state and \<^verbatim>\<open>update\<close>; \<^verbatim>\<open>utils.rs\<close>), \<open>Gui_View\<close>
    (\<^verbatim>\<open>view\<close>), \<open>Gui_Correct\<close>: the window does not panic, and where it does; the locale
    \<open>cached_filter\<close> states what the process sweep needs of a filter with a cache.
  \<^item> \<open>Gui_Backend\<close> (\<^verbatim>\<open>rebpf-gui/main.rs\<close>), \<open>Gui_Backend_Correct\<close>: the D-Bus client, and window, client
    and daemon together.  \<open>Tray\<close> (\<^verbatim>\<open>tray.rs\<close>, \<^verbatim>\<open>icons.rs\<close>).  \<open>Widgets\<close> (\<^verbatim>\<open>container_hook.rs\<close>,
    \<^verbatim>\<open>container_hide.rs\<close>): a hook does not change what it wraps.
  \<^item> \<open>Privileges\<close> (\<^verbatim>\<open>bpf_init\<close> and \<^verbatim>\<open>bpf_drop_caps\<close> of \<^verbatim>\<open>bpf-load.c\<close>, the helper of \<^verbatim>\<open>main.rs\<close>): the daemon does not run as root.
  \<^item> \<open>First_Match\<close>: the meaning of the list, first match first, and the verdict in its terms.  \<open>System\<close>: the
    service on the channels of the tasks, and from a row of the window, or any calls, to the mark of a socket.
  \<^item> This theory: the filter in the kernel follows the list; a whole round of a reload.

  \<^bold>\<open>How the code is represented.\<close>  A struct is a record, an enum a datatype, an integer a word of its
  width, a string the list of its bytes, a hash map an association list or a map, a B-tree map or set
  a sorted list.  A fallible operation returns \<open>error + 'a\<close>; a panic, a failed assertion and an index out
  of range are \<open>Inl Panic\<close>.  The operations of \<^verbatim>\<open>netlink.rs\<close> take and return the log of requests, and
  the kernel is a function of that log, so that its answers may depend on everything sent before.
  Tasks are steps on the state they share, and a run is any sequence of steps (\<open>inductive\<close> relations
  or lists of events).  The runtime of the daemon has one thread, so a step goes from one \<^verbatim>\<open>await\<close> to
  the next.  The load runs while programs are attached: \<open>Hooks\<close> divides it further, into its assignments;
  in \<open>Tasks\<close>, and so in the properties about the settled daemon, it is one step with respect to the hooks,
  and \<open>Hooks_Stale\<close> shows what a hook in the middle of it can leave behind.

  \<^bold>\<open>Parameters\<close>, with what is assumed of them as named hypotheses: the regex builder (\<open>build_wf\<close>: its
  automata are well formed and name patterns they were given; \<open>leftmost_first\<close>: of the patterns of a list the
  final state names the first that matches), the kernel (\<open>creds_documented\<close> for the calls that change identities), zbus and polkit, the name
  and packet parsers, serde (what it writes it reads back), the widget toolkit and the renderer, the
  listing of \<^verbatim>\<open>/proc\<close>; of the eBPF side the allocator of pages (\<open>alloc\<close>), what an LRU map keeps (\<open>keep\<close>), the room
  in the ring (\<open>reserve\<close>) and the system calls of the loader (\<open>proc_os\<close>, lists of what \<^verbatim>\<open>read\<close> returns).  Each hypothesis holds of a concrete instance in a witness.

  \<^bold>\<open>Bounds and fuel.\<close>  The loops of the eBPF program run at most \<open>PATH_MAX\<close> and \<open>NAME_MAX\<close> rounds, as
  there; \<open>walkable\<close> paths are within both.  The loop over the process buffer and the retry of the DNAT
  rule may run forever and are partial functions: that they return, and when they do not, is proved.
  Deletions stop after the 1000 rounds of the source.  Generations are 64 bits wide and wrap; where a
  property needs that they have not, it bounds the number of steps by \<open>2 ^ 64\<close>.

  \<^bold>\<open>Not modelled.\<close>  The way of a record from the hook to the callback of \<^verbatim>\<open>dns.rs\<close>: the ring of libbpf, its poll,
  and the context pointer that \<^verbatim>\<open>main.rs\<close> registers; the callback is an event of its own.  The parser of DNS messages in \<^verbatim>\<open>bpf-dns.c\<close>, which is never called; tracing and the
  dump of the cache for debugging; generated bindings and
  proxies; fonts, layout and drawing, with the labelled frame, which the program does not use; logging.
\<close>

section \<open>The filter follows the list\<close>

lemma example_run:
  obtains ctx' g' where "event_run two_libs (\<lambda>n. True) (\<lambda>c k i. True) ([] @ EvReload True 5 # map EvHook [])
      (one_match, no_ctx, bpf_globals_zero) = Some (one_match, ctx', g')"
proof -
  obtain arena dfa where b: "build_path_dfa two_libs (st_matches one_match) [] = Inr (arena, dfa)" "arena \<noteq> []"
    "length arena \<le> ARENA_SIZE"
    by (rule two_libs_build)
  then show thesis
    by (intro that) (auto simp: bpf_reload_def load_config_simps reload_config_def no_ctx_def bpf_globals_zero_def Let_def uid_match_def)
qed

text \<open>
  C3: the filter in the kernel is that of the present list.  Start from a program that has loaded
  nothing, change the list, reload and let the hooks run in any order, fewer than \<open>2 ^ 64\<close> times, and
  end with a reload and hooks: for every path and every user the eBPF program gives a verdict exactly
  when the automaton of the patterns that the present list stands for accepts the path and a match
  behind the final state is for that user.  (A load is one step with respect to the hooks.)
\<close>

theorem filter_follows_list:
  assumes wf: "build_wf lib" "pages_free alloc" and start: "bc_last_gen ctx = 0" "bg_last_gen g = 0" "bc_arena ctx = []"
    and bound: "unat (ms_generation (st_matches st)) + length es < 2 ^ 64"
    and run: "event_run lib alloc keep (es @ EvReload enable mark # map EvHook hs) (st, ctx, g) = Some (st', ctx', g')"
    and gen: "ms_generation (st_matches st') \<noteq> 0"
    and pats: "path_loop_set lib 0 (ms_matches (st_matches st')) ([], []) = (pats, pim)"
    and built: "build_path_dfa lib (st_matches st') [] = Inr (arena, dfa)" "length arena \<le> ARENA_SIZE"
    and d: "l_build_many lib True DFA_MAX_SIZE pats = Inr d" "d_start d True = Inr s0"
    and t: "ta_exe t = Some dents" "walkable dents"
  shows "bg_has_dfa g' \<and>
    (fst (verdict g' t) \<noteq> -1
     \<longleftrightarrow> d_is_match d (dense_final d s0 (full_path dents)) \<and>
        (\<exists>p \<in> set (state_patterns d (dense_final d s0 (full_path dents))). uid_applies (ta_uid t) (pat_match pim (st_matches st') p)))"
proof -
  have al: "align_wf (l_align lib)" and dense: "dense_wf d"
    using wf(1) d(1) unfolding build_wf_def by blast+
  have "in_force lib (st_matches st') g'"
    using reload_then_hooks [OF wf start bound run gen] by simp
  then obtain mem where g': "bg_has_dfa g'" "bg_dfa g' = dfa" "arena_mem g' = load_arena arena mem"
    and enc: "encode_dfa lib pats [] pim (st_matches st') = Inr (arena, dfa)"
    using pats built by (rule in_force_arena)
  show ?thesis
    using verdict_given [OF enc al d(1) dense built(2) t(2) d(2), of mem "ta_uid t"]
    by (simp add: verdict_def g' t(1))
qed

theorem filter_follows_list_witness:
  "\<exists>s. event_run two_libs (\<lambda>n. True) (\<lambda>c k i. True) ([] @ EvReload True 5 # map EvHook [])
      (one_match, no_ctx, bpf_globals_zero) = Some s \<and> fst (verdict (snd (snd s)) (ex_task 0)) \<noteq> -1"
proof -
  obtain pat where pats: "path_loop_set two_libs 0 (ms_matches (st_matches one_match)) ([], []) = ([pat], [0])"
    by (rule two_libs_patterns)
  obtain arena dfa where b: "build_path_dfa two_libs (st_matches one_match) [] = Inr (arena, dfa)" "length arena \<le> ARENA_SIZE"
    by (rule two_libs_build)
  obtain ctx' g' where run: "event_run two_libs (\<lambda>n. True) (\<lambda>c k i. True) ([] @ EvReload True 5 # map EvHook [])
      (one_match, no_ctx, bpf_globals_zero) = Some (one_match, ctx', g')"
    by (rule example_run)
  note e = example_facts
  from filter_follows_list [OF two_libs_wf e(1-5) run e(6) pats b e(7-10)] e(11)
  have "fst (verdict g' (ex_task 0)) \<noteq> -1"
    by (simp add: two_sel two_dense_final pat_match_def uid_match_def ex_path_def match_default_def uid_applies_def)
  with run show ?thesis by (simp only: ex_simps) auto
qed

section \<open>A round of the daemon\<close>

text \<open>
  C9: a reload that ends well leaves all its parties in agreement, if the previous one did.  The
  sockets, the context and the configuration of the program carry the new mark; the program has the
  automaton of the present list, or none where it cannot be built, the generations agree again and the
  cache is empty; marking is enabled exactly when the daemon is enabled and its output is up, in which case
  nothing is reported as blocking; readers see the daemon as attached and are signalled once.  The
  tables are copied, the kernel giving pages up to the size of the map, when they fit into the map; for a
  new list whose tables do not fit, the loader reports success only where the program has no arena at
  all, so that the automaton named in its globals reads empty tables.
\<close>

theorem reload_round_agrees:
  assumes wf: "align_wf (l_align lib)" "pages_free alloc" and sync: "synced (rw_ctx w) (rw_bpf w)"
    and same: "bc_last_gen (rw_ctx w) = ms_generation (st_matches conf) \<Longrightarrow> in_force lib (st_matches conf) (rw_bpf w)"
    and round: "watch_reload_round k nb lib alloc iface conf routes mark w log = Some (log', w', Inr ())"
  shows "rw_sockets w' = mark \<and> bc_mark (rw_ctx w') = Some mark \<and> bf_mark (bg_config (rw_bpf w')) = mark
    \<and> in_force lib (st_matches conf) (rw_bpf w') \<and> synced (rw_ctx w') (rw_bpf w')
    \<and> bc_last_gen (rw_ctx w') = ms_generation (st_matches conf) \<and> bg_cache (rw_bpf w') = (\<lambda>i. None)
    \<and> bf_enable (bg_config (rw_bpf w')) = (st_enable conf \<and> (\<exists>r. routes = Some r \<and> r_is_up r))
    \<and> (bf_enable (bg_config (rw_bpf w')) \<longrightarrow> w_value (rw_blocker w') = '''')
    \<and> w_value (rw_attached w') \<and> rw_signals w' = Suc (rw_signals w)
    \<and> (\<forall>arena dfa. bc_last_gen (rw_ctx w) \<noteq> ms_generation (st_matches conf) \<longrightarrow>
          build_path_dfa lib (st_matches conf) [] = Inr (arena, dfa) \<longrightarrow> ARENA_SIZE < length arena \<longrightarrow> \<not> bg_base (rw_bpf w'))"
proof -
  obtain ctx bpf g b where step: "watch_reload_step k nb lib conf routes mark (rw_ctx w) log = Some (log', ctx, Inr (bpf, b))"
    and load: "load_config alloc bpf (rw_bpf w) = Some g"
    and w': "w' = w\<lparr>rw_ctx := ctx, rw_bpf := g, rw_sockets := mark, rw_attached := watch_send True (rw_attached w),
      rw_blocker := watch_send b (rw_blocker w), rw_signals := Suc (rw_signals w)\<rparr>"
    using round by (rule watch_reload_round_ok)
  obtain enable log1 where rules: "reload_rules k nb lib conf routes mark log1 = Some (log', Inr (enable, b))"
    and reload: "bpf_reload lib ((rw_ctx w)\<lparr>bc_mark := Some mark\<rparr>) conf enable mark = Inr (ctx, bpf)"
    using step by (rule watch_reload_step_ok)
  have sync': "synced ((rw_ctx w)\<lparr>bc_mark := Some mark\<rparr>) (rw_bpf w)"
    using sync by (simp add: synced_def)
  have "in_force lib (st_matches conf) g"
    using load_in_force [OF wf sync' reload load] same by simp
  moreover have "enable = (st_enable conf \<and> (\<exists>r. routes = Some r \<and> r_is_up r))" "enable \<longrightarrow> b = ''''"
    using reload_rules_ok [OF rules] by (auto simp: reload_blocker_def split: option.splits if_splits)
  moreover have "\<not> bg_base g" if "bc_last_gen (rw_ctx w) \<noteq> ms_generation (st_matches conf)"
    "build_path_dfa lib (st_matches conf) [] = Inr (arena, dfa)" "ARENA_SIZE < length arena" for arena dfa
    using load_oversized [OF sync' reload load _ that(2,3)] that(1) by simp
  ultimately show ?thesis
    using bpf_reload_ok [OF reload] load_synced [OF sync' reload load] by (simp add: w' watch_send_def)
qed

definition idle_world :: reload_world where
  "idle_world = \<lparr>rw_ctx = no_ctx, rw_bpf = bpf_globals_zero, rw_sockets = 0, rw_attached = watch_new False,
     rw_blocker = watch_new '''', rw_signals = 0\<rparr>"

theorem reload_round_agrees_witness:
  "\<exists>log w'. watch_reload_round silent_kernel ex_nl_lib two_libs (\<lambda>n. True) (Inr ()) one_match None 70000 idle_world [] =
      Some (log, w', Inr ())
    \<and> rw_sockets w' = 70000 \<and> in_force two_libs (st_matches one_match) (rw_bpf w')"
proof -
  obtain arena dfa where b: "build_path_dfa two_libs (st_matches one_match) [] = Inr (arena, dfa)" "arena \<noteq> []"
    "length arena \<le> ARENA_SIZE"
    by (rule two_libs_build)
  obtain log w' where run:
    "watch_reload_round silent_kernel ex_nl_lib two_libs (\<lambda>n. True) (Inr ()) one_match None 70000 idle_world [] = Some (log, w', Inr ())"
    using b by (auto simp: watch_reload_round_def watch_reload_step_def reload_rules_def reload_blocker_def reload_publish_def
        oio_bind_def oio_of_def io_ret_def bpf_reload_def load_config_simps reload_config_def idle_world_def no_ctx_def
        bpf_globals_zero_def Let_def uid_match_def state_default_def config_default_def)
  have "pages_free (\<lambda>n. True)" "synced (rw_ctx idle_world) (rw_bpf idle_world)"
    "bc_last_gen (rw_ctx idle_world) \<noteq> ms_generation (st_matches one_match)"
    by (simp_all add: pages_free_def synced_def idle_world_def no_ctx_def bpf_globals_zero_def uid_match_def)
  with reload_round_agrees [OF two_libs_align _ _ _ run] run show ?thesis by blast
qed

end
